(* ===== verification/Prelude.thy ===== *)
theory Prelude
  imports Main "HOL-Library.Word"
begin

text \<open>
  Shared vocabulary of the development: Rust's unsigned integers as words, the ways a
  computation of the kernel can fail, and the state-and-failure monad in which every operation
  is written. The kernel is built by the Makefile with \<^verbatim>\<open>cargo build\<close> (the
  \<^verbatim>\<open>dev\<close> profile), where arithmetic overflow, an out-of-range index and an oversized
  shift all panic; the checked operations below make each of these a branch of the model.
\<close>

unbundle bit_operations_syntax

type_synonym u8 = "8 word"
type_synonym u16 = "16 word"
type_synonym u32 = "32 word"
type_synonym u64 = "64 word"
type_synonym usize = "64 word"

text \<open>
  A computation ends normally, panics (\<open>panic!\<close>, overflow, bad index), takes a data abort on an
  address that is not backed by memory, or is still spinning when the number of polls granted to
  a busy-wait loop is used up.
\<close>

datatype fault = Panic | Data_Abort u64 | Hang

type_synonym ('s, 'a) M = "'s \<Rightarrow> (fault + 'a) \<times> 's"

named_theorems monad_simps \<open>evaluation rules of the monad\<close>

section \<open>The monad\<close>

definition return_M :: "'a \<Rightarrow> ('s, 'a) M" where
  "return_M x = (\<lambda>s. (Inr x, s))"

definition fail_M :: "fault \<Rightarrow> ('s, 'a) M" where
  "fail_M e = (\<lambda>s. (Inl e, s))"

definition bind_M :: "('s, 'a) M \<Rightarrow> ('a \<Rightarrow> ('s, 'b) M) \<Rightarrow> ('s, 'b) M" where
  "bind_M m f = (\<lambda>s. case m s of (Inl e, s') \<Rightarrow> (Inl e, s') | (Inr x, s') \<Rightarrow> f x s')"

definition seq_M :: "('s, 'a) M \<Rightarrow> ('s, 'b) M \<Rightarrow> ('s, 'b) M" where
  "seq_M m n = bind_M m (\<lambda>_. n)"

definition gets_M :: "('s \<Rightarrow> 'a) \<Rightarrow> ('s, 'a) M" where
  "gets_M f = (\<lambda>s. (Inr (f s), s))"

definition modify_M :: "('s \<Rightarrow> 's) \<Rightarrow> ('s, unit) M" where
  "modify_M f = (\<lambda>s. (Inr (), f s))"

text \<open>A block of statements, a \<open>for\<close> loop over a list, and a \<open>for\<close> loop with an accumulator.\<close>

primrec block_M :: "('s, unit) M list \<Rightarrow> ('s, unit) M" where
  "block_M [] = return_M ()"
| "block_M (m # ms) = seq_M m (block_M ms)"

primrec for_M :: "'x list \<Rightarrow> ('x \<Rightarrow> ('s, unit) M) \<Rightarrow> ('s, unit) M" where
  "for_M [] f = return_M ()"
| "for_M (x # xs) f = seq_M (f x) (for_M xs f)"

primrec fold_M :: "('x \<Rightarrow> 'a \<Rightarrow> ('s, 'a) M) \<Rightarrow> 'x list \<Rightarrow> 'a \<Rightarrow> ('s, 'a) M" where
  "fold_M f [] a = return_M a"
| "fold_M f (x # xs) a = bind_M (f x a) (fold_M f xs)"

lemma return_M_apply [simp, monad_simps]: "return_M x s = (Inr x, s)"
  by (simp add: return_M_def)

lemma fail_M_apply [simp, monad_simps]: "fail_M e s = (Inl e, s)"
  by (simp add: fail_M_def)

lemma gets_M_apply [simp, monad_simps]: "gets_M f s = (Inr (f s), s)"
  by (simp add: gets_M_def)

lemma modify_M_apply [simp, monad_simps]: "modify_M f s = (Inr (), f s)"
  by (simp add: modify_M_def)

lemma bind_M_Inr [simp, monad_simps]: "m s = (Inr x, s') \<Longrightarrow> bind_M m f s = f x s'"
  by (simp add: bind_M_def)

lemma bind_M_Inl [simp, monad_simps]: "m s = (Inl e, s') \<Longrightarrow> bind_M m f s = (Inl e, s')"
  by (simp add: bind_M_def)

lemma bind_M_bool [simp, monad_simps]:
  "m s = (Inr True, s') \<Longrightarrow> bind_M m f s = f True s'"
  "m s = (Inr False, s') \<Longrightarrow> bind_M m f s = f False s'"
  by (simp_all add: bind_M_def)

lemma seq_M_Inr [simp, monad_simps]: "m s = (Inr x, s') \<Longrightarrow> seq_M m n s = n s'"
  by (simp add: seq_M_def)

lemma seq_M_Inl [simp, monad_simps]: "m s = (Inl e, s') \<Longrightarrow> seq_M m n s = (Inl e, s')"
  by (simp add: seq_M_def)

lemma bind_M_return [simp]: "bind_M (return_M x) f = f x"
  by (rule ext) simp

lemma bind_M_gets [simp]: "bind_M (gets_M g) f s = f (g s) s"
  by simp

lemma bind_M_if: "bind_M (if b then m else n) f = (if b then bind_M m f else bind_M n f)"
  by simp

lemma bind_M_assoc: "bind_M (bind_M m f) g = bind_M m (\<lambda>x. bind_M (f x) g)"
  by (rule ext) (auto simp: bind_M_def split: prod.splits sum.splits)

lemma seq_M_assoc: "seq_M (seq_M a b) c = seq_M a (seq_M b c)"
  by (simp add: seq_M_def bind_M_assoc)

text \<open>Inversion: a successful sequence has a successful first step.\<close>

lemma bind_M_Inr_E:
  assumes "bind_M m f s = (Inr y, t)"
  obtains x s' where "m s = (Inr x, s')" and "f x s' = (Inr y, t)"
  using assms by (auto simp: bind_M_def split: prod.splits sum.splits)

lemma seq_M_Inr_E:
  assumes "seq_M m n s = (Inr y, t)"
  obtains x s' where "m s = (Inr x, s')" and "n s' = (Inr y, t)"
  using assms by (auto simp: seq_M_def elim: bind_M_Inr_E)

lemma bind_M_cong [fundef_cong]:
  assumes "m s = m' s'" and "\<And>x t. m' s' = (Inr x, t) \<Longrightarrow> f x t = g x t" and "s = s'"
  shows "bind_M m f s = bind_M m' g s'"
  using assms by (auto simp: bind_M_def split: prod.splits sum.splits)

lemma seq_M_return [simp]: "seq_M (return_M x) m = m"
  by (rule ext) simp

lemma seq_M_return_unit [simp]: "seq_M m (return_M ()) = m"
  by (rule ext) (auto simp: seq_M_def bind_M_def split: prod.splits sum.splits)

lemma for_M_append: "for_M (xs @ ys) f = seq_M (for_M xs f) (for_M ys f)"
  by (induction xs) (simp_all add: seq_M_assoc)

section \<open>What a computation leaves alone, and what it establishes\<close>

text \<open>
  \<open>keeps f m\<close>: whatever happens, \<open>m\<close> does not change the part \<open>f\<close> of the state. \<open>outcome P m Q E\<close>:
  started in a state with \<open>P\<close>, \<open>m\<close> either returns with \<open>Q\<close> or fails with \<open>E\<close>.
\<close>

definition keeps :: "('s \<Rightarrow> 'x) \<Rightarrow> ('s, 'a) M \<Rightarrow> bool" where
  "keeps f m \<longleftrightarrow> (\<forall>s. f (snd (m s)) = f s)"

abbreviation reads_only :: "('s, 'a) M \<Rightarrow> bool" where
  "reads_only \<equiv> keeps (\<lambda>s. s)"

definition outcome :: "('s \<Rightarrow> bool) \<Rightarrow> ('s, 'a) M \<Rightarrow> ('a \<Rightarrow> 's \<Rightarrow> bool) \<Rightarrow> ('s \<Rightarrow> bool) \<Rightarrow> bool" where
  "outcome P m Q E \<longleftrightarrow> (\<forall>s. P s \<longrightarrow> (case m s of (Inr x, t) \<Rightarrow> Q x t | (Inl e, t) \<Rightarrow> E t))"

named_theorems keeps_rules \<open>what leaves which part of the state alone\<close>

lemma keepsI: "(\<And>s. f (snd (m s)) = f s) \<Longrightarrow> keeps f m"
  by (simp add: keeps_def)

lemma keepsD: "keeps f m \<Longrightarrow> m s = (r, t) \<Longrightarrow> f t = f s"
  by (auto simp: keeps_def dest: spec [of _ s])

lemma reads_only_keeps: "reads_only m \<Longrightarrow> keeps f m"
  by (simp add: keeps_def)

lemma keeps_basic [keeps_rules]:
  "keeps f (return_M x)" "keeps f (fail_M e)" "keeps f (gets_M g)"
  by (simp_all add: keeps_def)

lemma keeps_bind [keeps_rules]: "keeps f m \<Longrightarrow> (\<And>x. keeps f (k x)) \<Longrightarrow> keeps f (bind_M m k)"
  by (simp add: keeps_def bind_M_def split: prod.splits sum.splits) (metis snd_conv)

lemma keeps_seq [keeps_rules]: "keeps f m \<Longrightarrow> keeps f n \<Longrightarrow> keeps f (seq_M m n)"
  by (simp add: seq_M_def keeps_bind)

lemma keeps_block_Nil [keeps_rules]: "keeps f (block_M [])"
  by (simp add: keeps_def)

lemma keeps_block_Cons [keeps_rules]: "keeps f m \<Longrightarrow> keeps f (block_M ms) \<Longrightarrow> keeps f (block_M (m # ms))"
  by (simp add: keeps_seq)

lemma keeps_for [keeps_rules]: "(\<And>x. keeps f (g x)) \<Longrightarrow> keeps f (for_M xs g)"
  by (induction xs) (simp_all add: keeps_basic keeps_seq)

lemma keeps_fold [keeps_rules]: "(\<And>x a. keeps f (g x a)) \<Longrightarrow> keeps f (fold_M g xs a)"
  by (induction xs arbitrary: a) (simp_all add: keeps_basic keeps_bind)

lemma keeps_splits [keeps_rules]:
  "(b \<Longrightarrow> keeps f m) \<Longrightarrow> (\<not> b \<Longrightarrow> keeps f n) \<Longrightarrow> keeps f (if b then m else n)"
  "(r = None \<Longrightarrow> keeps f m) \<Longrightarrow> (\<And>x. r = Some x \<Longrightarrow> keeps f (k x)) \<Longrightarrow> keeps f (case r of None \<Rightarrow> m | Some x \<Rightarrow> k x)"
  "(\<And>x y. p = (x, y) \<Longrightarrow> keeps f (h x y)) \<Longrightarrow> keeps f (case p of (x, y) \<Rightarrow> h x y)"
  "(\<And>x. x = z \<Longrightarrow> keeps f (g x)) \<Longrightarrow> keeps f (let x = z in g x)"
  by (auto split: option.splits prod.splits)

lemma outcome_bind:
  "outcome P m R E \<Longrightarrow> (\<And>x. outcome (R x) (k x) Q E) \<Longrightarrow> outcome P (bind_M m k) Q E"
  by (fastforce simp: outcome_def bind_M_def split: prod.splits sum.splits)

lemma outcome_seq: "outcome P m (\<lambda>_. R) E \<Longrightarrow> outcome R n Q E \<Longrightarrow> outcome P (seq_M m n) Q E"
  unfolding seq_M_def by (rule outcome_bind)

text \<open>A step that only reads: its result may be used in what follows.\<close>

lemma outcome_reads:
  assumes "reads_only m" and "\<And>s. P s \<Longrightarrow> E s"
    and "\<And>x. outcome (\<lambda>s. P s \<and> fst (m s) = Inr x) (k x) Q E"
  shows "outcome P (bind_M m k) Q E"
proof (rule outcome_bind [OF _ assms(3)])
  show "outcome P m (\<lambda>x s. P s \<and> fst (m s) = Inr x) E"
    unfolding outcome_def
  proof (intro allI impI)
    fix s assume "P s"
    moreover have "snd (m s) = s" using assms(1) by (simp add: keeps_def)
    ultimately show "case m s of (Inl e, t) \<Rightarrow> E t | (Inr x, t) \<Rightarrow> P t \<and> fst (m t) = Inr x"
      using assms(2) by (cases "m s") (auto split: sum.splits)
  qed
qed

lemma outcome_weaken: "outcome P' m Q E \<Longrightarrow> (\<And>s. P s \<Longrightarrow> P' s) \<Longrightarrow> outcome P m Q E"
  by (simp add: outcome_def)

lemma outcomeD: "outcome P m Q E \<Longrightarrow> P s \<Longrightarrow> m s = (Inr x, t) \<Longrightarrow> Q x t"
  and outcomeD_fail: "outcome P m Q E \<Longrightarrow> P s \<Longrightarrow> m s = (Inl e, t) \<Longrightarrow> E t"
  by (auto simp: outcome_def dest: spec [of _ s])

lemma outcome_returns: "(\<And>s. P s \<Longrightarrow> \<exists>x t. m s = (Inr x, t) \<and> Q x t) \<Longrightarrow> outcome P m Q E"
  by (fastforce simp: outcome_def)

lemma outcome_return: "(\<And>s. P s \<Longrightarrow> Q x s) \<Longrightarrow> outcome P (return_M x) Q E"
  by (simp add: outcome_def)

lemma outcome_modify: "(\<And>s. P s \<Longrightarrow> Q () (f s)) \<Longrightarrow> outcome P (modify_M f) Q E"
  by (simp add: outcome_def)

text \<open>\<open>ends m\<close>: no busy-wait of \<open>m\<close> uses up its polls.\<close>

definition ends :: "('s, 'a) M \<Rightarrow> bool" where
  "ends m \<longleftrightarrow> (\<forall>s. fst (m s) \<noteq> Inl Hang)"

named_theorems ends_rules \<open>what never hangs\<close>

lemma ends_basic [ends_rules]:
  "ends (return_M x)" "ends (gets_M g)" "ends (modify_M h)" "ends (fail_M Panic)"
  by (simp_all add: ends_def)

lemma ends_bind [ends_rules]: "ends m \<Longrightarrow> (\<And>x. ends (k x)) \<Longrightarrow> ends (bind_M m k)"
  by (simp add: ends_def bind_M_def split: prod.splits sum.splits) (metis fst_conv)

lemma ends_seq [ends_rules]: "ends m \<Longrightarrow> ends n \<Longrightarrow> ends (seq_M m n)"
  by (simp add: seq_M_def ends_bind)

lemma ends_splits [ends_rules]:
  "(b \<Longrightarrow> ends m) \<Longrightarrow> (\<not> b \<Longrightarrow> ends n) \<Longrightarrow> ends (if b then m else n)"
  "(\<And>x. x = z \<Longrightarrow> ends (g x)) \<Longrightarrow> ends (let x = z in g x)"
  by simp_all

text \<open>\<open>preserves P m\<close>: an invariant that \<open>m\<close> keeps however it ends.\<close>

definition preserves :: "('s \<Rightarrow> bool) \<Rightarrow> ('s, 'a) M \<Rightarrow> bool" where
  "preserves P m \<longleftrightarrow> (\<forall>s. P s \<longrightarrow> P (snd (m s)))"

named_theorems preserves_rules \<open>what keeps an invariant\<close>

lemma preservesD: "preserves P m \<Longrightarrow> P s \<Longrightarrow> m s = (r, t) \<Longrightarrow> P t"
  by (auto simp: preserves_def dest: spec [of _ s])

lemma preserves_basic [preserves_rules]:
  "preserves P (return_M x)" "preserves P (fail_M e)" "preserves P (gets_M g)"
  by (simp_all add: preserves_def)

lemma preserves_bind [preserves_rules]:
  "preserves P m \<Longrightarrow> (\<And>x. preserves P (k x)) \<Longrightarrow> preserves P (bind_M m k)"
  by (simp add: preserves_def bind_M_def split: prod.splits sum.splits) (metis snd_conv)

lemma preserves_seq [preserves_rules]: "preserves P m \<Longrightarrow> preserves P n \<Longrightarrow> preserves P (seq_M m n)"
  by (simp add: seq_M_def preserves_bind)

lemma preserves_block [preserves_rules]:
  "preserves P (block_M [])" "preserves P m \<Longrightarrow> preserves P (block_M ms) \<Longrightarrow> preserves P (block_M (m # ms))"
  by (simp_all add: preserves_seq preserves_basic)

lemma preserves_for [preserves_rules]: "(\<And>x. preserves P (g x)) \<Longrightarrow> preserves P (for_M xs g)"
  by (induction xs) (simp_all add: preserves_basic preserves_seq)

lemma preserves_splits [preserves_rules]:
  "(b \<Longrightarrow> preserves P m) \<Longrightarrow> (\<not> b \<Longrightarrow> preserves P n) \<Longrightarrow> preserves P (if b then m else n)"
  "(r = None \<Longrightarrow> preserves P m) \<Longrightarrow> (\<And>x. r = Some x \<Longrightarrow> preserves P (h x)) \<Longrightarrow>
     preserves P (case r of None \<Rightarrow> m | Some x \<Rightarrow> h x)"
  "(\<And>x. x = z \<Longrightarrow> preserves P (g x)) \<Longrightarrow> preserves P (let x = z in g x)"
  by (simp_all split: option.splits)

section \<open>Bounds of words\<close>

lemma unat_bound: "unat (w :: 'a::len word) < 2 ^ LENGTH('a)"
  by simp

lemmas unat_bound_u8 = unat_bound [where 'a = 8, simplified]
  and unat_bound_u32 = unat_bound [where 'a = 32, simplified]
  and unat_bound_u64 = unat_bound [where 'a = 64, simplified]

text \<open>Widening keeps the value.\<close>

lemma unat_ucast_widen:
  "LENGTH('a) \<le> LENGTH('b) \<Longrightarrow> unat (ucast (w :: 'a::len word) :: 'b::len word) = unat w"
  by (simp add: unsigned_ucast_eq take_bit_nat_eq_self_iff
      order.strict_trans2 [OF unat_bound power_increasing])

lemma unat_ucast_u32_u64 [simp]: "unat (ucast (w :: u32) :: u64) = unat w"
  by (simp add: unat_ucast_widen)

lemma unat_ucast_u8_u32 [simp]: "unat (ucast (w :: u8) :: u32) = unat w"
  by (simp add: unat_ucast_widen)

lemma ucast_u8_u32_u8 [simp]: "ucast (ucast (w :: u8) :: u32) = w"
  by (rule bit_word_eqI) (simp add: bit_ucast_iff)

text \<open>Cutting a word to its low bits.\<close>

lemma unat_and_mask: "unat (w AND mask n) = unat w mod 2 ^ n"
  by (simp only: take_bit_eq_mask [symmetric] unsigned_take_bit_eq) (simp add: take_bit_eq_mod)

lemma unat_and_0xffff: "unat (w AND 0xffff) = unat w mod 65536" for w :: u32
  using unat_and_mask [of w 16] by (simp add: mask_eq_exp_minus_1)

lemma unat_and_0x3f: "unat (w AND 0x3f) = unat w mod 64" for w :: u32
  using unat_and_mask [of w 6] by (simp add: mask_eq_exp_minus_1)

lemma unat_drop_bit: "unat (drop_bit n w) = unat w div 2 ^ n"
  by (simp only: unat_drop_bit_eq) (simp add: drop_bit_eq_div)

section \<open>Checked integer operations and indexing\<close>

definition checked_add :: "'a::len word \<Rightarrow> 'a word \<Rightarrow> ('s, 'a word) M" where
  "checked_add a b = (if unat a + unat b < 2 ^ LENGTH('a) then return_M (a + b) else fail_M Panic)"

definition checked_sub :: "'a::len word \<Rightarrow> 'a word \<Rightarrow> ('s, 'a word) M" where
  "checked_sub a b = (if b \<le> a then return_M (a - b) else fail_M Panic)"

definition checked_mul :: "'a::len word \<Rightarrow> 'a word \<Rightarrow> ('s, 'a word) M" where
  "checked_mul a b = (if unat a * unat b < 2 ^ LENGTH('a) then return_M (a * b) else fail_M Panic)"

definition checked_div :: "'a::len word \<Rightarrow> 'a word \<Rightarrow> ('s, 'a word) M" where
  "checked_div a b = (if b = 0 then fail_M Panic else return_M (a div b))"

definition checked_shl :: "'a::len word \<Rightarrow> nat \<Rightarrow> ('s, 'a word) M" where
  "checked_shl a n = (if n < LENGTH('a) then return_M (push_bit n a) else fail_M Panic)"

definition index_M :: "'a list \<Rightarrow> nat \<Rightarrow> ('s, 'a) M" where
  "index_M xs i = (if i < length xs then return_M (xs ! i) else fail_M Panic)"

definition update_M :: "'a list \<Rightarrow> nat \<Rightarrow> 'a \<Rightarrow> ('s, 'a list) M" where
  "update_M xs i x = (if i < length xs then return_M (xs[i := x]) else fail_M Panic)"

lemma checked_add_ok [simp]:
  "unat a + unat b < 2 ^ LENGTH('a) \<Longrightarrow> checked_add a (b :: 'a::len word) = return_M (a + b)"
  by (simp add: checked_add_def)

lemma checked_add_panic [simp]:
  "\<not> unat a + unat b < 2 ^ LENGTH('a) \<Longrightarrow> checked_add a (b :: 'a::len word) = fail_M Panic"
  by (simp add: checked_add_def)

lemma checked_add_Inr_unat:
  assumes "checked_add a (b :: 'a::len word) s = (Inr c, t)"
  shows "unat c = unat a + unat b" and "c = a + b" and "t = s"
  using assms by (auto simp: checked_add_def unat_word_ariths split: if_splits)

lemma checked_sub_ok [simp]: "b \<le> a \<Longrightarrow> checked_sub a b = return_M (a - b)"
  by (simp add: checked_sub_def)

lemma checked_mul_ok [simp]:
  "unat a * unat b < 2 ^ LENGTH('a) \<Longrightarrow> checked_mul a (b :: 'a::len word) = return_M (a * b)"
  by (simp add: checked_mul_def)

lemma checked_div_ok [simp]: "b \<noteq> 0 \<Longrightarrow> checked_div a b = return_M (a div b)"
  by (simp add: checked_div_def)

lemma checked_shl_ok [simp]:
  "n < LENGTH('a) \<Longrightarrow> checked_shl (a :: 'a::len word) n = return_M (push_bit n a)"
  by (simp add: checked_shl_def)

lemma index_M_ok [simp]: "i < length xs \<Longrightarrow> index_M xs i = return_M (xs ! i)"
  by (simp add: index_M_def)

lemma index_M_panic [simp]: "\<not> i < length xs \<Longrightarrow> index_M xs i = fail_M Panic"
  by (simp add: index_M_def)

lemma update_M_ok [simp]: "i < length xs \<Longrightarrow> update_M xs i x = return_M (xs[i := x])"
  by (simp add: update_M_def)

lemma update_M_panic [simp]: "\<not> i < length xs \<Longrightarrow> update_M xs i x = fail_M Panic"
  by (simp add: update_M_def)

lemma ends_checked [ends_rules]:
  "ends (checked_add a b)" "ends (index_M xs i)" "ends (update_M xs i x)"
  by (simp_all add: ends_def checked_add_def index_M_def update_M_def)

lemma keeps_checked [keeps_rules]:
  "keeps f (checked_add a b)" "keeps f (checked_sub a b)" "keeps f (checked_mul a b)" "keeps f (checked_div a b)"
  "keeps f (checked_shl a n)" "keeps f (index_M xs i)" "keeps f (update_M xs i x)"
  by (simp_all add: checked_add_def checked_sub_def checked_mul_def checked_div_def checked_shl_def index_M_def
      update_M_def keeps_def)

section \<open>Lists\<close>

lemma all_less_Suc_split: "(\<forall>i<Suc n. P i) \<longleftrightarrow> P 0 \<and> (\<forall>i<n. P (Suc i))"
  by (auto simp: less_Suc_eq_0_disj)

section \<open>Byte strings\<close>

text \<open>A Rust string slice is its bytes; \<open>string\<close> is a list of 8-bit characters.\<close>

definition bytes_str :: "u8 list \<Rightarrow> string" where
  "bytes_str bs = map (\<lambda>b. char_of (unat b)) bs"

definition str_bytes :: "string \<Rightarrow> u8 list" where
  "str_bytes cs = map of_char cs"

lemma bytes_str_simps [simp]:
  "bytes_str [] = []" "bytes_str (b # bs) = char_of (unat b) # bytes_str bs"
  "bytes_str (bs @ bs') = bytes_str bs @ bytes_str bs'"
  by (simp_all add: bytes_str_def)

lemma str_bytes_simps [simp]:
  "str_bytes [] = []" "str_bytes (c # cs) = of_char c # str_bytes cs"
  "str_bytes (cs @ cs') = str_bytes cs @ str_bytes cs'"
  by (simp_all add: str_bytes_def)

lemma unat_of_char: "unat (of_char c :: u8) = of_char c"
proof -
  have "(of_char c :: u8) = of_nat (of_char c)"
    by (cases c) (simp add: of_char_def)
  moreover have "(of_char c :: nat) < 256"
    by (cases c) (simp add: of_char_def)
  ultimately show ?thesis by (simp add: unat_of_nat)
qed

lemma bytes_str_str_bytes [simp]: "bytes_str (str_bytes cs) = cs"
  by (induction cs) (simp_all add: unat_of_char)

lemma str_bytes_bytes_str [simp]: "str_bytes (bytes_str bs) = bs"
proof (induction bs)
  case (Cons b bs)
  have "of_char (char_of (unat b) :: char) = (of_nat (of_char (char_of (unat b) :: char)) :: u8)"
    by (simp flip: unat_of_char)
  also have "\<dots> = b" using unat_bound_u8 [of b] by simp
  finally show ?case using Cons by simp
qed simp

lemma bytes_str_inject [simp]: "bytes_str xs = bytes_str ys \<longleftrightarrow> xs = ys"
  by (metis str_bytes_bytes_str)

lemma length_bytes_str [simp]: "length (bytes_str bs) = length bs"
  by (simp add: bytes_str_def)

lemma length_str_bytes [simp]: "length (str_bytes cs) = length cs"
  by (simp add: str_bytes_def)

end
