(* ===== verification/Machine.thy ===== *)
theory Machine
  imports Prelude
begin

text \<open>
  The machine the kernel runs on, as the kernel sees it. Main memory is a partial function from
  addresses to bytes. Everything else (the memory-mapped devices and the system registers of
  the processor) is hardware, not code of the repository: it is a parameter, a state of an
  arbitrary type with the operations the kernel can perform on it, collected in the record
  \<open>bus\<close>. A register program (a list of \<open>regop\<close>) describes what a driver function asks of the
  hardware; \<open>effect\<close> runs it. Driver functions are proved equal to register programs for every
  hardware, without assumptions on what the registers do.
\<close>

section \<open>System registers, barriers and the bus\<close>

text \<open>
  The system registers and barrier instructions named in the assembly of the sources. The stack pointer, which only the boot code
  sets, is one of them.
\<close>

datatype sysreg =
    DAIF | DAIFSet | DAIFClr | SP | CPACR_EL1 | VBAR_EL1 | MAIR_EL1 | TCR_EL1 | SCTLR_EL1 | TTBR0_EL1
  | ICC_PMR_EL1 | ICC_IGRPEN1_EL1 | ICC_IAR1_EL1 | ICC_EOIR1_EL1
  | CNTFRQ_EL0 | CNTPCT_EL0 | CNTP_TVAL_EL0 | CNTP_CVAL_EL0 | CNTP_CTL_EL0

datatype barrier = DSB_SY | DSB_NSH | ISB_SY | TLBI_VMALLE1

record 'h bus =
  bus_read32 :: "u64 \<Rightarrow> 'h \<Rightarrow> u32 \<times> 'h"
  bus_write32 :: "u64 \<Rightarrow> u32 \<Rightarrow> 'h \<Rightarrow> 'h"
  bus_write64 :: "u64 \<Rightarrow> u64 \<Rightarrow> 'h \<Rightarrow> 'h"
  cpu_mrs :: "sysreg \<Rightarrow> 'h \<Rightarrow> u64 \<times> 'h"
  cpu_msr :: "sysreg \<Rightarrow> u64 \<Rightarrow> 'h \<Rightarrow> 'h"
  cpu_barrier :: "barrier \<Rightarrow> 'h \<Rightarrow> 'h"

text \<open>
  The machine state. \<open>spin\<close> is the number of polls granted to each busy-wait loop; a loop that
  needs more ends in \<open>Hang\<close>. The component theories extend this record with their statics.
\<close>

record 'h machine =
  bus :: "'h bus"
  hw :: 'h
  ram :: "u64 \<Rightarrow> u8 option"
  spin :: nat

section \<open>Primitive operations\<close>

definition mrs :: "sysreg \<Rightarrow> (('h, 'm) machine_scheme, u64) M" where
  "mrs r = (\<lambda>s. case cpu_mrs (bus s) r (hw s) of (v, h) \<Rightarrow> (Inr v, s\<lparr>hw := h\<rparr>))"

definition msr :: "sysreg \<Rightarrow> u64 \<Rightarrow> (('h, 'm) machine_scheme, unit) M" where
  "msr r v = modify_M (\<lambda>s. s\<lparr>hw := cpu_msr (bus s) r v (hw s)\<rparr>)"

definition barrier :: "barrier \<Rightarrow> (('h, 'm) machine_scheme, unit) M" where
  "barrier f = modify_M (\<lambda>s. s\<lparr>hw := cpu_barrier (bus s) f (hw s)\<rparr>)"

definition load_u8 :: "u64 \<Rightarrow> (('h, 'm) machine_scheme, u8) M" where
  "load_u8 p = (\<lambda>s. case ram s p of None \<Rightarrow> (Inl (Data_Abort p), s) | Some b \<Rightarrow> (Inr b, s))"

definition store_u8 :: "u64 \<Rightarrow> u8 \<Rightarrow> (('h, 'm) machine_scheme, unit) M" where
  "store_u8 p b =
     (\<lambda>s. case ram s p of None \<Rightarrow> (Inl (Data_Abort p), s)
                        | Some _ \<Rightarrow> (Inr (), s\<lparr>ram := (ram s)(p \<mapsto> b)\<rparr>))"

primrec load_bytes :: "nat \<Rightarrow> u64 \<Rightarrow> (('h, 'm) machine_scheme, u8 list) M" where
  "load_bytes 0 p = return_M []"
| "load_bytes (Suc n) p =
     bind_M (load_u8 p) (\<lambda>b. bind_M (load_bytes n (p + 1)) (\<lambda>bs. return_M (b # bs)))"

primrec store_bytes :: "u8 list \<Rightarrow> u64 \<Rightarrow> (('h, 'm) machine_scheme, unit) M" where
  "store_bytes [] p = return_M ()"
| "store_bytes (b # bs) p = seq_M (store_u8 p b) (store_bytes bs (p + 1))"

text \<open>A volatile read in a busy-wait loop, granted \<open>n\<close> polls.\<close>

primrec poll_M :: "nat \<Rightarrow> ('s, bool) M \<Rightarrow> ('s, unit) M" where
  "poll_M 0 busy = fail_M Hang"
| "poll_M (Suc n) busy = bind_M busy (\<lambda>b. if b then poll_M n busy else return_M ())"

definition while_M :: "(('h, 'm) machine_scheme, bool) M \<Rightarrow> (('h, 'm) machine_scheme, unit) M" where
  "while_M busy = (\<lambda>s. poll_M (spin s) busy s)"

section \<open>Register programs\<close>

datatype regop =
    Read32 u64
  | Write32 u64 u32
  | Write64 u64 u64
  | Modify32 u64 "u32 \<Rightarrow> u32"
  | Mrs sysreg
  | Msr sysreg u64
  | ModifySys sysreg "u64 \<Rightarrow> u64"
  | Fence barrier

fun regop_step :: "'h bus \<Rightarrow> regop \<Rightarrow> 'h \<Rightarrow> 'h" where
  "regop_step b (Read32 a) h = snd (bus_read32 b a h)"
| "regop_step b (Write32 a v) h = bus_write32 b a v h"
| "regop_step b (Write64 a v) h = bus_write64 b a v h"
| "regop_step b (Modify32 a f) h = (case bus_read32 b a h of (v, h') \<Rightarrow> bus_write32 b a (f v) h')"
| "regop_step b (Mrs r) h = snd (cpu_mrs b r h)"
| "regop_step b (Msr r v) h = cpu_msr b r v h"
| "regop_step b (ModifySys r f) h = (case cpu_mrs b r h of (v, h') \<Rightarrow> cpu_msr b r (f v) h')"
| "regop_step b (Fence f) h = cpu_barrier b f h"

definition run_regops :: "'h bus \<Rightarrow> regop list \<Rightarrow> 'h \<Rightarrow> 'h" where
  "run_regops b ops h = fold (regop_step b) ops h"

definition effect :: "regop list \<Rightarrow> ('h, 'm) machine_scheme \<Rightarrow> ('h, 'm) machine_scheme" where
  "effect ops s = s\<lparr>hw := run_regops (bus s) ops (hw s)\<rparr>"

text \<open>The value a register would return if it were read now.\<close>

definition peek32 :: "('h, 'm) machine_scheme \<Rightarrow> u64 \<Rightarrow> u32" where
  "peek32 s a = fst (bus_read32 (bus s) a (hw s))"

definition peek_sys :: "('h, 'm) machine_scheme \<Rightarrow> sysreg \<Rightarrow> u64" where
  "peek_sys s r = fst (cpu_mrs (bus s) r (hw s))"

lemma effect_Nil [simp]: "effect [] s = s"
  by (simp add: effect_def run_regops_def)

lemma effect_effect [simp]: "effect ops' (effect ops s) = effect (ops @ ops') s"
  by (simp add: effect_def run_regops_def)

lemma effect_fields [simp]:
  "bus (effect ops s) = bus s" "ram (effect ops s) = ram s" "spin (effect ops s) = spin s"
  "machine.more (effect ops s) = machine.more s"
  by (simp_all add: effect_def)

lemma hw_effect: "hw (effect ops s) = run_regops (bus s) ops (hw s)"
  by (simp add: effect_def)

lemma mrs_effect: "mrs r s = (Inr (peek_sys s r), effect [Mrs r] s)"
  by (simp add: mrs_def peek_sys_def effect_def run_regops_def split: prod.splits)

lemma msr_effect: "msr r v s = (Inr (), effect [Msr r v] s)"
  by (simp add: msr_def effect_def run_regops_def)

lemma barrier_effect: "barrier f s = (Inr (), effect [Fence f] s)"
  by (simp add: barrier_def effect_def run_regops_def)

lemma effect_modify_sys:
  "effect [Msr r (f (peek_sys s r))] (effect [Mrs r] s) = effect [ModifySys r f] s"
  by (simp add: effect_def run_regops_def peek_sys_def split: prod.splits)

section \<open>Memory contents\<close>

text \<open>\<open>holds_bytes m p bs\<close>: the bytes \<open>bs\<close> are in memory from address \<open>p\<close> on.\<close>

primrec holds_bytes :: "(u64 \<Rightarrow> u8 option) \<Rightarrow> u64 \<Rightarrow> u8 list \<Rightarrow> bool" where
  "holds_bytes m p [] = True"
| "holds_bytes m p (b # bs) = (m p = Some b \<and> holds_bytes m (p + 1) bs)"

lemma load_u8_ok [simp]: "ram s p = Some b \<Longrightarrow> load_u8 p s = (Inr b, s)"
  by (simp add: load_u8_def)

lemma load_bytes_holds: "holds_bytes (ram s) p bs \<Longrightarrow> load_bytes (length bs) p s = (Inr bs, s)"
  by (induction bs arbitrary: p) simp_all

lemma holds_bytes_append:
  "holds_bytes m p (xs @ ys) \<longleftrightarrow> holds_bytes m p xs \<and> holds_bytes m (p + of_nat (length xs)) ys"
  by (induction xs arbitrary: p) (auto simp: algebra_simps)

lemma holds_bytes_nth:
  "holds_bytes m p bs \<longleftrightarrow> (\<forall>i<length bs. m (p + of_nat i) = Some (bs ! i))"
proof (induction bs arbitrary: p)
  case (Cons b bs)
  have "(\<forall>i<length (b # bs). m (p + of_nat i) = Some ((b # bs) ! i)) \<longleftrightarrow>
      m p = Some b \<and> (\<forall>i<length bs. m (p + 1 + of_nat i) = Some (bs ! i))"
    by (simp add: all_less_Suc_split add.assoc)
  then show ?case by (simp add: Cons.IH)
qed simp

text \<open>A memory that holds a list of bytes from a base address on and nothing else.\<close>

definition mem_at :: "u64 \<Rightarrow> u8 list \<Rightarrow> u64 \<Rightarrow> u8 option" where
  "mem_at base bs a = (if unat (a - base) < length bs then Some (bs ! unat (a - base)) else None)"

lemma holds_bytes_mem_at: "length bs \<le> 2 ^ 64 \<Longrightarrow> holds_bytes (mem_at base bs) base bs"
  by (simp add: holds_bytes_nth mem_at_def unat_of_nat)

section \<open>Busy-wait loops\<close>

text \<open>
  A busy-wait loop that sees the awaited value on poll number \<open>k\<close> ends with any grant larger
  than \<open>k\<close>, in the state that poll leaves; if every granted poll finds the device busy, it hangs.
\<close>

primrec busy_after :: "nat \<Rightarrow> ('s, bool) M \<Rightarrow> 's \<Rightarrow> 's \<Rightarrow> bool" where
  "busy_after 0 busy s t = (busy s = (Inr False, t))"
| "busy_after (Suc k) busy s t = (\<exists>u. busy s = (Inr True, u) \<and> busy_after k busy u t)"

lemma poll_M_ends:
  "busy_after k busy s t \<Longrightarrow> k < n \<Longrightarrow> poll_M n busy s = (Inr (), t)"
proof (induction k arbitrary: n s)
  case 0
  then show ?case by (cases n) simp_all
next
  case (Suc k)
  then obtain u m where "busy s = (Inr True, u)" "busy_after k busy u t" "n = Suc m" "k < m"
    by (cases n) auto
  with Suc.IH show ?case by simp
qed

lemma poll_M_Inr_busy_after:
  "poll_M n busy s = (Inr x, t) \<Longrightarrow> \<exists>k<n. busy_after k busy s t"
proof (induction n arbitrary: s)
  case 0
  then show ?case by simp
next
  case (Suc n)
  then obtain b u where b: "busy s = (Inr b, u)" and *: "(if b then poll_M n busy else return_M ()) u = (Inr x, t)"
    by (auto elim: bind_M_Inr_E)
  show ?case
  proof (cases b)
    case True
    with * Suc.IH obtain k where "k < n" "busy_after k busy u t" by fastforce
    with b True show ?thesis by (intro exI [of _ "Suc k"]) simp
  next
    case False
    with * b show ?thesis by (intro exI [of _ 0]) simp
  qed
qed

lemma while_M_ends:
  "busy_after k busy s t \<Longrightarrow> k < spin s \<Longrightarrow> while_M busy s = (Inr (), t)"
  by (simp add: while_M_def poll_M_ends)

text \<open>
  A register bit that clears: reading the register at \<open>a\<close>, starting with hardware in state \<open>h\<close>, shows a bit of \<open>m\<close> for
  the first \<open>k\<close> times and none at the next. A loop that polls those bits then makes exactly \<open>k + 1\<close> reads.
\<close>

primrec clears_after :: "'h bus \<Rightarrow> u64 \<Rightarrow> u32 \<Rightarrow> nat \<Rightarrow> 'h \<Rightarrow> bool" where
  "clears_after b a m 0 h \<longleftrightarrow> fst (bus_read32 b a h) AND m = 0"
| "clears_after b a m (Suc k) h \<longleftrightarrow> fst (bus_read32 b a h) AND m \<noteq> 0 \<and> clears_after b a m k (snd (bus_read32 b a h))"

lemma clears_after_busy:
  assumes busy: "\<And>s. busy s = (Inr (peek32 s a AND m \<noteq> 0), effect [Read32 a] s)"
    and "clears_after (bus s) a m k (hw s)"
  shows "busy_after k busy s (effect (replicate (Suc k) (Read32 a)) s)"
  using assms(2)
proof (induction k arbitrary: s)
  case 0
  then show ?case by (simp add: busy peek32_def)
next
  case (Suc k)
  have "busy_after k busy (effect [Read32 a] s) (effect (replicate (Suc k) (Read32 a)) (effect [Read32 a] s))"
    using Suc.prems by (intro Suc.IH) (simp add: hw_effect run_regops_def)
  with Suc.prems busy [of s] show ?case by (simp add: peek32_def)
qed

text \<open>If the bits do not clear within the polls granted, the loop has made all of them when it is cut off.\<close>

lemma never_clears_poll:
  assumes busy: "\<And>s. busy s = (Inr (peek32 s a AND m \<noteq> 0), effect [Read32 a] s)"
    and "\<forall>k<n. \<not> clears_after (bus s) a m k (hw s)"
  shows "poll_M n busy s = (Inl Hang, effect (replicate n (Read32 a)) s)"
  using assms(2)
proof (induction n arbitrary: s)
  case (Suc n)
  have "peek32 s a AND m \<noteq> 0" using Suc.prems by (auto simp: peek32_def)
  moreover have "\<forall>k<n. \<not> clears_after (bus s) a m k (hw (effect [Read32 a] s))"
    using Suc.prems calculation by (fastforce simp: hw_effect run_regops_def peek32_def)
  ultimately show ?case using Suc.IH [of "effect [Read32 a] s"] busy [of s] by simp
qed simp

section \<open>Hardware whose registers store what is written\<close>

text \<open>
  The documented behaviour of a plain read/write register: a read returns the value last
  written to it and changes nothing; writes to other registers and barriers leave it alone.
  \<open>stores_at b peek A\<close> says this of the registers at the addresses \<open>A\<close>; it is a hypothesis of
  the theorems that depend on it.
\<close>

definition stores_at :: "'h bus \<Rightarrow> ('h \<Rightarrow> u64 \<Rightarrow> u32) \<Rightarrow> u64 set \<Rightarrow> bool" where
  "stores_at b peek A \<longleftrightarrow>
     (\<forall>h. \<forall>a\<in>A. bus_read32 b a h = (peek h a, h)) \<and>
     (\<forall>h v a a'. a' \<in> A \<longrightarrow> peek (bus_write32 b a v h) a' = (if a' = a then v else peek h a')) \<and>
     (\<forall>h f. \<forall>a\<in>A. peek (cpu_barrier b f h) a = peek h a)"

text \<open>A concrete hardware of this kind, on which the witnesses are evaluated.\<close>

record store_hw =
  sh_reg :: "u64 \<Rightarrow> u32"
  sh_sys :: "sysreg \<Rightarrow> u64"

definition store_bus :: "store_hw bus" where
  "store_bus =
     \<lparr>bus_read32 = (\<lambda>a h. (sh_reg h a, h)),
      bus_write32 = (\<lambda>a v h. h\<lparr>sh_reg := (sh_reg h)(a := v)\<rparr>),
      bus_write64 = (\<lambda>a v h. h\<lparr>sh_reg := (sh_reg h)(a := ucast v, a + 4 := ucast (drop_bit 32 v))\<rparr>),
      cpu_mrs = (\<lambda>r h. (sh_sys h r, h)),
      cpu_msr = (\<lambda>r v h. h\<lparr>sh_sys := (sh_sys h)(r := v)\<rparr>),
      cpu_barrier = (\<lambda>f h. h)\<rparr>"

definition store_hw0 :: store_hw where
  "store_hw0 = \<lparr>sh_reg = (\<lambda>_. 0), sh_sys = (\<lambda>_. 0)\<rparr>"

lemma stores_at_store_bus: "stores_at store_bus sh_reg A"
  by (simp add: stores_at_def store_bus_def)

section \<open>What the primitives leave alone\<close>

text \<open>A part of the state that no access to the hardware changes.\<close>

definition off_hw :: "(('h, 'm) machine_scheme \<Rightarrow> 'x) \<Rightarrow> bool" where
  "off_hw f \<longleftrightarrow> (\<forall>s h. f (s\<lparr>hw := h\<rparr>) = f s)"

lemma keeps_hw [keeps_rules]:
  "off_hw f \<Longrightarrow> keeps f (mrs r)" "off_hw f \<Longrightarrow> keeps f (msr r v)" "off_hw f \<Longrightarrow> keeps f (barrier b)"
  by (auto simp: keeps_def off_hw_def mrs_def msr_def barrier_def split: prod.splits)

lemma keeps_load [keeps_rules]: "keeps f (load_u8 p)" "keeps f (load_bytes n p)"
proof -
  show u8: "keeps f (load_u8 p)" for p by (simp add: keeps_def load_u8_def split: option.splits)
  show "keeps f (load_bytes n p)"
    by (induction n arbitrary: p) (simp_all add: u8 keeps_basic keeps_bind)
qed

lemma ends_load [ends_rules]: "ends (load_u8 p)" "ends (load_bytes n p)"
proof -
  show u8: "ends (load_u8 p)" for p by (simp add: ends_def load_u8_def split: option.splits)
  show "ends (load_bytes n p)"
    by (induction n arbitrary: p) (simp_all add: u8 ends_basic ends_bind)
qed

lemma keeps_while [keeps_rules]: "keeps f busy \<Longrightarrow> keeps f (while_M busy)"
proof -
  assume busy: "keeps f busy"
  have "keeps f (poll_M n busy)" for n
    by (induction n) (simp_all only: poll_M.simps, (intro keeps_rules busy; assumption)+)
  then show ?thesis by (simp add: keeps_def while_M_def)
qed

lemma effect_off_hw: "off_hw f \<Longrightarrow> f (effect ops s) = f s"
  by (simp add: off_hw_def effect_def)

end
