(* ===== verification/Utilities.thy ===== *)
theory Utilities
  imports Machine
begin

text \<open>
  \<^verbatim>\<open>src/utilities/convert.rs\<close> and \<^verbatim>\<open>src/utilities/mmio.rs\<close>: endianness conversions on raw memory and
  volatile register accesses. The target is little-endian, so \<open>from_be\<close> swaps bytes and
  \<open>from_le\<close> is the identity.
\<close>

section \<open>Words as bytes\<close>

primrec le_word :: "u8 list \<Rightarrow> 'a::len word" where
  "le_word [] = 0"
| "le_word (b # bs) = ucast b OR push_bit 8 (le_word bs)"

definition to_le_bytes :: "'a::len word \<Rightarrow> u8 list" where
  "to_le_bytes w = map (\<lambda>i. ucast (drop_bit (8 * i) w)) [0..<LENGTH('a) div 8]"

definition swap_bytes :: "'a::len word \<Rightarrow> 'a word" where
  "swap_bytes w = le_word (rev (to_le_bytes w))"

definition from_be :: "'a::len word \<Rightarrow> 'a word" where
  "from_be w = swap_bytes w"

definition from_le :: "'a::len word \<Rightarrow> 'a word" where
  "from_le w = w"

text \<open>The big-endian reading and writing of a word, as the device tree format defines it.\<close>

definition be_word :: "u8 list \<Rightarrow> 'a::len word" where
  "be_word bs = le_word (rev bs)"

definition to_be_bytes :: "'a::len word \<Rightarrow> u8 list" where
  "to_be_bytes w = rev (to_le_bytes w)"

section \<open>convert.rs\<close>

definition read_be_u16 :: "u64 \<Rightarrow> usize \<Rightarrow> (('h, 'm) machine_scheme, u16) M" where
  "read_be_u16 ptr offset = bind_M (load_bytes 2 (ptr + offset)) (\<lambda>bs. return_M (from_be (le_word bs)))"

definition read_be_u32 :: "u64 \<Rightarrow> usize \<Rightarrow> (('h, 'm) machine_scheme, u32) M" where
  "read_be_u32 ptr offset = bind_M (load_bytes 4 (ptr + offset)) (\<lambda>bs. return_M (from_be (le_word bs)))"

definition read_be_u64 :: "u64 \<Rightarrow> usize \<Rightarrow> (('h, 'm) machine_scheme, u64) M" where
  "read_be_u64 ptr offset = bind_M (load_bytes 8 (ptr + offset)) (\<lambda>bs. return_M (from_be (le_word bs)))"

definition read_le_u16 :: "u64 \<Rightarrow> usize \<Rightarrow> (('h, 'm) machine_scheme, u16) M" where
  "read_le_u16 ptr offset = bind_M (load_bytes 2 (ptr + offset)) (\<lambda>bs. return_M (from_le (le_word bs)))"

definition read_le_u32 :: "u64 \<Rightarrow> usize \<Rightarrow> (('h, 'm) machine_scheme, u32) M" where
  "read_le_u32 ptr offset = bind_M (load_bytes 4 (ptr + offset)) (\<lambda>bs. return_M (from_le (le_word bs)))"

definition read_le_u64 :: "u64 \<Rightarrow> usize \<Rightarrow> (('h, 'm) machine_scheme, u64) M" where
  "read_le_u64 ptr offset = bind_M (load_bytes 8 (ptr + offset)) (\<lambda>bs. return_M (from_le (le_word bs)))"

section \<open>mmio.rs\<close>

definition read_mmio32 :: "usize \<Rightarrow> usize \<Rightarrow> (('h, 'm) machine_scheme, u32) M" where
  "read_mmio32 base offset =
     (\<lambda>s. case bus_read32 (bus s) (base + offset) (hw s) of (v, h) \<Rightarrow> (Inr v, s\<lparr>hw := h\<rparr>))"

definition write_mmio32 :: "usize \<Rightarrow> usize \<Rightarrow> u32 \<Rightarrow> (('h, 'm) machine_scheme, unit) M" where
  "write_mmio32 base offset v =
     modify_M (\<lambda>s. s\<lparr>hw := bus_write32 (bus s) (base + offset) v (hw s)\<rparr>)"

definition set_mmio_bits32 :: "usize \<Rightarrow> usize \<Rightarrow> u32 \<Rightarrow> (('h, 'm) machine_scheme, unit) M" where
  "set_mmio_bits32 base offset bits =
     bind_M (read_mmio32 base offset) (\<lambda>current_val. write_mmio32 base offset (current_val OR bits))"

definition clear_mmio_bits32 :: "usize \<Rightarrow> usize \<Rightarrow> u32 \<Rightarrow> (('h, 'm) machine_scheme, unit) M" where
  "clear_mmio_bits32 base offset bits =
     bind_M (read_mmio32 base offset) (\<lambda>current_val. write_mmio32 base offset (current_val AND NOT bits))"

text \<open>A volatile 64-bit store, used for the interrupt routing registers.\<close>

definition write_mmio64 :: "usize \<Rightarrow> u64 \<Rightarrow> (('h, 'm) machine_scheme, unit) M" where
  "write_mmio64 addr v = modify_M (\<lambda>s. s\<lparr>hw := bus_write64 (bus s) addr v (hw s)\<rparr>)"

lemma read_mmio32_effect: "read_mmio32 b off s = (Inr (peek32 s (b + off)), effect [Read32 (b + off)] s)"
  by (simp add: read_mmio32_def peek32_def effect_def run_regops_def split: prod.splits)

lemma write_mmio32_effect: "write_mmio32 b off v s = (Inr (), effect [Write32 (b + off) v] s)"
  by (simp add: write_mmio32_def effect_def run_regops_def)

lemma write_mmio64_effect: "write_mmio64 a v s = (Inr (), effect [Write64 a v] s)"
  by (simp add: write_mmio64_def effect_def run_regops_def)

lemma effect_modify32:
  "effect [Write32 a (f (peek32 s a))] (effect [Read32 a] s) = effect [Modify32 a f] s"
  by (simp add: effect_def run_regops_def peek32_def split: prod.splits)

lemma set_mmio_bits32_effect:
  "set_mmio_bits32 b off bits s = (Inr (), effect [Modify32 (b + off) (\<lambda>v. v OR bits)] s)"
  by (simp add: set_mmio_bits32_def read_mmio32_effect write_mmio32_effect
      effect_modify32 [symmetric, of _ "\<lambda>v. v OR bits"])

lemma clear_mmio_bits32_effect:
  "clear_mmio_bits32 b off bits s = (Inr (), effect [Modify32 (b + off) (\<lambda>v. v AND NOT bits)] s)"
  by (simp add: clear_mmio_bits32_def read_mmio32_effect write_mmio32_effect
      effect_modify32 [symmetric, of _ "\<lambda>v. v AND NOT bits"])

lemmas mmio_effects = read_mmio32_effect write_mmio32_effect write_mmio64_effect
  set_mmio_bits32_effect clear_mmio_bits32_effect mrs_effect msr_effect barrier_effect

lemma keeps_readers [keeps_rules]:
  "keeps f (read_be_u16 p off)" "keeps f (read_be_u32 p off)" "keeps f (read_be_u64 p off)"
  "keeps f (read_le_u16 p off)" "keeps f (read_le_u32 p off)" "keeps f (read_le_u64 p off)"
  unfolding read_be_u16_def read_be_u32_def read_be_u64_def read_le_u16_def read_le_u32_def read_le_u64_def
  by (intro keeps_rules)+

lemma keeps_mmio [keeps_rules]:
  assumes "off_hw f"
  shows "keeps f (read_mmio32 b off)" "keeps f (write_mmio32 b off v)" "keeps f (write_mmio64 a w)"
    "keeps f (set_mmio_bits32 b off v)" "keeps f (clear_mmio_bits32 b off v)"
  using assms by (simp_all add: keeps_def mmio_effects effect_off_hw)

section \<open>The byte codecs\<close>

lemma bit_le_word_iff:
  "bit (le_word bs :: 'a::len word) i \<longleftrightarrow>
     i < LENGTH('a) \<and> i div 8 < length bs \<and> bit (bs ! (i div 8)) (i mod 8)"
proof (induction bs arbitrary: i)
  case Nil
  then show ?case by simp
next
  case (Cons b bs)
  show ?case
  proof (cases "i < 8")
    case True
    then show ?thesis by (simp add: bit_or_iff bit_push_bit_iff bit_ucast_iff)
  next
    case False
    then have *: "i div 8 = Suc ((i - 8) div 8)" "(i - 8) mod 8 = i mod 8"
      by (simp_all add: le_div_geq le_mod_geq not_less)
    have "\<not> bit b i" using False by (auto dest: bit_imp_le_length)
    with False show ?thesis
      unfolding le_word.simps bit_or_iff bit_push_bit_iff bit_ucast_iff Cons.IH *
      by auto
  qed
qed

lemma length_to_le_bytes [simp]: "length (to_le_bytes (w :: 'a::len word)) = LENGTH('a) div 8"
  by (simp add: to_le_bytes_def)

lemma nth_to_le_bytes:
  "i < LENGTH('a) div 8 \<Longrightarrow> to_le_bytes (w :: 'a::len word) ! i = ucast (drop_bit (8 * i) w)"
  by (simp add: to_le_bytes_def)

lemma bit_nth_to_le_bytes:
  assumes "i < LENGTH('a) div 8" and "n < 8"
  shows "bit (to_le_bytes (w :: 'a::len word) ! i) n = bit w (8 * i + n)"
  using assms by (simp add: nth_to_le_bytes bit_ucast_iff bit_drop_bit_eq)

lemma le_word_to_le_bytes:
  assumes "LENGTH('a) mod 8 = 0"
  shows "le_word (to_le_bytes (w :: 'a::len word)) = w"
proof (rule bit_word_eqI)
  fix n assume n: "n < LENGTH('a)"
  have "LENGTH('a) = LENGTH('a) div 8 * 8" using assms by (metis div_mult_mod_eq add.right_neutral)
  with n have "n div 8 < LENGTH('a) div 8" by (metis less_mult_imp_div_less)
  then show "bit (le_word (to_le_bytes w) :: 'a word) n = bit w n"
    using n by (simp add: bit_le_word_iff bit_nth_to_le_bytes)
qed

lemma to_le_bytes_le_word:
  assumes "length bs = LENGTH('a) div 8"
  shows "to_le_bytes (le_word bs :: 'a::len word) = bs"
proof (rule nth_equalityI)
  show "length (to_le_bytes (le_word bs :: 'a word)) = length bs" using assms by simp
next
  fix i assume "i < length (to_le_bytes (le_word bs :: 'a word))"
  then have i: "i < LENGTH('a) div 8" by simp
  show "to_le_bytes (le_word bs :: 'a word) ! i = bs ! i"
  proof (rule bit_word_eqI)
    fix n assume "n < LENGTH(8)"
    then have n: "n < 8" by simp
    then have dm: "(8 * i + n) div 8 = i" "(8 * i + n) mod 8 = n" by simp_all
    have "8 * (LENGTH('a) div 8) \<le> LENGTH('a)" by simp
    with i n have "8 * i + n < LENGTH('a)" by linarith
    then show "bit (to_le_bytes (le_word bs :: 'a word) ! i) n = bit (bs ! i) n"
      using i assms unfolding bit_nth_to_le_bytes [OF i n] bit_le_word_iff dm by simp
  qed
qed


lemma unat_le_word_Cons:
  assumes "8 * Suc (length bs) \<le> LENGTH('a)"
  shows "unat (le_word (b # bs) :: 'a::len word) = unat b + 256 * unat (le_word bs :: 'a word)"
    and "unat (le_word bs :: 'a word) < 2 ^ (8 * length bs)"
proof -
  have lt: "unat (le_word bs :: 'a word) < 2 ^ (8 * length bs)"
  proof -
    have "le_word bs = take_bit (8 * length bs) (le_word bs :: 'a word)"
      by (rule bit_word_eqI) (auto simp: bit_take_bit_iff bit_le_word_iff less_mult_imp_div_less mult.commute
          dest: div_less_iff_less_mult [THEN iffD1, rotated])
    then have "unat (le_word bs :: 'a word) = take_bit (8 * length bs) (unat (le_word bs :: 'a word))"
      by (metis unsigned_take_bit_eq)
    then show ?thesis by (metis take_bit_nat_less_exp)
  qed
  have "ucast b AND push_bit 8 (le_word bs :: 'a word) = 0"
    by (rule bit_word_eqI) (auto simp: bit_and_iff bit_push_bit_iff bit_ucast_iff dest: bit_imp_le_length)
  then have "le_word (b # bs) = (ucast b :: 'a word) + push_bit 8 (le_word bs)"
    by (simp add: disjunctive_add_eq_or)
  also have "\<dots> = ucast b + 256 * le_word bs" by (simp add: push_bit_eq_mult)
  finally have eq: "(le_word (b # bs) :: 'a word) = of_nat (unat b + 256 * unat (le_word bs :: 'a word))"
    by simp
  have "unat b < 256" by (rule unat_bound_u8)
  then have "unat b + 256 * unat (le_word bs :: 'a word) < 256 * 2 ^ (8 * length bs)"
    using lt by linarith
  also have "\<dots> = 2 ^ (8 * Suc (length bs))" by (simp add: power_add)
  also have "\<dots> \<le> 2 ^ LENGTH('a)" using assms by (intro power_increasing) simp_all
  finally show "unat (le_word (b # bs) :: 'a word) = unat b + 256 * unat (le_word bs :: 'a word)"
    unfolding eq unat_of_nat by (rule mod_less)
  show "unat (le_word bs :: 'a word) < 2 ^ (8 * length bs)" by (fact lt)
qed
text \<open>
  A codec of fixed width: what a reader of raw memory relies on. The reader built from the
  decoder returns the value whose encoding is in memory, and changes nothing.
\<close>

locale byte_codec =
  fixes enc :: "'v \<Rightarrow> u8 list" and dec :: "u8 list \<Rightarrow> 'v" and n :: nat
  assumes length_enc: "length (enc v) = n"
    and dec_enc: "dec (enc v) = v"
    and enc_dec: "length bs = n \<Longrightarrow> enc (dec bs) = bs"
begin

lemma reader: "holds_bytes (ram s) p (enc v) \<Longrightarrow>
    bind_M (load_bytes n p) (\<lambda>bs. return_M (dec bs)) s = (Inr v, s)"
  using load_bytes_holds [of s p "enc v"] by (simp add: length_enc dec_enc)

lemma enc_inject: "enc v = enc w \<longleftrightarrow> v = w"
  by (metis dec_enc)

lemma dec_inject: "length xs = n \<Longrightarrow> length ys = n \<Longrightarrow> dec xs = dec ys \<longleftrightarrow> xs = ys"
  by (metis enc_dec)

end

interpretation le16: byte_codec "to_le_bytes :: u16 \<Rightarrow> u8 list" le_word 2
  by unfold_locales (simp_all add: le_word_to_le_bytes to_le_bytes_le_word)

interpretation le32: byte_codec "to_le_bytes :: u32 \<Rightarrow> u8 list" le_word 4
  by unfold_locales (simp_all add: le_word_to_le_bytes to_le_bytes_le_word)

interpretation le64: byte_codec "to_le_bytes :: u64 \<Rightarrow> u8 list" le_word 8
  by unfold_locales (simp_all add: le_word_to_le_bytes to_le_bytes_le_word)

interpretation be16: byte_codec "to_be_bytes :: u16 \<Rightarrow> u8 list" be_word 2
  by unfold_locales (simp_all add: to_be_bytes_def be_word_def le_word_to_le_bytes to_le_bytes_le_word)

interpretation be32: byte_codec "to_be_bytes :: u32 \<Rightarrow> u8 list" be_word 4
  by unfold_locales (simp_all add: to_be_bytes_def be_word_def le_word_to_le_bytes to_le_bytes_le_word)

interpretation be64: byte_codec "to_be_bytes :: u64 \<Rightarrow> u8 list" be_word 8
  by unfold_locales (simp_all add: to_be_bytes_def be_word_def le_word_to_le_bytes to_le_bytes_le_word)

text \<open>Loading little-endian and swapping is the big-endian reading.\<close>

lemma length_load_bytes: "load_bytes n p s = (Inr bs, t) \<Longrightarrow> length bs = n \<and> t = s"
proof (induction n arbitrary: p bs s t)
  case (Suc n)
  then show ?case
    by (auto elim!: bind_M_Inr_E simp: load_u8_def split: option.splits)
qed simp

lemma from_be_le_word:
  "length bs = LENGTH('a) div 8 \<Longrightarrow> from_be (le_word bs :: 'a::len word) = be_word bs"
  by (simp add: from_be_def swap_bytes_def be_word_def to_le_bytes_le_word)

lemma bind_load_bytes_cong:
  assumes "\<And>bs. length bs = n \<Longrightarrow> f bs = g bs"
  shows "bind_M (load_bytes n p) (\<lambda>bs. return_M (f bs)) = bind_M (load_bytes n p) (\<lambda>bs. return_M (g bs))"
  by (rule ext) (auto simp: bind_M_def assms dest: length_load_bytes split: prod.splits sum.splits)

lemma read_be_u16_eq: "read_be_u16 ptr off = bind_M (load_bytes 2 (ptr + off)) (\<lambda>bs. return_M (be_word bs))"
  unfolding read_be_u16_def by (rule bind_load_bytes_cong) (simp add: from_be_le_word)

lemma read_be_u32_eq: "read_be_u32 ptr off = bind_M (load_bytes 4 (ptr + off)) (\<lambda>bs. return_M (be_word bs))"
  unfolding read_be_u32_def by (rule bind_load_bytes_cong) (simp add: from_be_le_word)

lemma read_be_u64_eq: "read_be_u64 ptr off = bind_M (load_bytes 8 (ptr + off)) (\<lambda>bs. return_M (be_word bs))"
  unfolding read_be_u64_def by (rule bind_load_bytes_cong) (simp add: from_be_le_word)

lemma read_be_u32_holds:
  "holds_bytes (ram s) (ptr + off) (to_be_bytes v) \<Longrightarrow> read_be_u32 ptr off s = (Inr v, s)"
  unfolding read_be_u32_eq by (rule be32.reader)

lemma read_be_u32_state: "read_be_u32 ptr off s = (Inr v, t) \<Longrightarrow> t = s"
  unfolding read_be_u32_eq by (auto elim!: bind_M_Inr_E dest: length_load_bytes)

lemma read_le_u32_eq: "read_le_u32 ptr off = bind_M (load_bytes 4 (ptr + off)) (\<lambda>bs. return_M (le_word bs))"
  by (simp add: read_le_u32_def from_le_def)

lemma unat_be_word_4:
  "unat (be_word [b0, b1, b2, b3] :: u32) = ((unat b0 * 256 + unat b1) * 256 + unat b2) * 256 + unat b3"
  by (simp add: be_word_def unat_le_word_Cons del: le_word.simps) (simp add: unat_ucast_widen)

section \<open>Properties\<close>

text \<open>
  The value of a 32-bit read. On four mapped bytes \<open>b0\<close> to \<open>b3\<close>, \<open>read_be_u32\<close> returns the number with the
  base-256 digits \<open>b0 b1 b2 b3\<close> and \<open>read_le_u32\<close> the number with the digits reversed; memory and
  devices are unchanged. If the first byte is not mapped, the read faults at its address.
\<close>

lemma read_u32_value:
  assumes "holds_bytes (ram s) (ptr + off) [b0, b1, b2, b3]" and "ram s (ptr' + off') = None"
  shows "\<exists>be le. read_be_u32 ptr off s = (Inr be, s) \<and>
      unat be = ((unat b0 * 256 + unat b1) * 256 + unat b2) * 256 + unat b3 \<and>
      read_le_u32 ptr off s = (Inr le, s) \<and>
      unat le = ((unat b3 * 256 + unat b2) * 256 + unat b1) * 256 + unat b0 \<and>
      read_be_u32 ptr' off' s = (Inl (Data_Abort (ptr' + off')), s)"
proof (intro exI conjI)
  have load: "load_bytes 4 (ptr + off) s = (Inr [b0, b1, b2, b3], s)"
    using load_bytes_holds [OF assms(1)] by (simp add: numeral_eq_Suc)
  then show "read_be_u32 ptr off s = (Inr (be_word [b0, b1, b2, b3]), s)"
    and "read_le_u32 ptr off s = (Inr (be_word [b3, b2, b1, b0]), s)"
    by (simp_all add: read_be_u32_eq read_le_u32_eq be_word_def)
  show "read_be_u32 ptr' off' s = (Inl (Data_Abort (ptr' + off')), s)"
    using assms(2) by (simp add: read_be_u32_eq numeral_eq_Suc load_u8_def)
qed (rule unat_be_word_4)+

lemma read_u32_value_witness:
  "\<exists>be le. read_be_u32 0x1000 0 (\<lparr>bus = store_bus, hw = store_hw0, ram = mem_at 0x1000 [0xd0, 0x0d, 0xfe, 0xed], spin = 0\<rparr>)
      = (Inr be, \<lparr>bus = store_bus, hw = store_hw0, ram = mem_at 0x1000 [0xd0, 0x0d, 0xfe, 0xed], spin = 0\<rparr>) \<and>
    unat (be :: u32) = 0xd00dfeed \<and> unat (le :: u32) = 0xedfe0dd0"
  using read_u32_value [of "\<lparr>bus = store_bus, hw = store_hw0, ram = mem_at 0x1000 [0xd0, 0x0d, 0xfe, 0xed], spin = 0\<rparr>"
      "0x1000" 0 "0xd0" "0x0d" "0xfe" "0xed" 0 0]
  by (auto simp: mem_at_def)

text \<open>
  C31. Reading back what was encoded. Each of the six readers inverts the corresponding byte encoding: whatever
  value is laid out in memory, big-endian or little-endian, at 2, 4 or 8 bytes, is the value read.
\<close>

theorem readers_invert_encoding:
  "(holds_bytes (ram s) (ptr + off) (to_be_bytes a) \<longrightarrow> read_be_u16 ptr off s = (Inr a, s)) \<and>
   (holds_bytes (ram s) (ptr + off) (to_be_bytes b) \<longrightarrow> read_be_u32 ptr off s = (Inr b, s)) \<and>
   (holds_bytes (ram s) (ptr + off) (to_be_bytes c) \<longrightarrow> read_be_u64 ptr off s = (Inr c, s)) \<and>
   (holds_bytes (ram s) (ptr + off) (to_le_bytes a) \<longrightarrow> read_le_u16 ptr off s = (Inr a, s)) \<and>
   (holds_bytes (ram s) (ptr + off) (to_le_bytes b) \<longrightarrow> read_le_u32 ptr off s = (Inr b, s)) \<and>
   (holds_bytes (ram s) (ptr + off) (to_le_bytes c) \<longrightarrow> read_le_u64 ptr off s = (Inr c, s))"
  unfolding read_be_u16_eq read_be_u32_eq read_be_u64_eq read_le_u16_def read_le_u32_def read_le_u64_def from_le_def
  using be16.reader be32.reader be64.reader le16.reader le32.reader le64.reader by blast

theorem readers_invert_encoding_witness:
  "read_be_u64 0x1000 0 (\<lparr>bus = store_bus, hw = store_hw0, ram = mem_at 0x1000 (to_be_bytes (0x123456789abcdef0 :: u64)), spin = 0\<rparr>)
    = (Inr 0x123456789abcdef0,
       \<lparr>bus = store_bus, hw = store_hw0, ram = mem_at 0x1000 (to_be_bytes (0x123456789abcdef0 :: u64)), spin = 0\<rparr>)"
  using readers_invert_encoding [of "\<lparr>bus = store_bus, hw = store_hw0,
        ram = mem_at 0x1000 (to_be_bytes (0x123456789abcdef0 :: u64)), spin = 0\<rparr>" "0x1000" 0 0 0 "0x123456789abcdef0"]
    holds_bytes_mem_at [of "to_be_bytes (0x123456789abcdef0 :: u64)" "0x1000"]
  by (simp add: to_be_bytes_def)

end
