(* ===== verification/Device.thy ===== *)
theory Device
  imports Utilities
begin

text \<open>
  \<^verbatim>\<open>src/kernel/device.rs\<close> and the lookups of \<^verbatim>\<open>src/kernel/dtb.rs\<close>: properties, platform devices and the
  statics that hold them. A \<open>*const PlatformDevice\<close> always points at an entry of
  \<open>DEVICE_TABLE\<close> or is null, so it is the index of that entry or \<open>None\<close>; dereferencing reads the
  table at that moment. A property value stays a raw address into the blob. Names are byte
  strings (they are built with \<open>from_utf8_unchecked\<close>). Counters and indices of the tables are
  natural numbers: each is used as a checked array index before it is incremented, so it never
  comes near the width of \<open>usize\<close>.
\<close>

section \<open>Data\<close>

definition MAX_PROPS :: nat where "MAX_PROPS = 16"
definition MAX_DEVICES :: nat where "MAX_DEVICES = 256"
definition MAX_HANDLES :: nat where "MAX_HANDLES = 32"

record property =
  prop_name :: string
  prop_value :: u64
  prop_len :: usize

definition Property_new :: property where
  "Property_new = \<lparr>prop_name = '''', prop_value = 0, prop_len = 0\<rparr>"

definition Property_default :: property where
  "Property_default = Property_new"

record platform_device =
  dev_parent :: "nat option"
  dev_name :: string
  dev_properties :: "property list"
  prop_count :: nat

definition PlatformDevice_new :: platform_device where
  "PlatformDevice_new =
     \<lparr>dev_parent = None, dev_name = '''', dev_properties = replicate MAX_PROPS Property_new, prop_count = 0\<rparr>"

definition PlatformDevice_default :: platform_device where
  "PlatformDevice_default = PlatformDevice_new"

lemma Property_default_set [simp]:
  "Property_default\<lparr>prop_name := n, prop_len := l, prop_value := v\<rparr> = \<lparr>prop_name = n, prop_value = v, prop_len = l\<rparr>"
  by (simp add: Property_default_def Property_new_def)

lemma PlatformDevice_default_eq [simp]: "PlatformDevice_default = PlatformDevice_new"
  by (rule PlatformDevice_default_def)

text \<open>The statics of \<^verbatim>\<open>dtb.rs\<close>.\<close>

record 'h dt_machine = "'h machine" +
  DEVICE_COUNT :: nat
  DEVICE_TABLE :: "platform_device list"
  PHANDLE_COUNT :: nat
  PHANDLE_TABLE :: "(u32 \<times> nat) list"

definition DEVICE_TABLE_init :: "platform_device list" where
  "DEVICE_TABLE_init = replicate MAX_DEVICES PlatformDevice_new"

definition PHANDLE_TABLE_init :: "(u32 \<times> nat) list" where
  "PHANDLE_TABLE_init = replicate MAX_HANDLES (0, 0)"

section \<open>Operations of PlatformDevice\<close>

text \<open>\<open>for i in 0..prop_count\<close>, returning at the first property with that name.\<close>

primrec find_property_in :: "platform_device \<Rightarrow> string \<Rightarrow> nat list \<Rightarrow> ('s, property option) M" where
  "find_property_in dev name [] = return_M None"
| "find_property_in dev name (i # is) =
     bind_M (index_M (dev_properties dev) i) (\<lambda>p.
       if prop_name p = name then return_M (Some p) else find_property_in dev name is)"

definition find_property :: "platform_device \<Rightarrow> string \<Rightarrow> ('s, property option) M" where
  "find_property dev name = find_property_in dev name [0..<prop_count dev]"

text \<open>One iteration of the loop over the parent's properties.\<close>

definition parent_cells_step ::
    "platform_device \<Rightarrow> nat \<Rightarrow> u32 \<times> u32 \<Rightarrow> (('h, 'm) dt_machine_scheme, u32 \<times> u32) M" where
  "parent_cells_step parent i cells =
     (case cells of (addr_cells, size_cells) \<Rightarrow>
      bind_M (index_M (dev_properties parent) i) (\<lambda>prop.
        if prop_name prop = ''#address-cells''
        then bind_M (read_be_u32 (prop_value prop) 0) (\<lambda>v. return_M (v, size_cells))
        else if prop_name prop = ''#size-cells''
        then bind_M (read_be_u32 (prop_value prop) 0) (\<lambda>v. return_M (addr_cells, v))
        else return_M (addr_cells, size_cells)))"

text \<open>The dereference of a pointer to a table entry.\<close>

definition deref_device :: "nat \<Rightarrow> (('h, 'm) dt_machine_scheme, platform_device) M" where
  "deref_device i = bind_M (gets_M DEVICE_TABLE) (\<lambda>table. index_M table i)"

definition get_parent_cells :: "platform_device \<Rightarrow> (('h, 'm) dt_machine_scheme, u32 \<times> u32) M" where
  "get_parent_cells dev =
     (case dev_parent dev of
        None \<Rightarrow> return_M (2, 1)
      | Some p \<Rightarrow>
          bind_M (deref_device p) (\<lambda>parent.
          fold_M (parent_cells_step parent) [0..<prop_count parent] (2, 1)))"

section \<open>Lookups of dtb.rs\<close>

primrec find_phandle_in :: "u32 \<Rightarrow> nat list \<Rightarrow> (('h, 'm) dt_machine_scheme, platform_device option) M" where
  "find_phandle_in phandle [] = return_M None"
| "find_phandle_in phandle (i # is) =
     bind_M (gets_M PHANDLE_TABLE) (\<lambda>table.
     bind_M (index_M table i) (\<lambda>(phandle_val, dev_idx).
       if phandle_val = phandle
       then bind_M (deref_device dev_idx) (\<lambda>d. return_M (Some d))
       else find_phandle_in phandle is))"

definition find_device_by_phandle :: "u32 \<Rightarrow> (('h, 'm) dt_machine_scheme, platform_device option) M" where
  "find_device_by_phandle phandle = bind_M (gets_M PHANDLE_COUNT) (\<lambda>n. find_phandle_in phandle [0..<n])"

text \<open>
  The walk from a device towards the root. The tables do not change during the walk, so a walk
  longer than the table has come back to an entry it has seen and never ends: \<open>Suc MAX_DEVICES\<close>
  steps are all that a walk which ends can use.
\<close>

primrec interrupt_parent_walk ::
    "nat \<Rightarrow> nat option \<Rightarrow> (('h, 'm) dt_machine_scheme, platform_device option) M" where
  "interrupt_parent_walk 0 current = fail_M Hang"
| "interrupt_parent_walk (Suc n) current =
     (case current of
        None \<Rightarrow> return_M None
      | Some c \<Rightarrow>
          bind_M (deref_device c) (\<lambda>dev.
          bind_M (find_property_in dev ''interrupt-parent'' [0..<prop_count dev]) (\<lambda>found.
          (case found of
             Some prop \<Rightarrow> bind_M (read_be_u32 (prop_value prop) 0) find_device_by_phandle
           | None \<Rightarrow> interrupt_parent_walk n (dev_parent dev)))))"

definition find_interrupt_parent :: "platform_device \<Rightarrow> (('h, 'm) dt_machine_scheme, platform_device option) M" where
  "find_interrupt_parent dev = interrupt_parent_walk (Suc MAX_DEVICES) (dev_parent dev)"

text \<open>
  The scan of a \<open>compatible\<close> value. Offsets are natural numbers with the overflow of
  \<open>offset += str_len + 1\<close> written out.
\<close>

function scan_compat_len :: "property \<Rightarrow> nat \<Rightarrow> nat \<Rightarrow> (('h, 'm) machine_scheme, nat) M" where
  "scan_compat_len prop offset str_len =
     (if offset + str_len < unat (prop_len prop)
      then bind_M (load_u8 (prop_value prop + of_nat offset + of_nat str_len)) (\<lambda>b.
             if b \<noteq> 0 then scan_compat_len prop offset (Suc str_len) else return_M str_len)
      else return_M str_len)"
  by pat_completeness auto
termination
  by (relation "measure (\<lambda>(prop, offset, str_len). unat (prop_len prop) - (offset + str_len))") auto

declare scan_compat_len.simps [simp del]

function compatible_matches_from :: "property \<Rightarrow> string \<Rightarrow> nat \<Rightarrow> (('h, 'm) machine_scheme, bool) M" where
  "compatible_matches_from prop target offset =
     (if offset < unat (prop_len prop)
      then bind_M (scan_compat_len prop offset 0) (\<lambda>str_len.
           bind_M (load_bytes str_len (prop_value prop + of_nat offset)) (\<lambda>slice.
             if bytes_str slice = target then return_M True
             else if offset + (str_len + 1) < 2 ^ 64
             then compatible_matches_from prop target (offset + (str_len + 1))
             else fail_M Panic))
      else return_M False)"
  by pat_completeness auto
termination
  by (relation "measure (\<lambda>(prop, target, offset). unat (prop_len prop) - offset)") auto

declare compatible_matches_from.simps [simp del]

definition compatible_matches :: "property \<Rightarrow> string \<Rightarrow> (('h, 'm) machine_scheme, bool) M" where
  "compatible_matches prop target = compatible_matches_from prop target 0"

section \<open>The lookups only read\<close>

lemma keeps_find_property [keeps_rules]: "keeps f (find_property_in d name is)" "keeps f (find_property d name)"
proof -
  show *: "keeps f (find_property_in d name is)" for "is"
    by (induction "is") (simp_all only: find_property_in.simps, (intro keeps_rules; assumption)+)
  show "keeps f (find_property d name)" unfolding find_property_def by (rule *)
qed

lemma keeps_deref_device [keeps_rules]: "keeps f (deref_device i)"
  unfolding deref_device_def by (intro keeps_rules)

lemma keeps_get_parent_cells [keeps_rules]: "keeps f (get_parent_cells d)"
  unfolding get_parent_cells_def parent_cells_step_def by (intro keeps_rules)

lemma keeps_find_device_by_phandle [keeps_rules]: "keeps f (find_device_by_phandle ph)"
proof -
  have "keeps f (find_phandle_in ph is)" for "is"
    by (induction "is") (simp_all only: find_phandle_in.simps, (intro keeps_rules; assumption)+)
  then show ?thesis unfolding find_device_by_phandle_def by (intro keeps_rules)
qed

lemma keeps_find_interrupt_parent [keeps_rules]: "keeps f (find_interrupt_parent d)"
proof -
  have "keeps f (interrupt_parent_walk n c)" for n c
    by (induction n arbitrary: c)
      (simp_all only: interrupt_parent_walk.simps, (intro keeps_rules; assumption)+)
  then show ?thesis unfolding find_interrupt_parent_def by this
qed

lemma keeps_compatible_matches [keeps_rules]: "keeps f (compatible_matches p target)"
proof -
  have scan: "keeps f (scan_compat_len p off n)" for p off n
    by (induction p off n rule: scan_compat_len.induct)
      (subst scan_compat_len.simps, (intro keeps_rules; assumption)+)
  have "keeps f (compatible_matches_from p target off)" for off
    by (induction p target off rule: compatible_matches_from.induct)
      (subst compatible_matches_from.simps, (intro keeps_rules scan; assumption)+)
  then show ?thesis unfolding compatible_matches_def by this
qed

section \<open>Lookups in well-formed tables\<close>

text \<open>
  A device is well formed if its property count stays within its array; the tables are well formed if
  the counts stay within the arrays, every device is well formed and has its parent earlier in
  the table, and phandles refer to entries in use. The parser establishes this.
\<close>

definition dev_ok :: "platform_device \<Rightarrow> bool" where
  "dev_ok d \<longleftrightarrow> length (dev_properties d) = MAX_PROPS \<and> prop_count d \<le> MAX_PROPS"

definition parent_below :: "nat \<Rightarrow> platform_device \<Rightarrow> bool" where
  "parent_below i d = (case dev_parent d of None \<Rightarrow> True | Some p \<Rightarrow> p < i)"

definition tables_ok :: "('h, 'm) dt_machine_scheme \<Rightarrow> bool" where
  "tables_ok s \<longleftrightarrow>
     length (DEVICE_TABLE s) = MAX_DEVICES \<and> DEVICE_COUNT s \<le> MAX_DEVICES \<and>
     length (PHANDLE_TABLE s) = MAX_HANDLES \<and> PHANDLE_COUNT s \<le> MAX_HANDLES \<and>
     (\<forall>i < DEVICE_COUNT s. dev_ok (DEVICE_TABLE s ! i) \<and> parent_below i (DEVICE_TABLE s ! i)) \<and>
     (\<forall>i < PHANDLE_COUNT s. snd (PHANDLE_TABLE s ! i) < DEVICE_COUNT s)"

definition dev_props :: "platform_device \<Rightarrow> property list" where
  "dev_props d = take (prop_count d) (dev_properties d)"

lemma find_property_in_eq:
  "\<forall>i\<in>set is. i < length (dev_properties d) \<Longrightarrow>
   find_property_in d name is s = (Inr (find (\<lambda>p. prop_name p = name) (map (nth (dev_properties d)) is)), s)"
  by (induction "is") simp_all

lemma map_nth_upt: "n \<le> length xs \<Longrightarrow> map (nth xs) [0..<n] = take n xs"
  by (simp add: list_eq_iff_nth_eq)

lemma find_property_in_props:
  "prop_count d \<le> length (dev_properties d) \<Longrightarrow>
   find_property_in d name [0..<prop_count d] s = (Inr (find (\<lambda>p. prop_name p = name) (dev_props d)), s)"
  by (simp add: find_property_in_eq map_nth_upt dev_props_def)

lemma find_property_eq:
  "prop_count d \<le> length (dev_properties d) \<Longrightarrow>
   find_property d name s = (Inr (find (\<lambda>p. prop_name p = name) (dev_props d)), s)"
  by (simp add: find_property_def find_property_in_props)

text \<open>The lookup does not depend on the rest of the machine.\<close>

lemma find_property_in_state:
  "find_property_in d name is s = (Inr r, s') \<Longrightarrow> find_property_in d name is t = (Inr r, t)"
  by (induction "is") (auto simp: index_M_def split: if_splits)

lemma find_property_state: "find_property d name s = (Inr r, s') \<Longrightarrow> find_property d name t = (Inr r, t)"
  unfolding find_property_def by (rule find_property_in_state)

text \<open>The values of big-endian cells in memory.\<close>

definition cell_at :: "('h, 'm) machine_scheme \<Rightarrow> u64 \<Rightarrow> u32 \<Rightarrow> bool" where
  "cell_at s p v \<longleftrightarrow> holds_bytes (ram s) p (to_be_bytes v)"

lemma read_cell_at: "cell_at s p v \<Longrightarrow> read_be_u32 p 0 s = (Inr v, s)"
  by (rule read_be_u32_holds) (simp add: cell_at_def)

text \<open>The last property with a given name, read as a cell, or a default.\<close>

definition last_cell :: "string \<Rightarrow> (u64 \<Rightarrow> u32) \<Rightarrow> property list \<Rightarrow> u32 \<Rightarrow> u32" where
  "last_cell name val props d =
     fold (\<lambda>p v. if prop_name p = name then val (prop_value p) else v) props d"

lemma parent_cells_fold:
  assumes "\<forall>i\<in>set is. i < length (dev_properties d) \<and>
      (prop_name (dev_properties d ! i) \<in> {''#address-cells'', ''#size-cells''} \<longrightarrow>
         read_be_u32 (prop_value (dev_properties d ! i)) 0 s = (Inr (val (prop_value (dev_properties d ! i))), s))"
  shows "fold_M (parent_cells_step d) is (a, z) s =
    (Inr (last_cell ''#address-cells'' val (map (nth (dev_properties d)) is) a,
          last_cell ''#size-cells'' val (map (nth (dev_properties d)) is) z), s)"
  using assms
  by (induction "is" arbitrary: a z) (simp_all add: parent_cells_step_def last_cell_def)

lemma get_parent_cells_eq:
  assumes "dev_parent dev = Some p" and "p < length (DEVICE_TABLE s)" and "dev_ok (DEVICE_TABLE s ! p)"
    and "\<forall>q \<in> set (dev_props (DEVICE_TABLE s ! p)).
         prop_name q \<in> {''#address-cells'', ''#size-cells''} \<longrightarrow> cell_at s (prop_value q) (val (prop_value q))"
  shows "get_parent_cells dev s =
      (Inr (last_cell ''#address-cells'' val (dev_props (DEVICE_TABLE s ! p)) 2,
            last_cell ''#size-cells'' val (dev_props (DEVICE_TABLE s ! p)) 1), s)"
proof -
  let ?d = "DEVICE_TABLE s ! p"
  have d: "p < length (DEVICE_TABLE s)" "prop_count ?d \<le> length (dev_properties ?d)"
    using assms(2,3) by (simp_all add: dev_ok_def)
  have mem: "i < prop_count ?d \<Longrightarrow> dev_properties ?d ! i \<in> set (dev_props ?d)" for i
    using d(2) by (auto simp: dev_props_def in_set_conv_nth)
  have "fold_M (parent_cells_step ?d) [0..<prop_count ?d] (2, 1) s =
      (Inr (last_cell ''#address-cells'' val (dev_props ?d) 2, last_cell ''#size-cells'' val (dev_props ?d) 1), s)"
    unfolding dev_props_def map_nth_upt [OF d(2), symmetric]
    by (rule parent_cells_fold) (use assms(4) mem d(2) in \<open>auto intro!: read_cell_at\<close>)
  with d assms(1) show ?thesis by (simp add: get_parent_cells_def deref_device_def)
qed

lemma find_phandle_in_eq:
  assumes "\<forall>i\<in>set is. i < length (PHANDLE_TABLE s) \<and> snd (PHANDLE_TABLE s ! i) < length (DEVICE_TABLE s)"
  shows "find_phandle_in ph is s =
    (Inr (map_option (\<lambda>(v, i). DEVICE_TABLE s ! i)
       (find (\<lambda>(v, i). v = ph) (map (nth (PHANDLE_TABLE s)) is))), s)"
  using assms by (induction "is") (auto simp: deref_device_def split: prod.splits)

definition phandle_device :: "('h, 'm) dt_machine_scheme \<Rightarrow> u32 \<Rightarrow> platform_device option" where
  "phandle_device s ph =
     map_option (\<lambda>(v, i). DEVICE_TABLE s ! i) (find (\<lambda>(v, i). v = ph) (take (PHANDLE_COUNT s) (PHANDLE_TABLE s)))"

lemma find_device_by_phandle_eq:
  "tables_ok s \<Longrightarrow> find_device_by_phandle ph s = (Inr (phandle_device s ph), s)"
  using find_phandle_in_eq [of "[0..<PHANDLE_COUNT s]" s ph]
  by (force simp: find_device_by_phandle_def phandle_device_def tables_ok_def map_nth_upt)

text \<open>A device and its ancestors, nearest first.\<close>

function ancestors :: "platform_device list \<Rightarrow> nat \<Rightarrow> platform_device list" where
  "ancestors table i =
     table ! i # (case dev_parent (table ! i) of None \<Rightarrow> []
                  | Some p \<Rightarrow> if p < i then ancestors table p else [])"
  by pat_completeness auto
termination
  by (relation "measure snd") auto

declare ancestors.simps [simp del]

lemma find_append: "find P (xs @ ys) = (case find P xs of None \<Rightarrow> find P ys | Some x \<Rightarrow> Some x)"
  by (induction xs) simp_all

text \<open>The \<open>interrupt-parent\<close> property in force below a device: the first one on the way to the root.\<close>

definition inherited_ip :: "platform_device list \<Rightarrow> nat \<Rightarrow> property option" where
  "inherited_ip table i = find (\<lambda>p. prop_name p = ''interrupt-parent'') (concat (map dev_props (ancestors table i)))"

lemma inherited_ip_step:
  "parent_below i (table ! i) \<Longrightarrow>
   inherited_ip table i =
     (case find (\<lambda>p. prop_name p = ''interrupt-parent'') (dev_props (table ! i)) of
        Some p \<Rightarrow> Some p
      | None \<Rightarrow> (case dev_parent (table ! i) of None \<Rightarrow> None | Some p \<Rightarrow> inherited_ip table p))"
  unfolding inherited_ip_def
  by (subst ancestors.simps) (auto simp: parent_below_def find_append split: option.splits)

lemma interrupt_parent_walk_eq:
  assumes "tables_ok s" and "i < DEVICE_COUNT s" and "Suc i < n"
    and "\<And>prop. inherited_ip (DEVICE_TABLE s) i = Some prop \<Longrightarrow> cell_at s (prop_value prop) (val (prop_value prop))"
  shows "interrupt_parent_walk n (Some i) s =
    (Inr (case inherited_ip (DEVICE_TABLE s) i of None \<Rightarrow> None
          | Some prop \<Rightarrow> phandle_device s (val (prop_value prop))), s)"
  using assms(2-)
proof (induction i arbitrary: n rule: less_induct)
  case (less i)
  let ?d = "DEVICE_TABLE s ! i"
  obtain m where n: "n = Suc m" using less.prems(2) by (cases n) simp_all
  have d: "dev_ok ?d" "parent_below i ?d" "i < length (DEVICE_TABLE s)"
    using assms(1) less.prems(1) by (auto simp: tables_ok_def)
  have count: "prop_count ?d \<le> length (dev_properties ?d)" using d(1) by (simp add: dev_ok_def)
  have deref: "deref_device i s = (Inr ?d, s)" using d(3) by (simp add: deref_device_def)
  show ?case
  proof (cases "find (\<lambda>p. prop_name p = ''interrupt-parent'') (dev_props ?d)")
    case (Some q)
    then have ip: "inherited_ip (DEVICE_TABLE s) i = Some q" using inherited_ip_step [OF d(2)] by simp
    then have "read_be_u32 (prop_value q) 0 s = (Inr (val (prop_value q)), s)"
      by (intro read_cell_at less.prems(3))
    with Some show ?thesis
      by (simp add: n deref ip find_property_in_props [OF count] find_device_by_phandle_eq [OF assms(1)])
  next
    case None
    note no_prop = None
    show ?thesis
    proof (cases "dev_parent ?d")
      case None
      with no_prop inherited_ip_step [OF d(2)] less.prems(2) n show ?thesis
        by (cases m) (simp_all add: deref find_property_in_props [OF count])
    next
      case (Some p)
      then have "p < i" using d(2) by (simp add: parent_below_def)
      moreover have "inherited_ip (DEVICE_TABLE s) i = inherited_ip (DEVICE_TABLE s) p"
        using inherited_ip_step [OF d(2)] no_prop Some by simp
      ultimately show ?thesis
        using less.IH [of p m] less.prems n no_prop Some by (simp add: deref find_property_in_props [OF count])
    qed
  qed
qed

section \<open>Compatible strings\<close>

text \<open>The null-terminated strings of a property value.\<close>

fun split_nul :: "u8 list \<Rightarrow> u8 list list" where
  "split_nul [] = []"
| "split_nul (b # bs) = takeWhile (\<lambda>x. x \<noteq> 0) (b # bs) # split_nul (drop (length (takeWhile (\<lambda>x. x \<noteq> 0) (b # bs))) bs)"

lemma split_nul_unfold:
  "bs \<noteq> [] \<Longrightarrow> split_nul bs = takeWhile (\<lambda>x. x \<noteq> 0) bs # split_nul (drop (Suc (length (takeWhile (\<lambda>x. x \<noteq> 0) bs))) bs)"
  by (cases bs) simp_all

definition join_nul :: "u8 list list \<Rightarrow> u8 list" where
  "join_nul strs = concat (map (\<lambda>x. x @ [0]) strs)"

lemma split_nul_join_nul: "\<forall>x\<in>set strs. 0 \<notin> set x \<Longrightarrow> split_nul (join_nul strs) = strs"
proof (induction strs)
  case (Cons x strs)
  then have "takeWhile (\<lambda>b. b \<noteq> 0) (x @ 0 # join_nul strs) = x"
    using takeWhile_append2 [of x "\<lambda>b. b \<noteq> 0" "0 # join_nul strs"] by fastforce
  then show ?case
    using Cons split_nul_unfold [of "x @ 0 # join_nul strs"] by (simp add: join_nul_def)
qed (simp add: join_nul_def)

lemma scan_compat_len_eq:
  assumes "holds_bytes (ram s) (prop_value p + of_nat off + of_nat k) bs" and "unat (prop_len p) = off + k + length bs"
  shows "scan_compat_len p off k s = (Inr (k + length (takeWhile (\<lambda>b. b \<noteq> 0) bs)), s)"
  using assms
proof (induction bs arbitrary: k)
  case Nil
  then show ?case by (subst scan_compat_len.simps) simp
next
  case (Cons b bs)
  have "scan_compat_len p off (Suc k) s = (Inr (Suc k + length (takeWhile (\<lambda>b. b \<noteq> 0) bs)), s)"
    using Cons.prems by (intro Cons.IH) (simp_all add: algebra_simps)
  with Cons.prems show ?case by (subst scan_compat_len.simps) simp
qed

lemma holds_bytes_take: "holds_bytes m p bs \<Longrightarrow> holds_bytes m p (take n bs)"
  by (simp add: holds_bytes_nth)

lemma holds_bytes_drop: "holds_bytes m p bs \<Longrightarrow> n \<le> length bs \<Longrightarrow> holds_bytes m (p + of_nat n) (drop n bs)"
  by (metis append_take_drop_id holds_bytes_append length_take min.absorb2)

lemma bytes_str_eq_iff: "bytes_str bs = str \<longleftrightarrow> bs = str_bytes str"
  by auto

lemma compatible_matches_from_eq:
  assumes "holds_bytes (ram s) (prop_value p + of_nat off) bs" and "unat (prop_len p) = off + length bs"
    and "unat (prop_len p) + 1 < 2 ^ 64"
  shows "compatible_matches_from p target off s = (Inr (str_bytes target \<in> set (split_nul bs)), s)"
  using assms(1,2)
proof (induction bs arbitrary: off rule: length_induct)
  case (1 bs)
  let ?w = "takeWhile (\<lambda>b. b \<noteq> 0) bs"
  show ?case
  proof (cases "bs = []")
    case True
    then show ?thesis using "1.prems" by (subst compatible_matches_from.simps) simp
  next
    case False
    have scan: "scan_compat_len p off 0 s = (Inr (length ?w), s)"
      using scan_compat_len_eq [of s p off 0 bs] "1.prems" by simp
    have "?w = take (length ?w) bs" by (rule takeWhile_eq_take)
    then have "holds_bytes (ram s) (prop_value p + of_nat off) ?w"
      using holds_bytes_take [OF "1.prems"(1), of "length ?w"] by (rule ssubst)
    then have load: "load_bytes (length ?w) (prop_value p + of_nat off) s = (Inr ?w, s)"
      by (rule load_bytes_holds)
    have len: "length ?w \<le> length bs" by (rule length_takeWhile_le)
    have rest: "compatible_matches_from p target (off + (length ?w + 1)) s =
        (Inr (str_bytes target \<in> set (split_nul (drop (Suc (length ?w)) bs))), s)"
    proof (cases "length ?w < length bs")
      case True
      then have "holds_bytes (ram s) (prop_value p + of_nat off + of_nat (Suc (length ?w))) (drop (Suc (length ?w)) bs)"
        by (intro holds_bytes_drop "1.prems"(1)) simp
      then show ?thesis using "1.prems"(2) True
        by (intro "1.IH" [rule_format]) (simp_all add: ac_simps)
    next
      case False
      then show ?thesis using "1.prems" len by (subst compatible_matches_from.simps) simp
    qed
    have "off + (length ?w + 1) < 2 ^ 64" using len "1.prems"(2) assms(3) by simp
    with scan load rest False "1.prems"(2) show ?thesis
      by (subst compatible_matches_from.simps) (simp add: split_nul_unfold bytes_str_eq_iff)
  qed
qed

lemma compatible_matches_join:
  assumes "holds_bytes (ram s) (prop_value p) (join_nul (map str_bytes strs))"
    and "unat (prop_len p) = length (join_nul (map str_bytes strs))" and "unat (prop_len p) + 1 < 2 ^ 64"
    and "\<forall>x \<in> set strs. 0 \<notin> set (str_bytes x)"
  shows "compatible_matches p target s = (Inr (target \<in> set strs), s)"
proof -
  have "split_nul (join_nul (map str_bytes strs)) = map str_bytes strs"
    using assms(4) by (intro split_nul_join_nul) simp
  moreover have "str_bytes target \<in> set (map str_bytes strs) \<longleftrightarrow> target \<in> set strs"
    by (simp add: image_iff) (metis bytes_str_str_bytes)
  ultimately show ?thesis
    using compatible_matches_from_eq [of s p 0 "join_nul (map str_bytes strs)" target] assms(1-3)
    by (simp add: compatible_matches_def)
qed

section \<open>Properties\<close>

text \<open>
  Looking up a property. On a well-formed device, \<open>find_property\<close> never panics and changes nothing; it returns
  the first of the device's counted properties with the given name, and nothing exactly when no
  counted property has that name (entries of the array beyond the count are never seen).
\<close>

lemma find_property_first_match:
  assumes "dev_ok d"
  shows "\<exists>r. find_property d name s = (Inr r, s) \<and>
    (r = None \<longleftrightarrow> (\<forall>i < prop_count d. prop_name (dev_properties d ! i) \<noteq> name)) \<and>
    (\<forall>p. r = Some p \<longleftrightarrow> (\<exists>i < prop_count d. dev_properties d ! i = p \<and> prop_name p = name \<and>
       (\<forall>j < i. prop_name (dev_properties d ! j) \<noteq> name)))"
proof (intro exI conjI)
  let ?r = "find (\<lambda>p. prop_name p = name) (dev_props d)"
  have count: "prop_count d \<le> length (dev_properties d)" using assms by (simp add: dev_ok_def)
  then show "find_property d name s = (Inr ?r, s)" by (rule find_property_eq)
  have len: "length (dev_props d) = prop_count d" using count by (simp add: dev_props_def)
  have nth: "i < prop_count d \<Longrightarrow> dev_props d ! i = dev_properties d ! i" for i by (simp add: dev_props_def)
  show "?r = None \<longleftrightarrow> (\<forall>i < prop_count d. prop_name (dev_properties d ! i) \<noteq> name)"
    by (simp add: find_None_iff all_set_conv_all_nth len nth flip: Ball_def)
  show "\<forall>p. ?r = Some p \<longleftrightarrow> (\<exists>i < prop_count d. dev_properties d ! i = p \<and> prop_name p = name \<and>
       (\<forall>j < i. prop_name (dev_properties d ! j) \<noteq> name))"
    by (auto simp: find_Some_iff len nth)
qed

definition device_example :: platform_device where
  "device_example =
     \<lparr>dev_parent = Some 0, dev_name = ''pl011@9000000'',
      dev_properties =
        [\<lparr>prop_name = ''reg'', prop_value = 0x100, prop_len = 16\<rparr>,
         \<lparr>prop_name = ''compatible'', prop_value = 0x110, prop_len = 24\<rparr>] @ replicate 14 Property_new,
      prop_count = 2\<rparr>"

lemma dev_ok_example: "dev_ok device_example"
  by (simp add: dev_ok_def device_example_def MAX_PROPS_def)

lemma find_property_first_match_witness:
  "\<exists>r. find_property device_example ''compatible'' () = (Inr r, ()) \<and> r \<noteq> None"
proof -
  have "prop_name (dev_properties device_example ! 1) = ''compatible''" "1 < prop_count device_example"
    by (simp_all add: device_example_def)
  then show ?thesis using find_property_first_match [OF dev_ok_example, of "''compatible''" "()"] by blast
qed

text \<open>
  C30. Address and size cells. For a node without a parent the defaults \<open>(2, 1)\<close> are returned; otherwise the
  counted properties of the parent decide: the value of the last \<open>#address-cells\<close> (\<open>#size-cells\<close>) property,
  or the default when there is none. Only those two properties are read from memory.
\<close>

theorem get_parent_cells_value:
  assumes "dev_parent dev = Some p" and "p < length (DEVICE_TABLE s)" and "dev_ok (DEVICE_TABLE s ! p)"
    and "\<forall>q \<in> set (dev_props (DEVICE_TABLE s ! p)).
         prop_name q \<in> {''#address-cells'', ''#size-cells''} \<longrightarrow> cell_at s (prop_value q) (val (prop_value q))"
  shows "get_parent_cells dev s =
      (Inr (last_cell ''#address-cells'' val (dev_props (DEVICE_TABLE s ! p)) 2,
            last_cell ''#size-cells'' val (dev_props (DEVICE_TABLE s ! p)) 1), s) \<and>
    get_parent_cells (dev\<lparr>dev_parent := None\<rparr>) s = (Inr (2, 1), s)"
  using get_parent_cells_eq [OF assms] by (simp add: get_parent_cells_def)

text \<open>
  C22. The interrupt parent. On well-formed tables the walk towards the root always ends; it returns the device
  registered under the phandle of the first \<open>interrupt-parent\<close> property among the counted properties of the
  device's ancestors, nearest ancestor first, and nothing when there is none (a property of the
  device itself is not consulted).
\<close>

theorem find_interrupt_parent_nearest:
  assumes "tables_ok s" and "dev_parent dev = Some p" and "p < DEVICE_COUNT s"
    and "\<forall>q. find (\<lambda>q. prop_name q = ''interrupt-parent'') (concat (map dev_props (ancestors (DEVICE_TABLE s) p))) = Some q
        \<longrightarrow> cell_at s (prop_value q) (val (prop_value q))"
  shows "find_interrupt_parent dev s =
    (Inr (case find (\<lambda>q. prop_name q = ''interrupt-parent'') (concat (map dev_props (ancestors (DEVICE_TABLE s) p))) of
            None \<Rightarrow> None
          | Some q \<Rightarrow> map_option (\<lambda>(v, i). DEVICE_TABLE s ! i)
              (find (\<lambda>(v, i). v = val (prop_value q)) (take (PHANDLE_COUNT s) (PHANDLE_TABLE s)))), s)"
proof -
  have "Suc p < Suc MAX_DEVICES" using assms(1,3) by (simp add: tables_ok_def)
  with assms show ?thesis
    using interrupt_parent_walk_eq [of s p "Suc MAX_DEVICES" val]
    unfolding phandle_device_def inherited_ip_def by (simp add: find_interrupt_parent_def)
qed

text \<open>
  C23. Matching a \<open>compatible\<close> property. When the value of a property is a list of null-terminated strings, as the
  format prescribes, \<open>compatible_matches\<close> reads it without a panic, changes nothing, and answers
  true exactly if the target is one of the strings; a mere prefix or substring does not match.
\<close>

theorem compatible_matches_member:
  assumes "holds_bytes (ram s) (prop_value p) (join_nul (map str_bytes strs))"
    and "unat (prop_len p) = length (join_nul (map str_bytes strs))" and "unat (prop_len p) + 1 < 2 ^ 64"
    and "\<forall>x \<in> set strs. 0 \<notin> set (str_bytes x)"
  shows "compatible_matches p target s = (Inr (target \<in> set strs), s)"
  using assms by (rule compatible_matches_join)

text \<open>
  Tables with a root node that gives cells and an interrupt parent, and an interrupt controller below
  it, for the witnesses. The memory holds the three cells and two compatible strings.
\<close>

definition dt_example_root :: platform_device where
  "dt_example_root =
     \<lparr>dev_parent = None, dev_name = [],
      dev_properties =
        [\<lparr>prop_name = ''#address-cells'', prop_value = 0x1000, prop_len = 4\<rparr>,
         \<lparr>prop_name = ''#size-cells'', prop_value = 0x1004, prop_len = 4\<rparr>,
         \<lparr>prop_name = ''interrupt-parent'', prop_value = 0x1008, prop_len = 4\<rparr>] @ replicate 13 Property_new,
      prop_count = 3\<rparr>"

definition dt_example_intc :: platform_device where
  "dt_example_intc =
     \<lparr>dev_parent = Some 0, dev_name = ''intc'', dev_properties = replicate 16 Property_new, prop_count = 0\<rparr>"

definition dt_example_bytes :: "u8 list" where
  "dt_example_bytes = to_be_bytes (1 :: u32) @ to_be_bytes (2 :: u32) @ to_be_bytes (7 :: u32) @
     join_nul (map str_bytes [''arm,pl011'', ''arm,primecell''])"

definition dt_example :: "store_hw dt_machine" where
  "dt_example =
     \<lparr>bus = store_bus, hw = store_hw0, ram = mem_at 0x1000 dt_example_bytes, spin = 1,
      DEVICE_COUNT = 2, DEVICE_TABLE = [dt_example_root, dt_example_intc] @ replicate 254 PlatformDevice_new,
      PHANDLE_COUNT = 1, PHANDLE_TABLE = (7, 1) # replicate 31 (0, 0)\<rparr>"

lemma tables_ok_example: "tables_ok dt_example"
  by (simp add: tables_ok_def dt_example_def MAX_DEVICES_def MAX_HANDLES_def MAX_PROPS_def numeral_2_eq_2 all_less_Suc_split
      dev_ok_def parent_below_def dt_example_root_def dt_example_intc_def)

lemma dt_example_mem: "holds_bytes (ram dt_example) 0x1000 dt_example_bytes"
  using holds_bytes_mem_at [of dt_example_bytes "0x1000"]
  by (simp add: dt_example_def dt_example_bytes_def join_nul_def to_be_bytes_def)

lemma dt_example_parts:
  "cell_at dt_example 0x1000 1" "cell_at dt_example 0x1004 2" "cell_at dt_example 0x1008 7"
  "holds_bytes (ram dt_example) 0x100C (join_nul (map str_bytes [''arm,pl011'', ''arm,primecell'']))"
  using dt_example_mem unfolding dt_example_bytes_def holds_bytes_append cell_at_def
  by (simp_all add: to_be_bytes_def)

lemma dt_example_props:
  "DEVICE_TABLE dt_example ! 0 = dt_example_root" "dev_ok dt_example_root"
  "dev_props dt_example_root =
     [\<lparr>prop_name = ''#address-cells'', prop_value = 0x1000, prop_len = 4\<rparr>,
      \<lparr>prop_name = ''#size-cells'', prop_value = 0x1004, prop_len = 4\<rparr>,
      \<lparr>prop_name = ''interrupt-parent'', prop_value = 0x1008, prop_len = 4\<rparr>]"
  by (simp_all add: dt_example_def dt_example_root_def dev_ok_def dev_props_def MAX_PROPS_def)

theorem get_parent_cells_value_witness:
  "get_parent_cells device_example dt_example = (Inr (1, 2), dt_example)"
  using get_parent_cells_value [of device_example 0 dt_example "\<lambda>a. if a = 0x1000 then 1 else 2"]
  by (simp add: dt_example_props dt_example_parts last_cell_def)
    (simp add: device_example_def dt_example_def)

theorem find_interrupt_parent_nearest_witness:
  "find_interrupt_parent device_example dt_example = (Inr (Some dt_example_intc), dt_example)"
proof -
  have "ancestors (DEVICE_TABLE dt_example) 0 = [dt_example_root]"
    by (subst ancestors.simps) (simp add: dt_example_props, simp add: dt_example_root_def)
  moreover have "DEVICE_TABLE dt_example ! 1 = dt_example_intc" "DEVICE_COUNT dt_example = 2"
    "take (PHANDLE_COUNT dt_example) (PHANDLE_TABLE dt_example) = [(7, 1)]" "dev_parent device_example = Some 0"
    by (simp_all add: dt_example_def device_example_def)
  ultimately show ?thesis
    using find_interrupt_parent_nearest [OF tables_ok_example, of device_example 0 "\<lambda>_. 7"]
    by (simp add: dt_example_props dt_example_parts)
qed

theorem compatible_matches_member_witness:
  "compatible_matches \<lparr>prop_name = ''compatible'', prop_value = 0x100C, prop_len = 24\<rparr> ''arm,primecell'' dt_example =
     (Inr True, dt_example) \<and>
   compatible_matches \<lparr>prop_name = ''compatible'', prop_value = 0x100C, prop_len = 24\<rparr> ''arm'' dt_example =
     (Inr False, dt_example)"
  using dt_example_parts(4)
    compatible_matches_member [of dt_example "\<lparr>prop_name = ''compatible'', prop_value = 0x100C, prop_len = 24\<rparr>"
      "[''arm,pl011'', ''arm,primecell'']"]
  by (simp add: join_nul_def)

end
