(* ===== verification/Gicv3.thy ===== *)
theory Gicv3
  imports Device
begin

text \<open>
  \<^verbatim>\<open>src/drivers/gic/gicv3.rs\<close>: the GICv3 driver. The methods of \<open>Gicv3\<close> take the struct as their
  first argument; the public wrappers read it from the static \<open>GIC\<close>. The lemmas state each
  operation as a register program, and what the program does to the fields of the register.
\<close>

section \<open>Constants and state\<close>

definition MAX_INTERRUPT_CELLS :: nat where "MAX_INTERRUPT_CELLS = 4"

definition GICD_CTLR :: usize where "GICD_CTLR = 0x000"
definition GICD_CTLR_GRP1NS :: u32 where "GICD_CTLR_GRP1NS = 0b10"
definition GICD_CTLR_GRP1S :: u32 where "GICD_CTLR_GRP1S = 0b100"
definition GICD_ISENABLER :: usize where "GICD_ISENABLER = 0x100"
definition GICD_IPRIORITYR :: usize where "GICD_IPRIORITYR = 0x400"
definition GICD_ICFGR :: usize where "GICD_ICFGR = 0xC00"
definition GICD_IROUTER :: usize where "GICD_IROUTER = 0x6100"
definition GICD_IGROUPR :: usize where "GICD_IGROUPR = 0x080"

definition GICR_SGI_BASE :: usize where "GICR_SGI_BASE = 0x10000"
definition GICR_WAKER :: usize where "GICR_WAKER = 0x0014"
definition GICR_WAKER_PSLEEP :: u32 where "GICR_WAKER_PSLEEP = 0b10"
definition GICR_WAKER_CASLEEP :: u32 where "GICR_WAKER_CASLEEP = 0b100"
definition GICR_IPRIORITYR :: usize where "GICR_IPRIORITYR = 0x400"
definition GICR_IGROUPR0 :: usize where "GICR_IGROUPR0 = 0x080"
definition GICR_ISENABLER0 :: usize where "GICR_ISENABLER0 = 0x100"
definition GICR_ICFGR :: usize where "GICR_ICFGR = 0xC00"

lemmas gic_consts = GICD_CTLR_def GICD_CTLR_GRP1NS_def GICD_CTLR_GRP1S_def GICD_ISENABLER_def
  GICD_IPRIORITYR_def GICD_ICFGR_def GICD_IROUTER_def GICD_IGROUPR_def GICR_SGI_BASE_def
  GICR_WAKER_def GICR_WAKER_PSLEEP_def GICR_WAKER_CASLEEP_def GICR_IPRIORITYR_def
  GICR_IGROUPR0_def GICR_ISENABLER0_def GICR_ICFGR_def

record gicv3 =
  dist_addr :: usize
  redist_addr :: usize

definition Gicv3_new :: gicv3 where
  "Gicv3_new = \<lparr>dist_addr = 0, redist_addr = 0\<rparr>"

record 'h gic_machine = "'h dt_machine" +
  GIC :: gicv3

section \<open>Methods of Gicv3\<close>

definition Gicv3_init_gic_distributor :: "gicv3 \<Rightarrow> (('h, 'm) machine_scheme, unit) M" where
  "Gicv3_init_gic_distributor self =
     seq_M (set_mmio_bits32 (dist_addr self) GICD_CTLR (GICD_CTLR_GRP1S OR GICD_CTLR_GRP1NS))
           (barrier DSB_SY)"

text \<open>The redistributor reports the processor interface as still asleep.\<close>

definition children_asleep :: "gicv3 \<Rightarrow> (('h, 'm) machine_scheme, bool) M" where
  "children_asleep self =
     bind_M (read_mmio32 (redist_addr self) GICR_WAKER) (\<lambda>v. return_M (v AND GICR_WAKER_CASLEEP \<noteq> 0))"

definition Gicv3_init_gic_redistributor :: "gicv3 \<Rightarrow> (('h, 'm) machine_scheme, unit) M" where
  "Gicv3_init_gic_redistributor self =
     block_M [clear_mmio_bits32 (redist_addr self) GICR_WAKER GICR_WAKER_PSLEEP,
              barrier DSB_SY,
              while_M (children_asleep self)]"

definition Gicv3_set_ppi_priority :: "gicv3 \<Rightarrow> u32 \<Rightarrow> u8 \<Rightarrow> (('h, 'm) machine_scheme, unit) M" where
  "Gicv3_set_ppi_priority self intid prio =
     bind_M (checked_add (redist_addr self) GICR_SGI_BASE) (\<lambda>sgi_base.
     bind_M (checked_mul (intid div 4) 4) (\<lambda>reg_offset.
     bind_M (checked_mul (intid mod 4) 8) (\<lambda>bit_shift.
     bind_M (checked_add sgi_base GICR_IPRIORITYR) (\<lambda>a.
     bind_M (checked_add a (ucast reg_offset)) (\<lambda>prio_reg_addr.
     bind_M (read_mmio32 prio_reg_addr 0) (\<lambda>reg_val.
     bind_M (checked_shl 0xFF (unat bit_shift)) (\<lambda>m.
     bind_M (checked_shl (ucast prio) (unat bit_shift)) (\<lambda>p.
     seq_M (write_mmio32 prio_reg_addr 0 ((reg_val AND NOT m) OR p))
           (barrier DSB_SY)))))))))"

definition Gicv3_set_ppi_group :: "gicv3 \<Rightarrow> u32 \<Rightarrow> (('h, 'm) machine_scheme, unit) M" where
  "Gicv3_set_ppi_group self intid =
     bind_M (checked_add (redist_addr self) GICR_SGI_BASE) (\<lambda>sgi_base.
     bind_M (checked_shl 1 (unat intid)) (\<lambda>bits.
     seq_M (set_mmio_bits32 sgi_base GICR_IGROUPR0 bits) (barrier DSB_SY)))"

definition Gicv3_enable_ppi :: "gicv3 \<Rightarrow> u32 \<Rightarrow> (('h, 'm) machine_scheme, unit) M" where
  "Gicv3_enable_ppi self intid =
     bind_M (checked_add (redist_addr self) GICR_SGI_BASE) (\<lambda>sgi_base.
     bind_M (checked_shl 1 (unat intid)) (\<lambda>bits.
     seq_M (set_mmio_bits32 sgi_base GICR_ISENABLER0 bits) (barrier DSB_SY)))"

definition Gicv3_set_spi_priority :: "gicv3 \<Rightarrow> u32 \<Rightarrow> u8 \<Rightarrow> (('h, 'm) machine_scheme, unit) M" where
  "Gicv3_set_spi_priority self intid prio =
     bind_M (checked_mul (intid div 4) 4) (\<lambda>reg_offset.
     bind_M (checked_mul (intid mod 4) 8) (\<lambda>bit_shift.
     bind_M (checked_add (dist_addr self) GICD_IPRIORITYR) (\<lambda>a.
     bind_M (checked_add a (ucast reg_offset)) (\<lambda>prio_reg_addr.
     bind_M (read_mmio32 prio_reg_addr 0) (\<lambda>reg_val.
     bind_M (checked_shl 0xFF (unat bit_shift)) (\<lambda>m.
     bind_M (checked_shl (ucast prio) (unat bit_shift)) (\<lambda>p.
     seq_M (write_mmio32 prio_reg_addr 0 ((reg_val AND NOT m) OR p))
           (barrier DSB_SY))))))))"

definition Gicv3_set_spi_trigger_level :: "gicv3 \<Rightarrow> u32 \<Rightarrow> (('h, 'm) machine_scheme, unit) M" where
  "Gicv3_set_spi_trigger_level self intid =
     bind_M (checked_mul (intid div 16) 4) (\<lambda>reg_offset.
     bind_M (checked_mul (intid mod 16) 2) (\<lambda>bit_shift.
     bind_M (checked_add (dist_addr self) GICD_ICFGR) (\<lambda>a.
     bind_M (checked_add a (ucast reg_offset)) (\<lambda>cfg_reg_addr.
     bind_M (read_mmio32 cfg_reg_addr 0) (\<lambda>reg_val.
     bind_M (checked_shl 0b11 (unat bit_shift)) (\<lambda>m.
     seq_M (write_mmio32 cfg_reg_addr 0 (reg_val AND NOT m))
           (barrier DSB_SY)))))))"

definition Gicv3_set_spi_trigger_edge :: "gicv3 \<Rightarrow> u32 \<Rightarrow> (('h, 'm) machine_scheme, unit) M" where
  "Gicv3_set_spi_trigger_edge self intid =
     bind_M (checked_mul (intid div 16) 4) (\<lambda>reg_offset.
     bind_M (checked_mul (intid mod 16) 2) (\<lambda>bit_shift.
     bind_M (checked_add (dist_addr self) GICD_ICFGR) (\<lambda>a.
     bind_M (checked_add a (ucast reg_offset)) (\<lambda>cfg_reg_addr.
     bind_M (read_mmio32 cfg_reg_addr 0) (\<lambda>reg_val.
     bind_M (checked_shl 0b11 (unat bit_shift)) (\<lambda>m.
     bind_M (checked_shl 0b10 (unat bit_shift)) (\<lambda>e.
     seq_M (write_mmio32 cfg_reg_addr 0 ((reg_val AND NOT m) OR e))
           (barrier DSB_SY))))))))"

definition Gicv3_enable_spi :: "gicv3 \<Rightarrow> u32 \<Rightarrow> (('h, 'm) machine_scheme, unit) M" where
  "Gicv3_enable_spi self intid =
     bind_M (checked_mul (intid div 32) 4) (\<lambda>reg_offset.
     bind_M (checked_add (dist_addr self) GICD_ISENABLER) (\<lambda>a.
     bind_M (checked_add a (ucast reg_offset)) (\<lambda>enabler_reg_addr.
     bind_M (checked_shl 1 (unat (intid mod 32))) (\<lambda>bit_to_set.
     seq_M (write_mmio32 enabler_reg_addr 0 bit_to_set)
           (barrier DSB_SY)))))"

definition Gicv3_set_spi_routing :: "gicv3 \<Rightarrow> u32 \<Rightarrow> u64 \<Rightarrow> (('h, 'm) machine_scheme, unit) M" where
  "Gicv3_set_spi_routing self intid core_affinity =
     bind_M (checked_add (dist_addr self) GICD_IROUTER) (\<lambda>a.
     bind_M (checked_mul 8 (ucast intid)) (\<lambda>off.
     bind_M (checked_add a off) (\<lambda>router_reg_addr.
     seq_M (write_mmio64 router_reg_addr core_affinity)
           (barrier DSB_SY))))"

definition Gicv3_set_spi_group :: "gicv3 \<Rightarrow> u32 \<Rightarrow> (('h, 'm) machine_scheme, unit) M" where
  "Gicv3_set_spi_group self intid =
     bind_M (checked_mul (intid div 32) 4) (\<lambda>reg_offset.
     bind_M (checked_add (dist_addr self) GICD_IGROUPR) (\<lambda>a.
     bind_M (checked_add a (ucast reg_offset)) (\<lambda>group_reg_addr.
     bind_M (checked_shl 1 (unat (intid mod 32))) (\<lambda>bit_to_set.
     seq_M (set_mmio_bits32 group_reg_addr 0 bit_to_set)
           (barrier DSB_SY)))))"

definition Gicv3_set_ppi_trigger_level :: "gicv3 \<Rightarrow> u32 \<Rightarrow> (('h, 'm) machine_scheme, unit) M" where
  "Gicv3_set_ppi_trigger_level self intid =
     bind_M (checked_mul (intid div 16) 4) (\<lambda>reg_offset.
     bind_M (checked_mul (intid mod 16) 2) (\<lambda>bit_shift.
     bind_M (checked_add (redist_addr self) GICR_SGI_BASE) (\<lambda>sgi_base.
     bind_M (checked_add sgi_base GICR_ICFGR) (\<lambda>a.
     bind_M (checked_add a (ucast reg_offset)) (\<lambda>cfg_reg_addr.
     bind_M (read_mmio32 cfg_reg_addr 0) (\<lambda>reg_val.
     bind_M (checked_shl 0b11 (unat bit_shift)) (\<lambda>m.
     seq_M (write_mmio32 cfg_reg_addr 0 (reg_val AND NOT m))
           (barrier DSB_SY))))))))"

definition Gicv3_set_ppi_trigger_edge :: "gicv3 \<Rightarrow> u32 \<Rightarrow> (('h, 'm) machine_scheme, unit) M" where
  "Gicv3_set_ppi_trigger_edge self intid =
     bind_M (checked_mul (intid div 16) 4) (\<lambda>reg_offset.
     bind_M (checked_mul (intid mod 16) 2) (\<lambda>bit_shift.
     bind_M (checked_add (redist_addr self) GICR_SGI_BASE) (\<lambda>sgi_base.
     bind_M (checked_add sgi_base GICR_ICFGR) (\<lambda>a.
     bind_M (checked_add a (ucast reg_offset)) (\<lambda>cfg_reg_addr.
     bind_M (read_mmio32 cfg_reg_addr 0) (\<lambda>reg_val.
     bind_M (checked_shl 0b11 (unat bit_shift)) (\<lambda>m.
     bind_M (checked_shl 0b10 (unat bit_shift)) (\<lambda>e.
     seq_M (write_mmio32 cfg_reg_addr 0 ((reg_val AND NOT m) OR e))
           (barrier DSB_SY)))))))))"

section \<open>Public functions\<close>

definition init_gic :: "usize \<Rightarrow> usize \<Rightarrow> (('h, 'm) gic_machine_scheme, unit) M" where
  "init_gic dist redist =
     block_M [modify_M (\<lambda>s. s\<lparr>GIC := (GIC s)\<lparr>dist_addr := dist\<rparr>\<rparr>),
              modify_M (\<lambda>s. s\<lparr>GIC := (GIC s)\<lparr>redist_addr := redist\<rparr>\<rparr>),
              bind_M (gets_M GIC) Gicv3_init_gic_distributor,
              bind_M (gets_M GIC) Gicv3_init_gic_redistributor]"

definition enable_spi :: "u32 \<Rightarrow> (('h, 'm) gic_machine_scheme, unit) M" where
  "enable_spi intid = bind_M (gets_M GIC) (\<lambda>gic. Gicv3_enable_spi gic intid)"

definition set_spi_priority :: "u32 \<Rightarrow> u8 \<Rightarrow> (('h, 'm) gic_machine_scheme, unit) M" where
  "set_spi_priority intid prio = bind_M (gets_M GIC) (\<lambda>gic. Gicv3_set_spi_priority gic intid prio)"

definition set_spi_trigger_level :: "u32 \<Rightarrow> (('h, 'm) gic_machine_scheme, unit) M" where
  "set_spi_trigger_level intid = bind_M (gets_M GIC) (\<lambda>gic. Gicv3_set_spi_trigger_level gic intid)"

definition set_spi_trigger_edge :: "u32 \<Rightarrow> (('h, 'm) gic_machine_scheme, unit) M" where
  "set_spi_trigger_edge intid = bind_M (gets_M GIC) (\<lambda>gic. Gicv3_set_spi_trigger_edge gic intid)"

definition set_spi_group :: "u32 \<Rightarrow> (('h, 'm) gic_machine_scheme, unit) M" where
  "set_spi_group intid = bind_M (gets_M GIC) (\<lambda>gic. Gicv3_set_spi_group gic intid)"

definition set_spi_routing :: "u32 \<Rightarrow> u64 \<Rightarrow> (('h, 'm) gic_machine_scheme, unit) M" where
  "set_spi_routing intid core_affinity =
     bind_M (gets_M GIC) (\<lambda>gic. Gicv3_set_spi_routing gic intid core_affinity)"

definition set_ppi_priority :: "u32 \<Rightarrow> u8 \<Rightarrow> (('h, 'm) gic_machine_scheme, unit) M" where
  "set_ppi_priority intid prio = bind_M (gets_M GIC) (\<lambda>gic. Gicv3_set_ppi_priority gic intid prio)"

definition set_ppi_group :: "u32 \<Rightarrow> (('h, 'm) gic_machine_scheme, unit) M" where
  "set_ppi_group intid = bind_M (gets_M GIC) (\<lambda>gic. Gicv3_set_ppi_group gic intid)"

definition enable_ppi :: "u32 \<Rightarrow> (('h, 'm) gic_machine_scheme, unit) M" where
  "enable_ppi intid = bind_M (gets_M GIC) (\<lambda>gic. Gicv3_enable_ppi gic intid)"

definition set_ppi_trigger_level :: "u32 \<Rightarrow> (('h, 'm) gic_machine_scheme, unit) M" where
  "set_ppi_trigger_level intid = bind_M (gets_M GIC) (\<lambda>gic. Gicv3_set_ppi_trigger_level gic intid)"

definition set_ppi_trigger_edge :: "u32 \<Rightarrow> (('h, 'm) gic_machine_scheme, unit) M" where
  "set_ppi_trigger_edge intid = bind_M (gets_M GIC) (\<lambda>gic. Gicv3_set_ppi_trigger_edge gic intid)"

definition set_priority_mask :: "u8 \<Rightarrow> (('h, 'm) machine_scheme, unit) M" where
  "set_priority_mask priority = msr ICC_PMR_EL1 (ucast priority)"

definition enable_grp1_ints :: "(('h, 'm) machine_scheme, unit) M" where
  "enable_grp1_ints =
     bind_M (mrs ICC_IGRPEN1_EL1) (\<lambda>tmp. seq_M (msr ICC_IGRPEN1_EL1 (tmp OR 1)) (barrier ISB_SY))"

text \<open>An address of \<open>cells\<close> 32-bit cells, read big-endian from \<open>ptr\<close>.\<close>

definition read_cells :: "u64 \<Rightarrow> u32 \<Rightarrow> (('h, 'm) machine_scheme, u64) M" where
  "read_cells ptr cells =
     fold_M (\<lambda>i addr. bind_M (checked_mul (of_nat i) 4) (\<lambda>off.
                      bind_M (read_be_u32 ptr off) (\<lambda>cell.
                      return_M (push_bit 32 addr OR ucast cell))))
       [0..<unat cells] 0"

text \<open>
  The two fragments that the \<open>setup\<close> functions of the UART and the timer share: the number of
  cells of an interrupt specifier, and the specifier itself, read into an array of four cells.
\<close>

definition interrupt_cells_of :: "platform_device \<Rightarrow> (('h, 'm) machine_scheme, u32) M" where
  "interrupt_cells_of intc =
     bind_M (find_property intc ''#interrupt-cells'') (\<lambda>found.
       case found of None \<Rightarrow> return_M 3
                   | Some cells_prop \<Rightarrow> read_be_u32 (prop_value cells_prop) 0)"

definition read_interrupt_info :: "u64 \<Rightarrow> u32 \<Rightarrow> (('h, 'm) machine_scheme, u32 list) M" where
  "read_interrupt_info ptr interrupt_cells =
     fold_M (\<lambda>i info. bind_M (read_be_u32 ptr (of_nat i * 4)) (\<lambda>cell. update_M info i cell))
       [0..<min (unat interrupt_cells) MAX_INTERRUPT_CELLS] (replicate MAX_INTERRUPT_CELLS 0)"

definition gic_setup :: "platform_device \<Rightarrow> (('h, 'm) gic_machine_scheme, unit) M" where
  "gic_setup dev =
     bind_M (get_parent_cells dev) (\<lambda>(addr_cells, size_cells).
     seq_M
       (bind_M (find_property dev ''reg'') (\<lambda>found.
        case found of
          None \<Rightarrow> return_M ()
        | Some reg_prop \<Rightarrow>
            bind_M (read_cells (prop_value reg_prop) addr_cells) (\<lambda>gicd_addr.
            bind_M (checked_add addr_cells size_cells) (\<lambda>cells.
            bind_M (checked_mul (ucast cells) 4) (\<lambda>gicr_off.
            bind_M (read_cells (prop_value reg_prop + gicr_off) addr_cells) (\<lambda>gicr_addr.
            init_gic gicd_addr gicr_addr))))))
       (seq_M (set_priority_mask 0xff) enable_grp1_ints))"

section \<open>Fields of registers\<close>

text \<open>What the priority and configuration updates mean: byte lanes and trigger bits.\<close>

definition set_byte :: "nat \<Rightarrow> u8 \<Rightarrow> u32 \<Rightarrow> u32" where
  "set_byte k b v = le_word ((to_le_bytes v)[k := b])"

definition set_trigger :: "nat \<Rightarrow> bool \<Rightarrow> u32 \<Rightarrow> u32" where
  "set_trigger k edge v = (if edge then set_bit (2 * k + 1) else unset_bit (2 * k + 1)) (unset_bit (2 * k) v)"

lemma bit_int_masks:
  "bit (255 :: int) n \<longleftrightarrow> n < 8" "bit (3 :: int) n \<longleftrightarrow> n < 2" "bit (2 :: int) n \<longleftrightarrow> n = 1"
proof -
  have "(255 :: int) = mask 8" "(3 :: int) = mask 2" by (simp_all add: mask_eq_exp_minus_1)
  then show "bit (255 :: int) n \<longleftrightarrow> n < 8" "bit (3 :: int) n \<longleftrightarrow> n < 2"
    by (simp_all only: bit_mask_iff possible_bit_int simp_thms)
  have "bit ((2 :: int) ^ 1) n \<longleftrightarrow> n = 1" by (auto simp only: bit_exp_iff possible_bit_int)
  then show "bit (2 :: int) n \<longleftrightarrow> n = 1" by simp
qed

lemma set_byte_masked:
  assumes "k < 4"
  shows "v AND NOT (push_bit (8 * k) 0xFF) OR push_bit (8 * k) (ucast b) = set_byte k b v"
proof (rule bit_word_eqI)
  fix n assume "n < LENGTH(32)"
  then have n: "n < 32" by simp
  have len: "length (to_le_bytes v) = 4" by simp
  show "bit (v AND NOT (push_bit (8 * k) 0xFF) OR push_bit (8 * k) (ucast b)) n = bit (set_byte k b v) n"
  proof (cases "n div 8 = k")
    case True
    then have "8 * k \<le> n" "n - 8 * k = n mod 8" by (auto simp: minus_mult_div_eq_mod)
    moreover have "n mod 8 < 8" by simp
    then have "n mod 8 < 32" by linarith
    ultimately show ?thesis using True n
      by (simp add: set_byte_def bit_le_word_iff bit_or_iff bit_and_iff bit_not_iff bit_push_bit_iff
          bit_ucast_iff bit_int_masks)
  next
    case False
    then have "\<not> (8 * k \<le> n \<and> n - 8 * k < 8)" by (auto simp: div_nat_eqI)
    moreover have "bit b (n - 8 * k) \<Longrightarrow> n - 8 * k < 8" by (auto dest: bit_imp_le_length)
    ultimately show ?thesis using False n
      by (auto simp: set_byte_def bit_le_word_iff bit_simps bit_int_masks bit_nth_to_le_bytes)
  qed
qed

lemma set_trigger_masked:
  assumes "k < 16"
  shows "v AND NOT (push_bit (2 * k) 0b11) = set_trigger k False v"
    and "v AND NOT (push_bit (2 * k) 0b11) OR push_bit (2 * k) 0b10 = set_trigger k True v"
proof -
  show "v AND NOT (push_bit (2 * k) 0b11) = set_trigger k False v"
    by (rule bit_word_eqI) (auto simp: set_trigger_def bit_simps bit_int_masks)
  show "v AND NOT (push_bit (2 * k) 0b11) OR push_bit (2 * k) 0b10 = set_trigger k True v"
    using assms by (intro bit_word_eqI) (auto simp: set_trigger_def bit_simps bit_int_masks)
qed

section \<open>Register arithmetic\<close>

lemma checked_mul_div [simp]:
  assumes "unat k \<le> unat c"
  shows "checked_mul (a div c) (k :: 'a::len word) = return_M (a div c * k)"
proof (rule checked_mul_ok)
  have "unat (a div c) * unat k \<le> unat a div unat c * unat c"
    using assms by (simp add: unat_div_distrib)
  also have "\<dots> \<le> unat a" by simp
  also have "\<dots> < 2 ^ LENGTH('a)" by (rule unat_bound)
  finally show "unat (a div c) * unat k < 2 ^ LENGTH('a)" .
qed

lemma checked_mul_mod [simp]:
  assumes "0 < unat c" and "unat c * unat k < 2 ^ LENGTH('a)"
  shows "checked_mul (a mod c) (k :: 'a::len word) = return_M (a mod c * k)"
proof (rule checked_mul_ok)
  have "unat (a mod c) * unat k \<le> unat c * unat k"
    using assms(1) by (simp add: unat_mod_distrib mult_le_mono1 less_imp_le)
  then show "unat (a mod c) * unat k < 2 ^ LENGTH('a)" using assms(2) by (rule le_less_trans)
qed

text \<open>Offsets of a register within a bank, as natural numbers.\<close>

lemma unat_reg_offset:
  "unat (ucast (intid div c * k :: u32) :: u64) = unat intid div unat c * unat k"
  if "unat k \<le> unat c" for intid c k :: u32
proof -
  have "unat intid div unat c * unat k \<le> unat intid div unat c * unat c" using that by simp
  also have "\<dots> \<le> unat intid" by simp
  finally have lt: "unat intid div unat c * unat k < 2 ^ 32" using unat_bound_u32 [of intid] by simp
  then have "unat (intid div c * k) = unat intid div unat c * unat k"
    using unat_mult_lem [of "intid div c" k] by (simp add: unat_div_distrib)
  with lt show ?thesis by (simp add: unsigned_ucast_eq take_bit_nat_eq_self_iff)
qed

lemma reg_offset_eq:
  "(ucast (intid div c * k :: u32) :: u64) = ucast k * ucast (intid div c)"
  if "unat k \<le> unat c" for intid c k :: u32
proof -
  have "(ucast (intid div c * k) :: u64) = of_nat (unat (intid div c) * unat k)"
    using unat_reg_offset [OF that, of intid] by (metis of_nat_unat ucast_id unat_div_distrib)
  then show ?thesis by (simp add: mult.commute)
qed

lemma unat_reg_index:
  "unat (ucast k * ucast (intid div c) :: u64) = unat intid div unat c * unat k"
  if "unat k \<le> unat c" for intid c k :: u32
  using unat_reg_offset [OF that, of intid] reg_offset_eq [OF that, of intid] by simp

text \<open>A register of a bank is addressable whenever the bank's base plus the interrupt number is.\<close>

lemma reg_index_fits:
  "unat base + unat bank + unat (ucast k * ucast (intid div c) :: u64) < 2 ^ 64"
  if "unat k \<le> unat c" "unat base + unat bank + unat intid < 2 ^ 64" for intid c k :: u32 and base bank :: u64
proof -
  have "unat intid div unat c * unat k \<le> unat intid div unat c * unat c" using that(1) by simp
  also have "\<dots> \<le> unat intid" by simp
  finally show ?thesis using that by (simp add: unat_reg_index)
qed

lemma unat_bit_shift:
  "unat (intid mod c * k) = unat intid mod unat c * unat k"
  if "0 < unat c" "unat c * unat k < 2 ^ 32" for intid c k :: u32
proof -
  have "unat intid mod unat c * unat k \<le> unat c * unat k"
    using that(1) by (simp add: less_imp_le)
  then have "unat (intid mod c) * unat k \<le> unat c * unat k"
    by (simp only: unat_mod_distrib)
  then have "unat (intid mod c) * unat k < 2 ^ LENGTH(32)"
    by (rule le_less_trans) (use that(2) in simp)
  then show ?thesis using unat_mult_lem [of "intid mod c" k] by (simp add: unat_mod_distrib)
qed

text \<open>Address computations that fit do not panic.\<close>

lemma unat_add_fits: "unat a + unat b < 2 ^ 64 \<Longrightarrow> unat (a + b :: u64) = unat a + unat b"
  using unat_add_lem [of a b] by simp

text \<open>The read-modify-write sequences of the driver, closed by a barrier.\<close>

lemma modify_program:
  "bind_M (read_mmio32 a 0) (\<lambda>v. seq_M (write_mmio32 a 0 (f v)) (barrier b)) s =
     (Inr (), effect [Modify32 a f, Fence b] s)"
  using effect_modify32 [of a f s, THEN arg_cong [where f = "effect [Fence b]"]]
  by (simp add: mmio_effects)

lemma set_bits_program:
  "seq_M (set_mmio_bits32 a off bits) (barrier b) s = (Inr (), effect [Modify32 (a + off) (\<lambda>v. v OR bits), Fence b] s)"
  by (simp add: mmio_effects)

lemma write_program:
  "seq_M (write_mmio32 a 0 v) (barrier b) s = (Inr (), effect [Write32 a v, Fence b] s)"
  by (simp add: mmio_effects)

section \<open>The operations as register programs\<close>

lemma bit_shift_bounds: "unat intid mod 4 * 8 < 32" "unat intid mod 16 * 2 < 32" for intid :: u32
proof -
  have "unat intid mod 4 < 4" "unat intid mod 16 < 16" by simp_all
  then show "unat intid mod 4 * 8 < 32" "unat intid mod 16 * 2 < 32" by linarith+
qed

lemma set_byte_fun:
  "(\<lambda>v. (v AND NOT (push_bit (unat intid mod 4 * 8) 0xFF)) OR push_bit (unat intid mod 4 * 8) (ucast prio))
     = set_byte (unat intid mod 4) prio" for intid :: u32
  using set_byte_masked [of "unat intid mod 4"] by (simp add: mult.commute)

lemma set_trigger_fun:
  "(\<lambda>v. v AND NOT (push_bit (unat intid mod 16 * 2) 0b11)) = set_trigger (unat intid mod 16) False"
  "(\<lambda>v. v AND NOT (push_bit (unat intid mod 16 * 2) 0b11) OR push_bit (unat intid mod 16 * 2) 0b10)
     = set_trigger (unat intid mod 16) True" for intid :: u32
  using set_trigger_masked [of "unat intid mod 16"] by (simp_all add: mult.commute)

lemmas gic_program = gic_consts unat_bit_shift bit_shift_bounds reg_offset_eq unat_add_fits
  modify_program set_byte_fun set_trigger_fun set_bits_program

text \<open>Distributor: the interrupt's register is number \<open>intid div n\<close> of its bank.\<close>

lemma Gicv3_set_spi_priority_program:
  assumes "unat (dist_addr g) + 0x400 + unat intid < 2 ^ 64"
  shows "Gicv3_set_spi_priority g intid prio s =
    (Inr (), effect [Modify32 (dist_addr g + 0x400 + 4 * ucast (intid div 4)) (set_byte (unat intid mod 4) prio),
                     Fence DSB_SY] s)"
  using reg_index_fits [where k = 4 and c = 4 and base = "dist_addr g" and bank = "0x400" and intid = intid] assms
  by (simp add: Gicv3_set_spi_priority_def gic_program)

lemma Gicv3_set_spi_trigger_level_program:
  assumes "unat (dist_addr g) + 0xC00 + unat intid < 2 ^ 64"
  shows "Gicv3_set_spi_trigger_level g intid s =
    (Inr (), effect [Modify32 (dist_addr g + 0xC00 + 4 * ucast (intid div 16)) (set_trigger (unat intid mod 16) False),
                     Fence DSB_SY] s)"
  using reg_index_fits [where k = 4 and c = 16 and base = "dist_addr g" and bank = "0xC00" and intid = intid] assms
  by (simp add: Gicv3_set_spi_trigger_level_def gic_program)

lemma Gicv3_set_spi_trigger_edge_program:
  assumes "unat (dist_addr g) + 0xC00 + unat intid < 2 ^ 64"
  shows "Gicv3_set_spi_trigger_edge g intid s =
    (Inr (), effect [Modify32 (dist_addr g + 0xC00 + 4 * ucast (intid div 16)) (set_trigger (unat intid mod 16) True),
                     Fence DSB_SY] s)"
  using reg_index_fits [where k = 4 and c = 16 and base = "dist_addr g" and bank = "0xC00" and intid = intid] assms
  by (simp add: Gicv3_set_spi_trigger_edge_def gic_program)

lemma unat_mod_32_less: "unat (intid mod 32) < 32" for intid :: u32
  by (simp add: unat_mod_distrib)

lemma Gicv3_enable_spi_program:
  assumes "unat (dist_addr g) + 0x100 + unat intid < 2 ^ 64"
  shows "Gicv3_enable_spi g intid s =
    (Inr (), effect [Write32 (dist_addr g + 0x100 + 4 * ucast (intid div 32)) (push_bit (unat intid mod 32) 1),
                     Fence DSB_SY] s)"
  using reg_index_fits [where k = 4 and c = 32 and base = "dist_addr g" and bank = "0x100" and intid = intid] assms
  by (simp add: Gicv3_enable_spi_def gic_program write_program unat_mod_distrib)

lemma Gicv3_set_spi_group_program:
  assumes "unat (dist_addr g) + 0x080 + unat intid < 2 ^ 64"
  shows "Gicv3_set_spi_group g intid s =
    (Inr (), effect [Modify32 (dist_addr g + 0x080 + 4 * ucast (intid div 32)) (set_bit (unat intid mod 32)),
                     Fence DSB_SY] s)"
  using reg_index_fits [where k = 4 and c = 32 and base = "dist_addr g" and bank = "0x080" and intid = intid] assms
  by (simp add: Gicv3_set_spi_group_def gic_program unat_mod_distrib set_bit_eq_or [abs_def])

lemma Gicv3_set_spi_routing_program:
  assumes "unat (dist_addr g) + 0x6100 + 8 * unat intid < 2 ^ 64"
  shows "Gicv3_set_spi_routing g intid aff s =
    (Inr (), effect [Write64 (dist_addr g + 0x6100 + 8 * ucast intid) aff, Fence DSB_SY] s)"
proof -
  have "unat (8 * ucast intid :: u64) = 8 * unat intid"
    using unat_mult_lem [of "8 :: u64" "ucast intid"] assms by simp
  with assms show ?thesis
    by (simp add: Gicv3_set_spi_routing_def gic_program mmio_effects)
qed

text \<open>Redistributor: the SGI/PPI frame lies \<open>0x10000\<close> above its base.\<close>

lemma Gicv3_set_ppi_priority_program:
  assumes "unat (redist_addr g) + 0x10400 + unat intid < 2 ^ 64"
  shows "Gicv3_set_ppi_priority g intid prio s =
    (Inr (), effect [Modify32 (redist_addr g + 0x10400 + 4 * ucast (intid div 4)) (set_byte (unat intid mod 4) prio),
                     Fence DSB_SY] s)"
  using reg_index_fits [where k = 4 and c = 4 and base = "redist_addr g" and bank = "0x10400" and intid = intid] assms
  by (simp add: Gicv3_set_ppi_priority_def gic_program add.commute [of "redist_addr g" "0x10400"])

lemma Gicv3_set_ppi_trigger_level_program:
  assumes "unat (redist_addr g) + 0x10C00 + unat intid < 2 ^ 64"
  shows "Gicv3_set_ppi_trigger_level g intid s =
    (Inr (), effect [Modify32 (redist_addr g + 0x10C00 + 4 * ucast (intid div 16)) (set_trigger (unat intid mod 16) False),
                     Fence DSB_SY] s)"
  using reg_index_fits [where k = 4 and c = 16 and base = "redist_addr g" and bank = "0x10C00" and intid = intid] assms
  by (simp add: Gicv3_set_ppi_trigger_level_def gic_program add.commute [of "redist_addr g" "0x10C00"])

lemma Gicv3_set_ppi_trigger_edge_program:
  assumes "unat (redist_addr g) + 0x10C00 + unat intid < 2 ^ 64"
  shows "Gicv3_set_ppi_trigger_edge g intid s =
    (Inr (), effect [Modify32 (redist_addr g + 0x10C00 + 4 * ucast (intid div 16)) (set_trigger (unat intid mod 16) True),
                     Fence DSB_SY] s)"
  using reg_index_fits [where k = 4 and c = 16 and base = "redist_addr g" and bank = "0x10C00" and intid = intid] assms
  by (simp add: Gicv3_set_ppi_trigger_edge_def gic_program add.commute [of "redist_addr g" "0x10C00"])

text \<open>The group and enable registers of the redistributor are single registers: a number past 31 panics.\<close>

lemma Gicv3_set_ppi_group_program:
  assumes "unat (redist_addr g) + 0x10080 < 2 ^ 64"
  shows "Gicv3_set_ppi_group g intid s =
    (if unat intid < 32
     then (Inr (), effect [Modify32 (redist_addr g + 0x10080) (set_bit (unat intid)), Fence DSB_SY] s)
     else (Inl Panic, s))"
  using assms by (simp add: Gicv3_set_ppi_group_def gic_program add.commute [of "redist_addr g" "0x10080"] checked_shl_def set_bit_eq_or [abs_def])

lemma Gicv3_enable_ppi_program:
  assumes "unat (redist_addr g) + 0x10100 < 2 ^ 64"
  shows "Gicv3_enable_ppi g intid s =
    (if unat intid < 32
     then (Inr (), effect [Modify32 (redist_addr g + 0x10100) (set_bit (unat intid)), Fence DSB_SY] s)
     else (Inl Panic, s))"
  using assms by (simp add: Gicv3_enable_ppi_def gic_program add.commute [of "redist_addr g" "0x10100"] checked_shl_def set_bit_eq_or [abs_def])

lemmas gic_method_programs =
  Gicv3_set_spi_priority_program Gicv3_set_spi_trigger_level_program Gicv3_set_spi_trigger_edge_program
  Gicv3_enable_spi_program Gicv3_set_spi_group_program Gicv3_set_spi_routing_program
  Gicv3_set_ppi_priority_program Gicv3_set_ppi_trigger_level_program Gicv3_set_ppi_trigger_edge_program
  Gicv3_set_ppi_group_program Gicv3_enable_ppi_program

lemmas gic_wrapper_defs = enable_spi_def set_spi_priority_def set_spi_trigger_level_def
  set_spi_trigger_edge_def set_spi_group_def set_spi_routing_def set_ppi_priority_def set_ppi_group_def
  enable_ppi_def set_ppi_trigger_level_def set_ppi_trigger_edge_def

lemma GIC_effect [simp]: "GIC (effect ops s) = GIC s"
  by (simp add: effect_def)

lemma dt_effect [simp]:
  "DEVICE_TABLE (effect ops s) = DEVICE_TABLE s" "DEVICE_COUNT (effect ops s) = DEVICE_COUNT s"
  "PHANDLE_TABLE (effect ops s) = PHANDLE_TABLE s" "PHANDLE_COUNT (effect ops s) = PHANDLE_COUNT s"
  by (simp_all add: effect_def)

lemma dt_facts_effect [simp]:
  "tables_ok (effect ops s) = tables_ok s" "phandle_device (effect ops s) ph = phandle_device s ph"
  "cell_at (effect ops s) p v = cell_at s p v"
  by (simp_all add: tables_ok_def phandle_device_def cell_at_def)

section \<open>Setting up the controller\<close>

text \<open>The address a list of cells stands for: each cell shifts the earlier ones up by 32 bits.\<close>

definition cells_value :: "u32 list \<Rightarrow> u64" where
  "cells_value cs = foldl (\<lambda>addr cell. push_bit 32 addr OR ucast cell) 0 cs"

definition cells_bytes :: "u32 list \<Rightarrow> u8 list" where
  "cells_bytes cs = concat (map to_be_bytes cs)"

lemma cells_bytes_simps [simp]:
  "cells_bytes [] = []" "cells_bytes (c # cs) = to_be_bytes c @ cells_bytes cs"
  "cells_bytes (cs @ cs') = cells_bytes cs @ cells_bytes cs'"
  by (simp_all add: cells_bytes_def)

lemma length_to_be_bytes [simp]: "length (to_be_bytes (w :: 'a::len word)) = LENGTH('a) div 8"
  by (simp add: to_be_bytes_def)

lemma length_cells_bytes [simp]: "length (cells_bytes cs) = 4 * length cs"
  by (induction cs) simp_all

lemma read_cells_fold:
  assumes "holds_bytes (ram s) (ptr + 4 * of_nat k) (cells_bytes cs)" and "k + length cs \<le> 2 ^ 32"
  shows "fold_M (\<lambda>i addr. bind_M (checked_mul (of_nat i) 4) (\<lambda>off. bind_M (read_be_u32 ptr off) (\<lambda>cell.
             return_M (push_bit 32 addr OR ucast cell)))) [k..<k + length cs] a s
    = (Inr (foldl (\<lambda>addr cell. push_bit 32 addr OR ucast cell) a cs), s)"
  using assms
proof (induction cs arbitrary: k a)
  case Nil
  then show ?case by simp
next
  case (Cons c cs)
  have upt: "[k..<k + length (c # cs)] = k # [Suc k..<Suc k + length cs]"
    using upt_conv_Cons [of k "Suc (k + length cs)"] by (simp del: upt_Suc)
  have k: "k < 2 ^ 32" using Cons.prems(2) by simp
  then have "unat (of_nat k :: u64) * unat (4 :: u64) < 2 ^ 64"
    by (simp add: unat_of_nat)
  moreover have "read_be_u32 ptr (of_nat k * 4) s = (Inr c, s)"
    using Cons.prems(1) by (intro read_be_u32_holds) (simp add: holds_bytes_append mult.commute)
  moreover have "holds_bytes (ram s) (ptr + 4 * of_nat (Suc k)) (cells_bytes cs)"
    using Cons.prems(1) by (simp add: holds_bytes_append algebra_simps)
  ultimately show ?case
    unfolding upt using Cons.prems(2) Cons.IH [of "Suc k"] by simp
qed

lemma read_cells_holds:
  assumes "holds_bytes (ram s) ptr (cells_bytes cs)" and "length cs = unat n"
  shows "read_cells ptr n s = (Inr (cells_value cs), s)"
  using read_cells_fold [of s ptr 0 cs 0] assms unat_bound_u32 [of n]
  by (simp add: read_cells_def cells_value_def)

lemma read_interrupt_fold:
  assumes "holds_bytes (ram s) (ptr + 4 * of_nat (length xs)) (cells_bytes cs)"
  shows "fold_M (\<lambda>i info. bind_M (read_be_u32 ptr (of_nat i * 4)) (\<lambda>cell. update_M info i cell))
      [length xs..<length xs + length cs] (xs @ replicate (length cs + k) 0) s
    = (Inr (xs @ cs @ replicate k 0), s)"
  using assms
proof (induction cs arbitrary: xs)
  case (Cons c cs)
  have upt: "[length xs..<length xs + length (c # cs)] = length xs # [length (xs @ [c])..<length (xs @ [c]) + length cs]"
    using upt_conv_Cons [of "length xs" "Suc (length xs + length cs)"] by (simp del: upt_Suc)
  have "read_be_u32 ptr (of_nat (length xs) * 4) s = (Inr c, s)"
    using Cons.prems by (intro read_be_u32_holds) (simp add: holds_bytes_append mult.commute)
  moreover have "holds_bytes (ram s) (ptr + 4 * of_nat (length (xs @ [c]))) (cells_bytes cs)"
    using Cons.prems by (simp add: holds_bytes_append algebra_simps)
  ultimately show ?case
    unfolding upt using Cons.IH [of "xs @ [c]"] by simp
qed simp

text \<open>The specifier's first four cells, padded with zeros.\<close>

lemma read_interrupt_info_holds:
  assumes "holds_bytes (ram s) ptr (cells_bytes cs)" and "length cs = min (unat n) 4"
  shows "read_interrupt_info ptr n s = (Inr (cs @ replicate (4 - length cs) 0), s)"
proof -
  have "length cs + (4 - length cs) = 4" using assms(2) by simp
  then show ?thesis
    using read_interrupt_fold [of s ptr "[]" cs "4 - length cs"] assms
    by (simp add: read_interrupt_info_def MAX_INTERRUPT_CELLS_def)
qed

lemma init_gic_program:
  assumes "busy_after k (children_asleep \<lparr>dist_addr = d, redist_addr = r\<rparr>)
      (effect [Modify32 d (\<lambda>v. v OR 6), Fence DSB_SY, Modify32 (r + 0x14) (\<lambda>v. v AND NOT 2), Fence DSB_SY]
         (s\<lparr>GIC := \<lparr>dist_addr = d, redist_addr = r\<rparr>\<rparr>)) t"
    and "k < spin s"
  shows "init_gic d r s = (Inr (), t)"
proof -
  obtain d0 r0 where "GIC s = \<lparr>dist_addr = d0, redist_addr = r0\<rparr>"
    by (cases "GIC s")
  with while_M_ends [OF assms(1)] assms(2) show ?thesis
    by (simp add: init_gic_def Gicv3_init_gic_distributor_def Gicv3_init_gic_redistributor_def
        mmio_effects gic_consts)
qed

lemma cpu_interface_program:
  "seq_M (set_priority_mask m) enable_grp1_ints t =
    (Inr (), effect [Msr ICC_PMR_EL1 (ucast m), ModifySys ICC_IGRPEN1_EL1 (\<lambda>v. v OR 1), Fence ISB_SY] t)"
proof -
  let ?t = "effect [Msr ICC_PMR_EL1 (ucast m)] t"
  have "effect [Fence ISB_SY] (effect [Msr ICC_IGRPEN1_EL1 (peek_sys ?t ICC_IGRPEN1_EL1 OR 1)]
      (effect [Mrs ICC_IGRPEN1_EL1] ?t)) =
    effect [Fence ISB_SY] (effect [ModifySys ICC_IGRPEN1_EL1 (\<lambda>v. v OR 1)] ?t)"
    by (simp only: effect_modify_sys [of ICC_IGRPEN1_EL1 "\<lambda>v. v OR 1" ?t])
  then show ?thesis
    by (simp add: set_priority_mask_def enable_grp1_ints_def mmio_effects)
qed

section \<open>Properties\<close>

text \<open>
  C24. Priority updates touch one byte. Setting the priority of an SPI is one read-modify-write of register
  \<open>intid div 4\<close> of the distributor's priority bank followed by a barrier, and the new value of
  that register differs from the old in byte \<open>intid mod 4\<close> only, which becomes the priority. The
  same holds for a PPI or SGI in the redistributor's frame. This is for any hardware.
\<close>

theorem priority_updates_one_byte:
  assumes "unat (dist_addr (GIC s)) + 0x400 + unat intid < 2 ^ 64"
    and "unat (redist_addr (GIC s)) + 0x10400 + unat intid < 2 ^ 64"
  shows "\<exists>f. set_spi_priority intid prio s =
      (Inr (), effect [Modify32 (dist_addr (GIC s) + 0x400 + 4 * ucast (intid div 4)) f, Fence DSB_SY] s) \<and>
    set_ppi_priority intid prio s =
      (Inr (), effect [Modify32 (redist_addr (GIC s) + 0x10400 + 4 * ucast (intid div 4)) f, Fence DSB_SY] s) \<and>
    (\<forall>v. to_le_bytes (f v) = (to_le_bytes v)[unat intid mod 4 := prio])"
proof (intro exI conjI)
  show "\<forall>v. to_le_bytes (set_byte (unat intid mod 4) prio v) = (to_le_bytes v)[unat intid mod 4 := prio]"
    by (simp add: set_byte_def to_le_bytes_le_word)
qed (use assms in \<open>simp_all add: gic_wrapper_defs gic_method_programs\<close>)

text \<open>A machine with storing registers and the addresses of the QEMU \<open>virt\<close> board, for the witnesses.\<close>

definition gic_example :: "store_hw gic_machine" where
  "gic_example =
     \<lparr>bus = store_bus, hw = store_hw0, ram = (\<lambda>_. None), spin = 1,
      DEVICE_COUNT = 0, DEVICE_TABLE = [], PHANDLE_COUNT = 0, PHANDLE_TABLE = [],
      GIC = \<lparr>dist_addr = 0x8000000, redist_addr = 0x80A0000\<rparr>\<rparr>"

theorem priority_updates_one_byte_witness:
  "\<exists>f. set_spi_priority 33 0xA0 gic_example =
      (Inr (), effect [Modify32 (0x8000000 + 0x400 + 4 * ucast (33 div 4 :: u32)) f, Fence DSB_SY] gic_example) \<and>
    set_ppi_priority 33 0xA0 gic_example =
      (Inr (), effect [Modify32 (0x80A0000 + 0x10400 + 4 * ucast (33 div 4 :: u32)) f, Fence DSB_SY] gic_example) \<and>
    (\<forall>v. to_le_bytes (f v) = (to_le_bytes v)[1 := 0xA0])"
  using priority_updates_one_byte [of gic_example 33 "0xA0"] by (simp add: gic_example_def)

text \<open>
  C25. Trigger updates touch one two-bit field. Choosing level or edge for an SPI or a PPI is one
  read-modify-write of register \<open>intid div 16\<close> of the configuration bank and a barrier; in the new
  value the field of the interrupt is \<open>00\<close> (level) or \<open>10\<close> (edge) and every other bit is as before.
\<close>

theorem trigger_updates_one_field:
  assumes "unat (dist_addr (GIC s)) + 0xC00 + unat intid < 2 ^ 64"
    and "unat (redist_addr (GIC s)) + 0x10C00 + unat intid < 2 ^ 64"
  shows "\<exists>f. (set_spi_trigger_edge intid s, set_spi_trigger_level intid s) =
      ((Inr (), effect [Modify32 (dist_addr (GIC s) + 0xC00 + 4 * ucast (intid div 16)) (f True), Fence DSB_SY] s),
       (Inr (), effect [Modify32 (dist_addr (GIC s) + 0xC00 + 4 * ucast (intid div 16)) (f False), Fence DSB_SY] s)) \<and>
    (set_ppi_trigger_edge intid s, set_ppi_trigger_level intid s) =
      ((Inr (), effect [Modify32 (redist_addr (GIC s) + 0x10C00 + 4 * ucast (intid div 16)) (f True), Fence DSB_SY] s),
       (Inr (), effect [Modify32 (redist_addr (GIC s) + 0x10C00 + 4 * ucast (intid div 16)) (f False), Fence DSB_SY] s)) \<and>
    (\<forall>edge v n. bit (f edge v) n =
       (if n = 2 * (unat intid mod 16) then False
        else if n = 2 * (unat intid mod 16) + 1 then edge else bit v n))"
proof (intro exI conjI)
  have "unat intid mod 16 < 16" by simp
  then have "2 * (unat intid mod 16) + 1 < 32" by linarith
  then show "\<forall>edge v n. bit (set_trigger (unat intid mod 16) edge v) n =
       (if n = 2 * (unat intid mod 16) then False
        else if n = 2 * (unat intid mod 16) + 1 then edge else bit v n)"
    by (auto simp: set_trigger_def bit_simps)
qed (use assms in \<open>simp_all add: gic_wrapper_defs gic_method_programs\<close>)

theorem trigger_updates_one_field_witness:
  "\<exists>f. set_spi_trigger_edge 33 gic_example =
      (Inr (), effect [Modify32 (0x8000000 + 0xC00 + 4 * ucast (33 div 16 :: u32)) (f True), Fence DSB_SY] gic_example) \<and>
     (\<forall>edge v. bit (f edge v) 2 = False \<and> bit (f edge v) 3 = edge)"
  using trigger_updates_one_field [of gic_example 33] by (fastforce simp: gic_example_def)

text \<open>
  Enabling and grouping an SPI. Enabling writes a word with the single bit \<open>intid mod 32\<close> to set-enable
  register \<open>intid div 32\<close> (such a register ignores zero bits, so no other interrupt is affected);
  grouping sets that bit of group register \<open>intid div 32\<close> and keeps the others.
\<close>

lemma spi_enable_and_group:
  assumes "unat (dist_addr (GIC s)) + 0x100 + unat intid < 2 ^ 64"
  shows "enable_spi intid s =
      (Inr (), effect [Write32 (dist_addr (GIC s) + 0x100 + 4 * ucast (intid div 32)) (2 ^ (unat intid mod 32)),
                       Fence DSB_SY] s) \<and>
    set_spi_group intid s =
      (Inr (), effect [Modify32 (dist_addr (GIC s) + 0x080 + 4 * ucast (intid div 32)) (set_bit (unat intid mod 32)),
                       Fence DSB_SY] s)"
  using assms by (simp add: gic_wrapper_defs gic_method_programs push_bit_eq_mult)

lemma spi_enable_and_group_witness:
  "enable_spi 33 gic_example =
     (Inr (), effect [Write32 (0x8000000 + 0x100 + 4 * ucast (33 div 32 :: u32)) 2, Fence DSB_SY] gic_example)"
  using spi_enable_and_group [of gic_example 33] by (simp add: gic_example_def)

text \<open>
  C38. The routing register is the wrong one. The GICv3 places the routing register of SPI \<open>n\<close> at offset
  \<open>0x6000 + 8 * n\<close> of the distributor. \<open>set_spi_routing\<close> starts from \<open>0x6100\<close>, the register of the
  first SPI, and still adds \<open>8 * intid\<close> with \<open>intid\<close> counted from 0: it writes the
  register of interrupt \<open>intid + 32\<close> and leaves that of \<open>intid\<close> alone.
\<close>

theorem spi_routing_off_by_32:
  assumes "unat (dist_addr (GIC s)) + 0x6100 + 8 * unat intid < 2 ^ 64"
  shows "set_spi_routing intid aff s =
      (Inr (), effect [Write64 (dist_addr (GIC s) + 0x6000 + 8 * (ucast intid + 32)) aff, Fence DSB_SY] s) \<and>
    dist_addr (GIC s) + 0x6000 + 8 * (ucast intid + 32) \<noteq> dist_addr (GIC s) + 0x6000 + 8 * ucast intid"
proof
  have "(0x6100 + 8 * ucast intid :: u64) = 0x6000 + 8 * (ucast intid + 32)" by (simp add: distrib_left)
  then show "set_spi_routing intid aff s =
      (Inr (), effect [Write64 (dist_addr (GIC s) + 0x6000 + 8 * (ucast intid + 32)) aff, Fence DSB_SY] s)"
    using assms by (simp add: gic_wrapper_defs gic_method_programs add.assoc)
  show "dist_addr (GIC s) + 0x6000 + 8 * (ucast intid + 32) \<noteq> dist_addr (GIC s) + 0x6000 + 8 * ucast intid"
    by (simp only: distrib_left add_left_cancel) simp
qed

theorem spi_routing_off_by_32_witness:
  "set_spi_routing 33 0 gic_example =
     (Inr (), effect [Write64 (0x8000000 + 0x6000 + 8 * 65) 0, Fence DSB_SY] gic_example)"
  using spi_routing_off_by_32 [of gic_example 33 0] by (simp add: gic_example_def)

text \<open>
  A private interrupt number past 31 panics. Grouping or enabling a PPI or SGI sets bit \<open>intid\<close> of the
  one 32-bit register; for \<open>intid\<close> of 32 or more the shift panics and no register is touched.
\<close>

lemma ppi_number_checked:
  assumes "unat (redist_addr (GIC s)) + 0x10100 < 2 ^ 64"
  shows "(set_ppi_group intid s, enable_ppi intid s) =
    (if unat intid < 32
     then ((Inr (), effect [Modify32 (redist_addr (GIC s) + 0x10080) (set_bit (unat intid)), Fence DSB_SY] s),
           (Inr (), effect [Modify32 (redist_addr (GIC s) + 0x10100) (set_bit (unat intid)), Fence DSB_SY] s))
     else ((Inl Panic, s), (Inl Panic, s)))"
  using assms by (simp add: gic_wrapper_defs gic_method_programs)

lemma ppi_number_checked_witness:
  "set_ppi_group 32 gic_example = (Inl Panic, gic_example) \<and>
   enable_ppi 30 gic_example =
     (Inr (), effect [Modify32 (0x80A0000 + 0x10100) (set_bit 30), Fence DSB_SY] gic_example)"
  using ppi_number_checked [of gic_example 32] ppi_number_checked [of gic_example 30]
  by (simp add: gic_example_def)

text \<open>
  Setting up the controller. For a node whose \<open>reg\<close> property holds the distributor's address cells, its
  size cells and the redistributor's address cells, and a redistributor that reports the processor
  interface awake after \<open>k\<close> further polls, \<open>setup\<close> returns: the two addresses are the ones in the
  tree, Group 1 is enabled in the distributor, the processor-sleep bit is cleared before the wait, and then
  the priority mask is opened and Group 1 enabled in the CPU interface, in this order.
\<close>

lemma gic_setup_program:
  fixes ds zs rs :: "u32 list"
  defines "g \<equiv> \<lparr>dist_addr = cells_value ds, redist_addr = cells_value rs\<rparr>"
  assumes "get_parent_cells dev s = (Inr (ac, sc), s)"
    and "find_property dev ''reg'' s = (Inr (Some p), s)"
    and "length ds = unat ac" and "length zs = unat sc" and "length rs = unat ac"
    and "unat ac + unat sc < 2 ^ 32"
    and "holds_bytes (ram s) (prop_value p) (cells_bytes (ds @ zs @ rs))"
    and "busy_after k (children_asleep g)
      (effect [Modify32 (dist_addr g) (\<lambda>v. v OR 6), Fence DSB_SY,
               Modify32 (redist_addr g + 0x14) (\<lambda>v. v AND NOT 2), Fence DSB_SY] (s\<lparr>GIC := g\<rparr>)) t"
    and "k < spin s"
  shows "gic_setup dev s =
    (Inr (), effect [Msr ICC_PMR_EL1 0xff, ModifySys ICC_IGRPEN1_EL1 (\<lambda>v. v OR 1), Fence ISB_SY] t)"
proof -
  have ac_sc: "unat (ac + sc) = unat ac + unat sc"
    using assms(7) unat_add_lem [of ac sc] by simp
  have "(ucast (ac + sc) :: u64) = of_nat (unat ac + unat sc)"
    unfolding ac_sc [symmetric] by simp
  then have off: "(ucast (ac + sc) * 4 :: u64) = of_nat (length (cells_bytes (ds @ zs)))"
    using assms(4,5) by (simp add: algebra_simps)
  have "unat (ucast (ac + sc) :: u64) * unat (4 :: u64) < 2 ^ 64"
    using unat_bound_u32 [of "ac + sc"] by simp
  moreover have "read_cells (prop_value p) ac s = (Inr (cells_value ds), s)"
    using assms(4,8) by (intro read_cells_holds) (simp_all add: holds_bytes_append)
  moreover have "read_cells (prop_value p + ucast (ac + sc) * 4) ac s = (Inr (cells_value rs), s)"
    unfolding off using assms(6,8) by (intro read_cells_holds) (simp_all add: holds_bytes_append algebra_simps)
  moreover have "init_gic (cells_value ds) (cells_value rs) s = (Inr (), t)"
    using assms(9,10) by (intro init_gic_program) (simp_all add: g_def)
  ultimately show ?thesis using assms(2,3,7)
    by (simp add: gic_setup_def cpu_interface_program)
qed

definition gic_example_node :: platform_device where
  "gic_example_node =
     \<lparr>dev_parent = None, dev_name = ''intc@8000000'',
      dev_properties = [\<lparr>prop_name = ''reg'', prop_value = 0x1000, prop_len = 20\<rparr>], prop_count = 1\<rparr>"

definition gic_example_boot :: "store_hw gic_machine" where
  "gic_example_boot = gic_example
     \<lparr>ram := mem_at 0x1000 (cells_bytes [0, 0x8000000, 0x10000, 0, 0x80A0000]), GIC := Gicv3_new\<rparr>"

lemma gic_setup_program_witness:
  "\<exists>t. gic_setup gic_example_node gic_example_boot = (Inr (), t) \<and>
       GIC t = \<lparr>dist_addr = 0x8000000, redist_addr = 0x80A0000\<rparr>"
proof -
  let ?g = "\<lparr>dist_addr = cells_value [0, 0x8000000], redist_addr = cells_value [0, 0x80A0000]\<rparr>"
  let ?s = "effect [Modify32 (dist_addr ?g) (\<lambda>v. v OR 6), Fence DSB_SY,
      Modify32 (redist_addr ?g + 0x14) (\<lambda>v. v AND NOT 2), Fence DSB_SY] (gic_example_boot\<lparr>GIC := ?g\<rparr>)"
  have holds: "holds_bytes (ram gic_example_boot) 0x1000
      (cells_bytes ([0, 0x8000000] @ [0x10000] @ [0, 0x80A0000]))"
    using holds_bytes_mem_at [of "cells_bytes [0, 0x8000000, 0x10000, 0, 0x80A0000]" "0x1000"]
    by (simp add: gic_example_boot_def)
  have awake: "busy_after 0 (children_asleep ?g) ?s (effect [Read32 (redist_addr ?g + 0x14)] ?s)"
    by (simp add: children_asleep_def read_mmio32_effect gic_consts peek32_def effect_def run_regops_def
        gic_example_boot_def gic_example_def store_bus_def store_hw0_def cells_value_def)
  show ?thesis
    using gic_setup_program [of gic_example_node gic_example_boot 2 1
        "\<lparr>prop_name = ''reg'', prop_value = 0x1000, prop_len = 20\<rparr>"
        "[0, 0x8000000]" "[0x10000]" "[0, 0x80A0000]" 0, OF _ _ _ _ _ _ _ awake] holds
    by (simp add: get_parent_cells_def find_property_def gic_example_node_def cells_value_def
        gic_example_boot_def gic_example_def)
qed

end
