(* ===== verification/Arch_Timer.thy ===== *)
theory Arch_Timer
  imports Gicv3
begin

text \<open>
  \<^verbatim>\<open>src/drivers/timer/arch_timer.rs\<close>: the non-secure physical timer. Each accessor is one system
  register access; arming computes a tick count from the counter frequency.
\<close>

section \<open>Operations\<close>

definition CTL_ENABLE :: u64 where "CTL_ENABLE = 1"
definition CTL_IMASK :: u64 where "CTL_IMASK = 2"
definition CTL_ISTATUS :: u64 where "CTL_ISTATUS = 4"

definition get_frequency :: "(('h, 'm) machine_scheme, u64) M" where
  "get_frequency = mrs CNTFRQ_EL0"

definition get_counter :: "(('h, 'm) machine_scheme, u64) M" where
  "get_counter = mrs CNTPCT_EL0"

definition set_timer_value :: "u32 \<Rightarrow> (('h, 'm) machine_scheme, unit) M" where
  "set_timer_value tval = msr CNTP_TVAL_EL0 (ucast tval)"

definition get_timer_value :: "(('h, 'm) machine_scheme, u32) M" where
  "get_timer_value = bind_M (mrs CNTP_TVAL_EL0) (\<lambda>tval. return_M (ucast tval))"

definition set_compare_value :: "u64 \<Rightarrow> (('h, 'm) machine_scheme, unit) M" where
  "set_compare_value cval = msr CNTP_CVAL_EL0 cval"

definition get_compare_value :: "(('h, 'm) machine_scheme, u64) M" where
  "get_compare_value = mrs CNTP_CVAL_EL0"

definition get_ctl :: "(('h, 'm) machine_scheme, u64) M" where
  "get_ctl = mrs CNTP_CTL_EL0"

definition set_ctl :: "u64 \<Rightarrow> (('h, 'm) machine_scheme, unit) M" where
  "set_ctl ctl = seq_M (msr CNTP_CTL_EL0 ctl) (barrier ISB_SY)"

definition timer_enable :: "(('h, 'm) machine_scheme, unit) M" where
  "timer_enable = bind_M get_ctl (\<lambda>ctl. set_ctl (ctl OR CTL_ENABLE))"

definition timer_disable :: "(('h, 'm) machine_scheme, unit) M" where
  "timer_disable = bind_M get_ctl (\<lambda>ctl. set_ctl (ctl AND NOT CTL_ENABLE))"

definition mask_interrupt :: "(('h, 'm) machine_scheme, unit) M" where
  "mask_interrupt = bind_M get_ctl (\<lambda>ctl. set_ctl (ctl OR CTL_IMASK))"

definition unmask_interrupt :: "(('h, 'm) machine_scheme, unit) M" where
  "unmask_interrupt = bind_M get_ctl (\<lambda>ctl. set_ctl (ctl AND NOT CTL_IMASK))"

definition is_pending :: "(('h, 'm) machine_scheme, bool) M" where
  "is_pending = bind_M get_ctl (\<lambda>ctl. return_M (ctl AND CTL_ISTATUS \<noteq> 0))"

definition arm :: "u32 \<Rightarrow> (('h, 'm) machine_scheme, unit) M" where
  "arm ticks = seq_M (set_timer_value ticks) (set_ctl CTL_ENABLE)"

definition arm_ms :: "u32 \<Rightarrow> (('h, 'm) machine_scheme, unit) M" where
  "arm_ms ms =
     bind_M get_frequency (\<lambda>freq.
     bind_M (checked_mul (freq div 1000) (ucast ms)) (\<lambda>ticks.
     arm (ucast ticks)))"

definition rearm :: "u32 \<Rightarrow> (('h, 'm) machine_scheme, unit) M" where
  "rearm ticks = set_timer_value ticks"

text \<open>The part of \<open>setup\<close> that configures the interrupt once its specifier is read.\<close>

definition configure_ppi :: "u32 list \<Rightarrow> (('h, 'm) gic_machine_scheme, unit) M" where
  "configure_ppi interrupt_info =
     (if interrupt_info ! 0 = 1
      then bind_M (checked_add 16 (interrupt_info ! 1)) (\<lambda>ppi_id.
           block_M [if interrupt_info ! 2 AND 0x3 \<noteq> 0
                    then set_ppi_trigger_edge ppi_id else set_ppi_trigger_level ppi_id,
                    set_ppi_priority ppi_id 0x00,
                    set_ppi_group ppi_id,
                    enable_ppi ppi_id])
      else return_M ())"

definition timer_setup :: "platform_device \<Rightarrow> (('h, 'm) gic_machine_scheme, unit) M" where
  "timer_setup dev =
     bind_M (find_property dev ''interrupts'') (\<lambda>found.
     case found of
       None \<Rightarrow> return_M ()
     | Some int_prop \<Rightarrow>
         bind_M (find_interrupt_parent dev) (\<lambda>parent.
         case parent of
           None \<Rightarrow> return_M ()
         | Some intc \<Rightarrow>
             bind_M (interrupt_cells_of intc) (\<lambda>interrupt_cells.
             bind_M (checked_mul (ucast interrupt_cells) 4) (\<lambda>ns_offset.
             bind_M (read_interrupt_info (prop_value int_prop + ns_offset) interrupt_cells)
               configure_ppi))))"

section \<open>The operations as register programs\<close>

lemmas timer_defs = get_frequency_def set_timer_value_def get_ctl_def set_ctl_def arm_def rearm_def

lemma modify_sys_program:
  "bind_M (mrs r) (\<lambda>v. seq_M (msr r (f v)) (barrier b)) s = (Inr (), effect [ModifySys r f, Fence b] s)"
  using effect_modify_sys [of r f s, THEN arg_cong [where f = "effect [Fence b]"]]
  by (simp add: mmio_effects)

lemma arm_program: "arm ticks s = (Inr (), effect [Msr CNTP_TVAL_EL0 (ucast ticks), Msr CNTP_CTL_EL0 1, Fence ISB_SY] s)"
  by (simp add: timer_defs CTL_ENABLE_def mmio_effects)

text \<open>The tick count that \<open>arm_ms\<close> computes from a frequency, before it is cut to 32 bits.\<close>

definition ms_ticks :: "u64 \<Rightarrow> u32 \<Rightarrow> nat" where
  "ms_ticks freq ms = unat freq div 1000 * unat ms"

lemma arm_ms_program:
  "arm_ms ms s =
    (if ms_ticks (peek_sys s CNTFRQ_EL0) ms < 2 ^ 64
     then (Inr (), effect [Mrs CNTFRQ_EL0, Msr CNTP_TVAL_EL0 (of_nat (ms_ticks (peek_sys s CNTFRQ_EL0) ms mod 2 ^ 32)),
                           Msr CNTP_CTL_EL0 1, Fence ISB_SY] s)
     else (Inl Panic, effect [Mrs CNTFRQ_EL0] s))"
proof -
  let ?f = "peek_sys s CNTFRQ_EL0"
  let ?t = "?f div 1000 * ucast ms :: u64"
  have mul: "unat (?f div 1000) * unat ms = ms_ticks ?f ms"
    by (simp add: ms_ticks_def unat_div_distrib)
  show ?thesis
  proof (cases "ms_ticks ?f ms < 2 ^ 64")
    case True
    then have "unat ?t = ms_ticks ?f ms"
      using unat_mult_lem [of "?f div 1000" "ucast ms"] by (simp add: mul)
    then have "unat (ucast ?t :: u32) = ms_ticks ?f ms mod 2 ^ 32"
      by (simp add: unsigned_ucast_eq take_bit_eq_mod)
    then have "(ucast (ucast ?t :: u32) :: u64) = of_nat (ms_ticks ?f ms mod 2 ^ 32)"
      by (metis of_nat_unat)
    with True show ?thesis
      by (simp add: arm_ms_def arm_program get_frequency_def mmio_effects checked_mul_def mul)
  next
    case False
    then show ?thesis
      by (simp add: arm_ms_def get_frequency_def mmio_effects checked_mul_def mul)
  qed
qed

section \<open>Properties\<close>

text \<open>
  C26. The programmed interval. When the tick count fits the 32-bit timer value and \<open>ms\<close> is not zero, \<open>arm_ms\<close> reads the counter
  frequency, programs a number of ticks \<open>t\<close> and switches the timer on with its interrupt unmasked;
  \<open>t\<close> ticks last at most \<open>ms\<close> milliseconds and fall short of that by less than \<open>ms\<close> ticks.
\<close>

theorem arm_ms_interval:
  assumes "ms_ticks (peek_sys s CNTFRQ_EL0) ms < 2 ^ 32" and "0 < unat ms"
  shows "\<exists>t. arm_ms ms s = (Inr (), effect [Mrs CNTFRQ_EL0, Msr CNTP_TVAL_EL0 (of_nat t), Msr CNTP_CTL_EL0 1, Fence ISB_SY] s) \<and>
    t * 1000 \<le> unat (peek_sys s CNTFRQ_EL0) * unat ms \<and>
    unat (peek_sys s CNTFRQ_EL0) * unat ms < (t + unat ms) * 1000"
proof (intro exI conjI)
  let ?f = "peek_sys s CNTFRQ_EL0" and ?t = "ms_ticks (peek_sys s CNTFRQ_EL0) ms"
  show "arm_ms ms s = (Inr (), effect [Mrs CNTFRQ_EL0, Msr CNTP_TVAL_EL0 (of_nat ?t), Msr CNTP_CTL_EL0 1, Fence ISB_SY] s)"
    using assms(1) by (simp add: arm_ms_program)
  have "unat ?f div 1000 * 1000 \<le> unat ?f" by simp
  then show "?t * 1000 \<le> unat ?f * unat ms"
    by (simp add: ms_ticks_def mult.commute mult.left_commute)
  have "unat ?f < (unat ?f div 1000 + 1) * 1000" by simp
  then have "unat ?f * unat ms < (unat ?f div 1000 + 1) * 1000 * unat ms"
    using assms(2) by (simp only: mult_less_cancel2)
  then show "unat ?f * unat ms < (?t + unat ms) * 1000"
    by (simp add: ms_ticks_def algebra_simps)
qed

definition timer_example :: "store_hw machine" where
  "timer_example = \<lparr>bus = store_bus, hw = store_hw0\<lparr>sh_sys := (\<lambda>_. 0)(CNTFRQ_EL0 := 62500000)\<rparr>,
     ram = (\<lambda>_. None), spin = 1\<rparr>"

lemma timer_example_freq [simp]: "peek_sys timer_example CNTFRQ_EL0 = 62500000"
  by (simp add: peek_sys_def timer_example_def store_bus_def store_hw0_def)

theorem arm_ms_interval_witness:
  "\<exists>t. arm_ms 1000 timer_example =
      (Inr (), effect [Mrs CNTFRQ_EL0, Msr CNTP_TVAL_EL0 (of_nat t), Msr CNTP_CTL_EL0 1, Fence ISB_SY] timer_example) \<and>
     t * 1000 \<le> 62500000 * 1000 \<and> 62500000 * 1000 < (t + 1000) * 1000"
  using arm_ms_interval [of timer_example 1000] by (simp add: ms_ticks_def)

text \<open>
  The control register. Enabling, disabling, masking and unmasking the timer each read the control
  register once and write it back with exactly one bit set or cleared (bit 0 the enable, bit 1 the
  interrupt mask), followed by a barrier; \<open>is_pending\<close> reports bit 2 of the register and writes nothing.
\<close>

lemma timer_control_bits:
  "timer_enable s = (Inr (), effect [ModifySys CNTP_CTL_EL0 (set_bit 0), Fence ISB_SY] s) \<and>
   timer_disable s = (Inr (), effect [ModifySys CNTP_CTL_EL0 (unset_bit 0), Fence ISB_SY] s) \<and>
   mask_interrupt s = (Inr (), effect [ModifySys CNTP_CTL_EL0 (set_bit 1), Fence ISB_SY] s) \<and>
   unmask_interrupt s = (Inr (), effect [ModifySys CNTP_CTL_EL0 (unset_bit 1), Fence ISB_SY] s) \<and>
   is_pending s = (Inr (bit (peek_sys s CNTP_CTL_EL0) 2), effect [Mrs CNTP_CTL_EL0] s)"
proof -
  have set: "(\<lambda>v :: u64. v OR 1) = set_bit 0" "(\<lambda>v :: u64. v OR 2) = set_bit 1"
    by (simp_all add: set_bit_eq_or fun_eq_iff)
  have clear: "(\<lambda>v :: u64. v AND NOT 1) = unset_bit 0" "(\<lambda>v :: u64. v AND NOT 2) = unset_bit 1"
    by (simp_all add: unset_bit_eq_and_not fun_eq_iff)
  have pend: "v AND 4 \<noteq> 0 \<longleftrightarrow> bit v 2" for v :: u64
    using bit_iff_and_push_bit_not_eq_0 [of v 2] by (simp add: push_bit_eq_mult)
  show ?thesis
    using modify_sys_program [of CNTP_CTL_EL0 "\<lambda>v. v OR 1" ISB_SY s] modify_sys_program [of CNTP_CTL_EL0 "\<lambda>v. v OR 2" ISB_SY s]
      modify_sys_program [of CNTP_CTL_EL0 "\<lambda>v. v AND NOT 1" ISB_SY s]
      modify_sys_program [of CNTP_CTL_EL0 "\<lambda>v. v AND NOT 2" ISB_SY s]
    unfolding set clear timer_enable_def timer_disable_def mask_interrupt_def unmask_interrupt_def is_pending_def
      get_ctl_def set_ctl_def CTL_ENABLE_def CTL_IMASK_def CTL_ISTATUS_def
    by (simp add: mrs_effect pend)
qed

text \<open>What configuring a private interrupt comes to: trigger, priority 0, Group 1, enable.\<close>

definition ppi_program :: "usize \<Rightarrow> u32 \<Rightarrow> bool \<Rightarrow> regop list" where
  "ppi_program redist intid edge =
     [Modify32 (redist + 0x10C00 + 4 * ucast (intid div 16)) (set_trigger (unat intid mod 16) edge), Fence DSB_SY,
      Modify32 (redist + 0x10400 + 4 * ucast (intid div 4)) (set_byte (unat intid mod 4) 0), Fence DSB_SY,
      Modify32 (redist + 0x10080) (set_bit (unat intid)), Fence DSB_SY,
      Modify32 (redist + 0x10100) (set_bit (unat intid)), Fence DSB_SY]"

lemma configure_ppi_program:
  assumes "info ! 0 = 1" and "unat (info ! 1) < 16"
    and "unat (redist_addr (GIC s)) + 0x10C00 + 32 < 2 ^ 64"
  shows "configure_ppi info s = (Inr (), effect (ppi_program (redist_addr (GIC s)) (16 + info ! 1) (info ! 2 AND 3 \<noteq> 0)) s)"
proof -
  have fits: "unat (16 :: u32) + unat (info ! 1) < 2 ^ LENGTH(32)" using assms(2) by simp
  then have "unat (16 + info ! 1) = 16 + unat (info ! 1)"
    using unat_add_lem [of "16 :: u32" "info ! 1"] by simp
  with assms fits show ?thesis
    by (simp add: configure_ppi_def ppi_program_def gic_wrapper_defs gic_method_programs)
qed

text \<open>
  Setting up the timer. The timer node lists one interrupt specifier per timer; the driver takes the second
  (the non-secure physical timer), whatever the number \<open>n\<close> of cells per specifier. If that
  specifier names a private interrupt \<open>k < 16\<close>, \<open>setup\<close> returns after configuring interrupt
  \<open>16 + k\<close> in the redistributor: edge or level trigger as the flags say, highest priority,
  Group 1, enabled. Nothing else in the machine changes.
\<close>

lemma timer_setup_configures_second:
  assumes "find_property dev ''interrupts'' s = (Inr (Some p), s)"
    and "find_interrupt_parent dev s = (Inr (Some intc), s)"
    and "interrupt_cells_of intc s = (Inr n, s)"
    and "holds_bytes (ram s) (prop_value p) (cells_bytes (first_spec @ second_spec))"
    and "length first_spec = unat n" and "length second_spec = min (unat n) 4" and "3 \<le> unat n"
    and "second_spec ! 0 = 1" and "unat (second_spec ! 1) < 16"
    and "unat (redist_addr (GIC s)) + 0x10C00 + 32 < 2 ^ 64"
  shows "timer_setup dev s =
    (Inr (), effect (ppi_program (redist_addr (GIC s)) (16 + second_spec ! 1) (second_spec ! 2 AND 3 \<noteq> 0)) s)"
proof -
  let ?info = "second_spec @ replicate (4 - length second_spec) 0"
  have off: "(ucast n * 4 :: u64) = of_nat (length (cells_bytes first_spec))"
    using assms(5) by (simp add: mult.commute)
  have "unat (ucast n :: u64) * unat (4 :: u64) < 2 ^ 64"
    using unat_bound_u32 [of n] by simp
  moreover have "read_interrupt_info (prop_value p + ucast n * 4) n s = (Inr ?info, s)"
    unfolding off using assms(4,6) by (intro read_interrupt_info_holds) (simp_all add: holds_bytes_append)
  moreover have "?info ! 0 = second_spec ! 0" "?info ! 1 = second_spec ! 1" "?info ! 2 = second_spec ! 2"
    using assms(6,7) by (simp_all add: nth_append)
  moreover have "configure_ppi ?info s =
    (Inr (), effect (ppi_program (redist_addr (GIC s)) (16 + ?info ! 1) (?info ! 2 AND 3 \<noteq> 0)) s)"
    by (rule configure_ppi_program) (use assms calculation in simp_all)
  ultimately show ?thesis using assms(1,2,3) by (simp add: timer_setup_def)
qed

text \<open>A root node whose interrupt parent is the controller of phandle 1, and a timer node below it.\<close>

definition timer_example_dt :: "store_hw gic_machine" where
  "timer_example_dt = gic_example
     \<lparr>ram := mem_at 0x1000 (cells_bytes [1, 1, 13, 4, 1, 14, 4]),
      DEVICE_COUNT := 2,
      DEVICE_TABLE :=
        [\<lparr>dev_parent = None, dev_name = [],
          dev_properties = [\<lparr>prop_name = ''interrupt-parent'', prop_value = 0x1000, prop_len = 4\<rparr>], prop_count = 1\<rparr>,
         \<lparr>dev_parent = Some 0, dev_name = ''intc'', dev_properties = [], prop_count = 0\<rparr>],
      PHANDLE_COUNT := 1, PHANDLE_TABLE := [(1, 1)]\<rparr>"

definition timer_example_node :: platform_device where
  "timer_example_node =
     \<lparr>dev_parent = Some 0, dev_name = ''timer'',
      dev_properties = [\<lparr>prop_name = ''interrupts'', prop_value = 0x1004, prop_len = 24\<rparr>], prop_count = 1\<rparr>"

lemma timer_setup_configures_second_witness:
  "timer_setup timer_example_node timer_example_dt =
     (Inr (), effect (ppi_program 0x80A0000 30 False) timer_example_dt)"
proof -
  have mem: "holds_bytes (ram timer_example_dt) 0x1000 (cells_bytes ([1] @ [1, 13, 4, 1, 14, 4]))"
    using holds_bytes_mem_at [of "cells_bytes [1, 1, 13, 4, 1, 14, 4]" "0x1000"]
    by (simp add: timer_example_dt_def)
  then have "read_be_u32 0x1000 0 timer_example_dt = (Inr 1, timer_example_dt)"
    by (intro read_be_u32_holds) (simp add: holds_bytes_append)
  moreover have "holds_bytes (ram timer_example_dt) 0x1004 (cells_bytes ([1, 13, 4] @ [1, 14, 4]))"
    using mem by (simp add: holds_bytes_append)
  moreover have "find_property timer_example_node ''interrupts'' timer_example_dt =
      (Inr (Some \<lparr>prop_name = ''interrupts'', prop_value = 0x1004, prop_len = 24\<rparr>), timer_example_dt)"
    by (simp add: find_property_def timer_example_node_def)
  moreover have "find_interrupt_parent timer_example_node timer_example_dt =
      (Inr (Some \<lparr>dev_parent = Some 0, dev_name = ''intc'', dev_properties = [], prop_count = 0\<rparr>), timer_example_dt)"
    using calculation(1) by (simp add: find_interrupt_parent_def timer_example_node_def deref_device_def
        timer_example_dt_def find_device_by_phandle_def)
  ultimately show ?thesis
    using timer_setup_configures_second [of timer_example_node timer_example_dt
        "\<lparr>prop_name = ''interrupts'', prop_value = 0x1004, prop_len = 24\<rparr>"
        "\<lparr>dev_parent = Some 0, dev_name = ''intc'', dev_properties = [], prop_count = 0\<rparr>"
        3 "[1, 13, 4]" "[1, 14, 4]"]
    by (simp add: interrupt_cells_of_def find_property_def timer_example_dt_def gic_example_def)
qed

end
