(* ===== verification/Irq_Safe_Mutex.thy ===== *)
theory Irq_Safe_Mutex
  imports Utilities
begin

text \<open>
  \<^verbatim>\<open>src/ipc/irq_safe_mutex.rs\<close>. The first part models the calls as they run in one context:
  a mutex is a lock flag and its data, found in the state through a getter and a setter; the
  closure is a computation on the data. The second part models how the main code and an
  interrupt handler of the same core interleave, one instruction of the protocol per step, and
  shows what masking interrupts buys; the two are linked by a lemma for each statement of a call.
\<close>

section \<open>The operations\<close>

record 'a mutex =
  mutex_lock :: bool
  mutex_data :: 'a

definition Mutex_new :: "'a \<Rightarrow> 'a mutex" where
  "Mutex_new d = \<lparr>mutex_lock = False, mutex_data = d\<rparr>"

definition disable_irq :: "(('h, 'm) machine_scheme, u64) M" where
  "disable_irq = bind_M (mrs DAIF) (\<lambda>daif. seq_M (msr DAIFSet 2) (return_M daif))"

definition restore_interrupts :: "u64 \<Rightarrow> (('h, 'm) machine_scheme, unit) M" where
  "restore_interrupts daif = msr DAIF daif"

text \<open>\<open>compare_exchange(false, true).is_err()\<close>\<close>

definition compare_exchange_is_err ::
    "('s \<Rightarrow> 'a mutex) \<Rightarrow> ('a mutex \<Rightarrow> 's \<Rightarrow> 's) \<Rightarrow> ('s, bool) M" where
  "compare_exchange_is_err get put =
     (\<lambda>s. if mutex_lock (get s) then (Inr True, s)
          else (Inr False, put ((get s)\<lparr>mutex_lock := True\<rparr>) s))"

definition lock ::
    "(('h, 'm) machine_scheme \<Rightarrow> 'a mutex) \<Rightarrow>
     ('a mutex \<Rightarrow> ('h, 'm) machine_scheme \<Rightarrow> ('h, 'm) machine_scheme) \<Rightarrow>
     ('a \<Rightarrow> (('h, 'm) machine_scheme, 'r \<times> 'a) M) \<Rightarrow> (('h, 'm) machine_scheme, 'r) M" where
  "lock get put f =
     seq_M (while_M (compare_exchange_is_err get put))
       (bind_M (gets_M (\<lambda>s. mutex_data (get s))) (\<lambda>d.
        bind_M (f d) (\<lambda>(result, d').
        seq_M (modify_M (\<lambda>s. put ((get s)\<lparr>mutex_data := d'\<rparr>) s))
       (seq_M (modify_M (\<lambda>s. put ((get s)\<lparr>mutex_lock := False\<rparr>) s))
              (return_M result)))))"

definition lock_irqsafe ::
    "(('h, 'm) machine_scheme \<Rightarrow> 'a mutex) \<Rightarrow>
     ('a mutex \<Rightarrow> ('h, 'm) machine_scheme \<Rightarrow> ('h, 'm) machine_scheme) \<Rightarrow>
     ('a \<Rightarrow> (('h, 'm) machine_scheme, 'r \<times> 'a) M) \<Rightarrow> (('h, 'm) machine_scheme, 'r) M" where
  "lock_irqsafe get put f =
     bind_M disable_irq (\<lambda>daif_state.
     bind_M (lock get put f) (\<lambda>result.
     seq_M (restore_interrupts daif_state) (return_M result)))"

section \<open>The contract of a call in one context\<close>

text \<open>
  A place in the machine state where a mutex lives: the getter and the setter agree, and
  hardware operations and busy-waiting do not touch it.
\<close>

locale mutex_place =
  fixes get :: "('h, 'm) machine_scheme \<Rightarrow> 'a mutex"
    and put :: "'a mutex \<Rightarrow> ('h, 'm) machine_scheme \<Rightarrow> ('h, 'm) machine_scheme"
  assumes get_put: "get (put x s) = x"
    and put_put: "put x (put y s) = put x s"
    and put_get: "put (get s) s = s"
    and get_effect: "get (effect ops s) = get s"
    and put_effect: "put x (effect ops s) = effect ops (put x s)"
    and spin_put: "spin (put x s) = spin s"
    and hw_put: "hw (put x s) = hw s"
    and bus_put: "bus (put x s) = bus s"
begin

text \<open>On a free mutex the call runs the closure once, stores the data and frees the mutex.\<close>

lemma lock_free:
  assumes "\<not> mutex_lock (get s)" and "0 < spin s"
    and f: "f (mutex_data (get s)) (put ((get s)\<lparr>mutex_lock := True\<rparr>) s) = (Inr (r, d'), t)"
  shows "lock get put f s = (Inr r, put ((get t)\<lparr>mutex_data := d', mutex_lock := False\<rparr>) t)"
proof -
  let ?s = "put ((get s)\<lparr>mutex_lock := True\<rparr>) s"
  have "busy_after 0 (compare_exchange_is_err get put) s ?s"
    using assms(1) by (simp add: compare_exchange_is_err_def)
  then have "while_M (compare_exchange_is_err get put) s = (Inr (), ?s)"
    using assms(2) by (rule while_M_ends)
  then show ?thesis using f by (simp add: lock_def get_put put_put)
qed

text \<open>On a held mutex nobody else can free it in this context: the call never returns.\<close>

lemma poll_held: "mutex_lock (get s) \<Longrightarrow> poll_M n (compare_exchange_is_err get put) s = (Inl Hang, s)"
  by (induction n) (simp_all add: compare_exchange_is_err_def)

lemma lock_held: "mutex_lock (get s) \<Longrightarrow> lock get put f s = (Inl Hang, s)"
  by (simp add: lock_def while_M_def poll_held)

text \<open>The interrupt-safe call: mask, run, unlock, restore exactly the mask that was read.\<close>

lemma lock_irqsafe_free:
  assumes "\<not> mutex_lock (get s)" and "0 < spin s"
    and f: "f (mutex_data (get s)) (effect [Mrs DAIF, Msr DAIFSet 2] (put ((get s)\<lparr>mutex_lock := True\<rparr>) s))
              = (Inr (r, d'), t)"
  shows "lock_irqsafe get put f s =
    (Inr r, effect [Msr DAIF (peek_sys s DAIF)] (put ((get t)\<lparr>mutex_data := d', mutex_lock := False\<rparr>) t))"
proof -
  let ?s = "effect [Mrs DAIF, Msr DAIFSet 2] s"
  have dis: "disable_irq s = (Inr (peek_sys s DAIF), ?s)"
    by (simp add: disable_irq_def mrs_effect msr_effect)
  have "lock get put f ?s = (Inr r, put ((get t)\<lparr>mutex_data := d', mutex_lock := False\<rparr>) t)"
    by (rule lock_free) (use assms in \<open>simp_all add: get_effect put_effect\<close>)
  with dis show ?thesis by (simp add: lock_irqsafe_def restore_interrupts_def msr_effect)
qed

text \<open>So the outcome of a call depends on the closure only in the state in which it runs.\<close>

lemma lock_irqsafe_cong:
  assumes "\<not> mutex_lock (get s)" and "0 < spin s"
    and fg: "\<And>d. f d (effect [Mrs DAIF, Msr DAIFSet 2] (put ((get s)\<lparr>mutex_lock := True\<rparr>) s)) =
      g d (effect [Mrs DAIF, Msr DAIFSet 2] (put ((get s)\<lparr>mutex_lock := True\<rparr>) s))"
  shows "lock_irqsafe get put f s = lock_irqsafe get put g s"
proof -
  let ?s = "effect [Mrs DAIF, Msr DAIFSet 2] s"
  let ?t = "put ((get ?s)\<lparr>mutex_lock := True\<rparr>) ?s"
  have "busy_after 0 (compare_exchange_is_err get put) ?s ?t"
    using assms(1) by (simp add: compare_exchange_is_err_def get_effect)
  then have "while_M (compare_exchange_is_err get put) ?s = (Inr (), ?t)"
    using assms(2) by (intro while_M_ends) simp_all
  then have "lock get put f ?s = lock get put g ?s"
    using fg by (simp add: lock_def get_effect put_effect bind_M_def)
  then show ?thesis by (simp add: lock_irqsafe_def disable_irq_def mrs_effect msr_effect) (simp add: bind_M_def)
qed

text \<open>
  An invariant of the protected data and of the rest of the state: a call keeps both if its closure does, however it ends. The lock flag may
  stay set when the closure fails, the data is then as it was.
\<close>

lemma lock_irqsafe_preserves:
  assumes closure: "\<And>d. I d \<Longrightarrow> outcome (\<lambda>s. R s \<and> I (mutex_data (get s))) (f d)
      (\<lambda>(r, d') s. R s \<and> I (mutex_data (get s)) \<and> I d') (\<lambda>s. R s \<and> I (mutex_data (get s)))"
    and rest: "\<And>x s. R (put x s) = R s" "\<And>ops s. R (effect ops s) = R s"
  shows "preserves (\<lambda>s. R s \<and> I (mutex_data (get s))) (lock_irqsafe get put f)"
proof -
  let ?P = "\<lambda>s. R s \<and> I (mutex_data (get s))"
  have hw: "preserves ?P (mrs r)" "preserves ?P (msr r v)" for r v
    by (simp_all add: preserves_def mrs_effect msr_effect rest get_effect)
  have "preserves ?P (compare_exchange_is_err get put)"
    by (simp add: preserves_def compare_exchange_is_err_def get_put rest)
  then have "preserves ?P (poll_M n (compare_exchange_is_err get put))" for n
    by (induction n) (simp_all add: preserves_basic preserves_bind)
  then have spin: "preserves ?P (while_M (compare_exchange_is_err get put))" by (simp add: preserves_def while_M_def)
  have store: "preserves ?P (modify_M (\<lambda>s. put ((get s)\<lparr>mutex_lock := False\<rparr>) s))"
    by (simp add: preserves_def get_put rest)
  have body: "preserves ?P (bind_M (gets_M (\<lambda>s. mutex_data (get s))) (\<lambda>d. bind_M (f d) (\<lambda>(result, d').
      seq_M (modify_M (\<lambda>s. put ((get s)\<lparr>mutex_data := d'\<rparr>) s))
       (seq_M (modify_M (\<lambda>s. put ((get s)\<lparr>mutex_lock := False\<rparr>) s)) (return_M result)))))"
    unfolding preserves_def
  proof (intro allI impI)
    fix s assume s: "?P s"
    let ?d = "mutex_data (get s)"
    obtain r t where rt: "f ?d s = (r, t)" by fastforce
    have cl: "outcome ?P (f ?d) (\<lambda>(r, d') s. R s \<and> I (mutex_data (get s)) \<and> I d') ?P" using closure s by blast
    show "?P (snd (bind_M (gets_M (\<lambda>s. mutex_data (get s))) (\<lambda>d. bind_M (f d) (\<lambda>(result, d').
        seq_M (modify_M (\<lambda>s. put ((get s)\<lparr>mutex_data := d'\<rparr>) s))
         (seq_M (modify_M (\<lambda>s. put ((get s)\<lparr>mutex_lock := False\<rparr>) s)) (return_M result)))) s))"
    proof (cases r)
      case (Inl e)
      then show ?thesis using rt outcomeD_fail [OF cl s] by simp
    next
      case (Inr x)
      then show ?thesis using rt outcomeD [OF cl s, of x t] by (cases x) (simp add: get_put rest)
    qed
  qed
  show ?thesis
    unfolding lock_irqsafe_def lock_def disable_irq_def restore_interrupts_def
    by (intro preserves_bind preserves_seq preserves_basic hw spin store body)
qed

end

section \<open>The mask register\<close>

text \<open>
  The documented behaviour of the mask register: it reads what it holds; \<open>DAIFSet\<close> and \<open>DAIFClr\<close> set and clear the bits 6 to 9 that
  their four-bit operand names; nothing else changes it. \<open>daif\<close> gives the mask in a state of the hardware. Bit 7 masks interrupts.
\<close>

definition daif_ok :: "'h Machine.bus \<Rightarrow> ('h \<Rightarrow> u64) \<Rightarrow> bool" where
  "daif_ok b daif \<longleftrightarrow>
     (\<forall>h. cpu_mrs b DAIF h = (daif h, h) \<and> daif h AND 0x3C0 = daif h) \<and>
     (\<forall>h v. daif (cpu_msr b DAIF v h) = v AND 0x3C0) \<and>
     (\<forall>h v. daif (cpu_msr b DAIFSet v h) = daif h OR push_bit 6 (v AND 15)) \<and>
     (\<forall>h v. daif (cpu_msr b DAIFClr v h) = daif h AND NOT (push_bit 6 (v AND 15))) \<and>
     (\<forall>h v r. r \<notin> {DAIF, DAIFSet, DAIFClr} \<longrightarrow> daif (cpu_msr b r v h) = daif h) \<and>
     (\<forall>h f. daif (cpu_barrier b f h) = daif h) \<and>
     (\<forall>h a. daif (snd (bus_read32 b a h)) = daif h) \<and>
     (\<forall>h a v. daif (bus_write32 b a v h) = daif h)"

lemma daif_section:
  assumes ok: "daif_ok (bus s) daif"
  shows "daif (hw (effect [Mrs DAIF, Msr DAIFSet 2] s)) = daif (hw s) OR 0x80"
    and "daif (hw (effect [Mrs DAIF, Msr DAIFSet 2, Msr DAIF (peek_sys s DAIF)] s)) = daif (hw s)"
    and "daif (hw (effect [Mrs DAIF, Msr DAIFSet 2, Read32 a, Msr DAIF (peek_sys s DAIF)] s)) = daif (hw s)"
proof -
  have mask: "daif h AND 0x3C0 = daif h" for h using ok by (simp add: daif_ok_def)
  show "daif (hw (effect [Mrs DAIF, Msr DAIFSet 2] s)) = daif (hw s) OR 0x80"
    "daif (hw (effect [Mrs DAIF, Msr DAIFSet 2, Msr DAIF (peek_sys s DAIF)] s)) = daif (hw s)"
    "daif (hw (effect [Mrs DAIF, Msr DAIFSet 2, Read32 a, Msr DAIF (peek_sys s DAIF)] s)) = daif (hw s)"
    using ok by (simp_all add: daif_ok_def hw_effect run_regops_def peek_sys_def mask)
qed

lemma daif_steps:
  assumes ok: "daif_ok (bus s) daif"
  shows "peek_sys s DAIF = daif (hw s)" "daif (hw (effect [Mrs DAIF] s)) = daif (hw s)"
    "bit (daif (hw (effect [Msr DAIFSet 2] s))) 7" "bit (daif (hw (effect [Msr DAIF v] s))) 7 = bit v 7"
  using ok by (simp_all add: daif_ok_def hw_effect run_regops_def peek_sys_def bit_or_iff bit_and_iff)

section \<open>Interleaving with an interrupt handler on one core\<close>

text \<open>
  Where a context is inside a call: before it; after reading DAIF (the argument is the I bit
  that was read); at the compare-exchange; in the closure; after the lock is released. The
  option is the saved I bit of \<open>lock_irqsafe\<close>, \<open>None\<close> for a plain \<open>lock\<close>.
\<close>

datatype pc = Outside | Saved bool | Spinning "bool option" | Critical "bool option" | Unlocked "bool option"

text \<open>One step of a call, on its position, the lock flag and the core's I mask.\<close>

inductive ctx_step :: "bool \<Rightarrow> pc \<times> bool \<times> bool \<Rightarrow> pc \<times> bool \<times> bool \<Rightarrow> bool" where
  read_daif: "ctx_step True (Outside, l, m) (Saved m, l, m)"
| daifset: "ctx_step safe (Saved d, l, m) (Spinning (Some d), l, True)"
| plain_call: "ctx_step False (Outside, l, m) (Spinning None, l, m)"
| cas_ok: "ctx_step safe (Spinning d, False, m) (Critical d, True, m)"
| cas_err: "ctx_step safe (Spinning d, True, m) (Spinning d, True, m)"
| store_release: "ctx_step safe (Critical d, l, m) (Unlocked d, False, m)"
| restore_daif: "ctx_step safe (Unlocked (Some d), l, m) (Outside, l, d)"
| plain_return: "ctx_step safe (Unlocked None, l, m) (Outside, l, m)"

inductive_cases ctx_stepE: "ctx_step safe (p, l, m) (p', l', m')"
inductive_cases ctx_step_spin_heldE: "ctx_step safe (Spinning d, True, m) (p', l', m')"

text \<open>
  These are the steps of the calls of the first part. In a machine state a step sees the lock flag and bit 7 of the mask register; each
  statement of \<open>lock\<close> and \<open>lock_irqsafe\<close> makes the step of its name, and a whole call makes the chain of them.
\<close>

definition call_view :: "('s \<Rightarrow> 'a mutex) \<Rightarrow> ('h \<Rightarrow> u64) \<Rightarrow> ('s \<Rightarrow> 'h) \<Rightarrow> 's \<Rightarrow> bool \<times> bool" where
  "call_view get daif hardware s = (mutex_lock (get s), bit (daif (hardware s)) 7)"

context mutex_place
begin

lemma ctx_steps_of_statements:
  assumes ok: "daif_ok (bus s) daif"
  shows "mrs DAIF s = (Inr v, t) \<Longrightarrow>
      ctx_step True (Outside, call_view get daif hw s) (Saved (bit v 7), call_view get daif hw t)"
    and "msr DAIFSet 2 s = (Inr (), t) \<Longrightarrow>
      ctx_step safe (Saved d, call_view get daif hw s) (Spinning (Some d), call_view get daif hw t)"
    and "compare_exchange_is_err get put s = (Inr b, t) \<Longrightarrow>
      ctx_step safe (Spinning e, call_view get daif hw s) (if b then Spinning e else Critical e, call_view get daif hw t)"
    and "modify_M (\<lambda>s. put ((get s)\<lparr>mutex_lock := False\<rparr>) s) s = (Inr (), t) \<Longrightarrow>
      ctx_step safe (Critical e, call_view get daif hw s) (Unlocked e, call_view get daif hw t)"
    and "restore_interrupts v s = (Inr (), t) \<Longrightarrow>
      ctx_step safe (Unlocked (Some (bit v 7)), call_view get daif hw s) (Outside, call_view get daif hw t)"
  using daif_steps [OF ok]
  by (auto simp: call_view_def mrs_effect msr_effect restore_interrupts_def compare_exchange_is_err_def get_effect get_put hw_put
      intro: ctx_step.intros split: if_splits)

lemma lock_irqsafe_in_steps:
  fixes daif :: "'h \<Rightarrow> u64"
  assumes ok: "daif_ok (bus s) daif" and free: "\<not> mutex_lock (get s)" "0 < spin s"
    and s1: "s1 = effect [Mrs DAIF] s" and s2: "s2 = effect [Msr DAIFSet 2] s1"
    and s3: "s3 = put ((get s2)\<lparr>mutex_lock := True\<rparr>) s2"
    and f: "f (mutex_data (get s)) s3 = (Inr (r, d'), t)"
    and closure: "call_view get daif hw t = call_view get daif hw s3" "bus t = bus s3"
    and t1: "t1 = put ((get t)\<lparr>mutex_data := d'\<rparr>) t"
    and t2: "t2 = put ((get t1)\<lparr>mutex_lock := False\<rparr>) t1"
    and t3: "t3 = effect [Msr DAIF (daif (hw s))] t2"
    and m: "m = bit (daif (hw s)) 7"
  shows "lock_irqsafe get put f s = (Inr r, t3)"
    and "ctx_step True (Outside, call_view get daif hw s) (Saved m, call_view get daif hw s1)"
    and "ctx_step True (Saved m, call_view get daif hw s1) (Spinning (Some m), call_view get daif hw s2)"
    and "ctx_step True (Spinning (Some m), call_view get daif hw s2) (Critical (Some m), call_view get daif hw t1)"
    and "ctx_step True (Critical (Some m), call_view get daif hw t1) (Unlocked (Some m), call_view get daif hw t2)"
    and "ctx_step True (Unlocked (Some m), call_view get daif hw t2) (Outside, call_view get daif hw t3)"
proof -
  have peek: "peek_sys s DAIF = daif (hw s)" by (rule daif_steps(1) [OF ok])
  have "s3 = effect [Mrs DAIF, Msr DAIFSet 2] (put ((get s)\<lparr>mutex_lock := True\<rparr>) s)"
    unfolding s3 s2 s1 by (simp add: get_effect put_effect)
  from lock_irqsafe_free [where f = f, OF free f [unfolded this]] show "lock_irqsafe get put f s = (Inr r, t3)"
    unfolding t3 t2 t1 peek by (simp add: get_put put_put)
  have oks: "daif_ok (bus s1) daif" "daif_ok (bus s2) daif" "daif_ok (bus t1) daif" "daif_ok (bus t2) daif"
    using ok closure(2) unfolding s1 s2 s3 t1 t2 by (simp_all add: bus_put)
  show "ctx_step True (Outside, call_view get daif hw s) (Saved m, call_view get daif hw s1)"
    unfolding m by (rule ctx_steps_of_statements(1) [OF ok]) (simp add: mrs_effect peek s1)
  show "ctx_step True (Saved m, call_view get daif hw s1) (Spinning (Some m), call_view get daif hw s2)"
    by (rule ctx_steps_of_statements(2) [OF oks(1)]) (simp add: msr_effect s2)
  have "\<not> mutex_lock (get s2)" using free unfolding s2 s1 by (simp add: get_effect)
  then have "compare_exchange_is_err get put s2 = (Inr False, s3)" by (simp add: compare_exchange_is_err_def s3)
  from ctx_steps_of_statements(3) [OF oks(2) this]
  have "ctx_step True (Spinning (Some m), call_view get daif hw s2) (Critical (Some m), call_view get daif hw s3)" by simp
  moreover have "call_view get daif hw t1 = call_view get daif hw s3"
    using closure(1) unfolding t1 by (simp add: call_view_def get_put hw_put)
  ultimately show "ctx_step True (Spinning (Some m), call_view get daif hw s2) (Critical (Some m), call_view get daif hw t1)" by simp
  show "ctx_step True (Critical (Some m), call_view get daif hw t1) (Unlocked (Some m), call_view get daif hw t2)"
    by (rule ctx_steps_of_statements(4) [OF oks(3)]) (simp add: t2)
  show "ctx_step True (Unlocked (Some m), call_view get daif hw t2) (Outside, call_view get daif hw t3)"
    unfolding m by (rule ctx_steps_of_statements(5) [OF oks(4)]) (simp add: restore_interrupts_def msr_effect t3)
qed

end

text \<open>
  The core: the lock flag, the I mask, the main code's position, and, while an interrupt is
  being handled, the handler's position and the I bit saved in SPSR.
\<close>

record core =
  lock_flag :: bool
  masked :: bool
  main_pc :: pc
  isr :: "(pc \<times> bool) option"

definition core_init :: "bool \<Rightarrow> core" where
  "core_init m = \<lparr>lock_flag = False, masked = m, main_pc = Outside, isr = None\<rparr>"

inductive core_step :: "bool \<Rightarrow> core \<Rightarrow> core \<Rightarrow> bool" for safe where
  main_runs: "isr c = None \<Longrightarrow> ctx_step safe (main_pc c, lock_flag c, masked c) (p, l, m) \<Longrightarrow>
     core_step safe c (c\<lparr>main_pc := p, lock_flag := l, masked := m\<rparr>)"
| irq_taken: "isr c = None \<Longrightarrow> \<not> masked c \<Longrightarrow>
     core_step safe c (c\<lparr>isr := Some (Outside, masked c), masked := True\<rparr>)"
| isr_runs: "isr c = Some (q, spsr) \<Longrightarrow> ctx_step safe (q, lock_flag c, masked c) (p, l, m) \<Longrightarrow>
     core_step safe c (c\<lparr>isr := Some (p, spsr), lock_flag := l, masked := m\<rparr>)"
| eret: "isr c = Some (Outside, spsr) \<Longrightarrow>
     core_step safe c (c\<lparr>isr := None, masked := spsr\<rparr>)"

inductive_cases core_stepE: "core_step safe c c'"

inductive core_reachable :: "bool \<Rightarrow> core \<Rightarrow> bool" for safe where
  init: "core_reachable safe (core_init m)"
| step: "core_reachable safe c \<Longrightarrow> core_step safe c c' \<Longrightarrow> core_reachable safe c'"

text \<open>
  The invariant of the interrupt-safe protocol: whoever is past the mask runs masked; the
  handler only ever starts while the main code is outside the masked region; the flag is set
  exactly while one of the two is in its closure.
\<close>

definition quiet :: "pc \<Rightarrow> bool" where
  "quiet p \<longleftrightarrow> p = Outside \<or> (\<exists>d. p = Saved d)"

definition saved_bit :: "pc \<Rightarrow> bool option" where
  "saved_bit p = (case p of Outside \<Rightarrow> None | Saved d \<Rightarrow> Some d | Spinning d \<Rightarrow> d | Critical d \<Rightarrow> d | Unlocked d \<Rightarrow> d)"

definition in_closure :: "pc \<Rightarrow> bool" where
  "in_closure p \<longleftrightarrow> (\<exists>d. p = Critical d)"

definition core_inv :: "core \<Rightarrow> bool" where
  "core_inv c \<longleftrightarrow>
     (main_pc c \<noteq> Outside \<longrightarrow> saved_bit (main_pc c) \<noteq> None) \<and>
     (case isr c of
        None \<Rightarrow> (\<not> quiet (main_pc c) \<longrightarrow> masked c) \<and> (lock_flag c \<longleftrightarrow> in_closure (main_pc c))
      | Some (p, spsr) \<Rightarrow>
          quiet (main_pc c) \<and> masked c \<and> \<not> spsr \<and>
          (p \<noteq> Outside \<longrightarrow> saved_bit p = Some True) \<and>
          (lock_flag c \<longleftrightarrow> in_closure p))"

lemma core_inv_init: "core_inv (core_init m)"
  by (simp add: core_inv_def core_init_def quiet_def in_closure_def)

lemma core_inv_step: "core_step True c c' \<Longrightarrow> core_inv c \<Longrightarrow> core_inv c'"
  by (erule core_stepE; (erule ctx_stepE)?)
    (auto simp: core_inv_def quiet_def in_closure_def saved_bit_def)

lemma core_reachable_inv: "core_reachable True c \<Longrightarrow> core_inv c"
  by (induction rule: core_reachable.induct) (auto intro: core_inv_init core_inv_step)

text \<open>The steps on explicit states, to build runs.\<close>

lemma main_runs_explicit:
  "ctx_step safe (p, l, m) (p', l', m') \<Longrightarrow>
   core_step safe \<lparr>lock_flag = l, masked = m, main_pc = p, isr = None\<rparr>
                  \<lparr>lock_flag = l', masked = m', main_pc = p', isr = None\<rparr>"
  using core_step.main_runs [of "\<lparr>lock_flag = l, masked = m, main_pc = p, isr = None\<rparr>"] by simp

lemma irq_taken_explicit:
  "core_step safe \<lparr>lock_flag = l, masked = False, main_pc = p, isr = None\<rparr>
                  \<lparr>lock_flag = l, masked = True, main_pc = p, isr = Some (Outside, False)\<rparr>"
  using core_step.irq_taken [of "\<lparr>lock_flag = l, masked = False, main_pc = p, isr = None\<rparr>"] by simp

lemma isr_runs_explicit:
  "ctx_step safe (q, l, m) (q', l', m') \<Longrightarrow>
   core_step safe \<lparr>lock_flag = l, masked = m, main_pc = p, isr = Some (q, spsr)\<rparr>
                  \<lparr>lock_flag = l', masked = m', main_pc = p, isr = Some (q', spsr)\<rparr>"
  using core_step.isr_runs [of "\<lparr>lock_flag = l, masked = m, main_pc = p, isr = Some (q, spsr)\<rparr>"] by simp

lemma reachable_start:
  "core_reachable safe \<lparr>lock_flag = False, masked = m, main_pc = Outside, isr = None\<rparr>"
  using core_reachable.init [of safe m] by (simp add: core_init_def)

lemmas run_explicit = main_runs_explicit irq_taken_explicit isr_runs_explicit

section \<open>Properties\<close>

text \<open>
  C10. Interrupt-safe locking excludes and never waits on itself. In every state a core can reach when
  both the main code and the handler use \<open>lock_irqsafe\<close>: the main code and the handler are never
  both inside a closure; the lock flag is set exactly while one of them is; and whoever is running
  and about to compare-exchange finds the lock free, so its loop ends at the first attempt.
\<close>

theorem lock_irqsafe_exclusive_live:
  assumes "core_reachable True c"
  shows "\<not> (in_closure (main_pc c) \<and> (\<exists>p spsr. isr c = Some (p, spsr) \<and> in_closure p)) \<and>
    (lock_flag c \<longleftrightarrow> in_closure (main_pc c) \<or> (\<exists>p spsr. isr c = Some (p, spsr) \<and> in_closure p)) \<and>
    (\<forall>d. isr c = None \<and> main_pc c = Spinning d \<longrightarrow> \<not> lock_flag c) \<and>
    (\<forall>d spsr. isr c = Some (Spinning d, spsr) \<longrightarrow> \<not> lock_flag c)"
  using core_reachable_inv [OF assms]
  by (auto simp: core_inv_def in_closure_def quiet_def split: option.splits)

text \<open>The handler is about to compare-exchange, having interrupted the main code between its DAIF read and its mask.\<close>

lemma isr_spinning_reachable:
  "core_reachable True
     \<lparr>lock_flag = False, masked = True, main_pc = Saved False, isr = Some (Spinning (Some True), False)\<rparr>"
  by (rule core_reachable.step [OF core_reachable.step [OF core_reachable.step [OF core_reachable.step
        [OF reachable_start]]]])
    (rule run_explicit ctx_step.read_daif ctx_step.daifset)+

theorem lock_irqsafe_exclusive_live_witness:
  "\<not> lock_flag \<lparr>lock_flag = False, masked = True, main_pc = Saved False,
                isr = Some (Spinning (Some True), False)\<rparr>"
  using lock_irqsafe_exclusive_live [OF isr_spinning_reachable] by simp

text \<open>
  C29. Why the mask is needed. With the plain \<open>lock\<close> in both contexts, a core can reach a state where the
  handler spins on a lock held by the main code it interrupted; the only step from there leads
  back to it, so the core is stuck for ever.
\<close>

theorem plain_lock_deadlocks:
  "\<exists>c. core_reachable False c \<and> in_closure (main_pc c) \<and> lock_flag c \<and>
       (\<exists>d spsr. isr c = Some (Spinning d, spsr)) \<and> {c'. core_step False c c'} = {c}"
proof -
  let ?c = "\<lparr>lock_flag = True, masked = True, main_pc = Critical None, isr = Some (Spinning None, False)\<rparr>"
  have "core_reachable False ?c"
    by (rule core_reachable.step [OF core_reachable.step [OF core_reachable.step [OF core_reachable.step
          [OF reachable_start]]]])
      (rule run_explicit ctx_step.plain_call ctx_step.cas_ok)+
  moreover have "{c'. core_step False ?c c'} = {?c}"
    by (auto elim!: core_stepE ctx_step_spin_heldE intro: isr_runs_explicit ctx_step.cas_err)
  ultimately show ?thesis
    by (intro exI [of _ ?c]) (auto simp: in_closure_def)
qed

end
