(* ===== verification/Fmt.thy ===== *)
theory Fmt
  imports Prelude
begin

text \<open>
  The formatting of \<open>core::fmt\<close> that the kernel's \<open>print!\<close> and \<open>println!\<close> calls use: decimal
  (\<open>{}\<close> of an unsigned integer), hexadecimal with or without zero padding (\<open>{:016x}\<close>,
  \<open>{:02X}\<close>, the digits of \<open>{:?}\<close> of a pointer), and a character made from a byte
  (\<open>{}\<close> of \<open>ch as char\<close>), which is written as UTF-8.
\<close>

section \<open>Digits\<close>

definition digit_char :: "bool \<Rightarrow> nat \<Rightarrow> char" where
  "digit_char upper d =
     (if d < 10 then char_of (48 + d) else if upper then char_of (55 + d) else char_of (87 + d))"

fun fmt_radix :: "nat \<Rightarrow> bool \<Rightarrow> nat \<Rightarrow> string" where
  "fmt_radix r upper n =
     (if r < 2 \<or> n < r then [digit_char upper n]
      else fmt_radix r upper (n div r) @ [digit_char upper (n mod r)])"

declare fmt_radix.simps [simp del]

definition fmt_dec :: "'a::len word \<Rightarrow> string" where
  "fmt_dec w = fmt_radix 10 False (unat w)"

definition pad_zero :: "nat \<Rightarrow> string \<Rightarrow> string" where
  "pad_zero width cs = replicate (width - length cs) (CHR ''0'') @ cs"

definition fmt_016x :: "u64 \<Rightarrow> string" where
  "fmt_016x w = pad_zero 16 (fmt_radix 16 False (unat w))"

definition fmt_02X :: "u8 \<Rightarrow> string" where
  "fmt_02X w = pad_zero 2 (fmt_radix 16 True (unat w))"

definition fmt_pointer :: "u64 \<Rightarrow> string" where
  "fmt_pointer p = ''0x'' @ fmt_radix 16 False (unat p)"

definition fmt_char :: "u8 \<Rightarrow> string" where
  "fmt_char b = bytes_str (if b < 0x80 then [b] else [0xC0 OR drop_bit 6 b, 0x80 OR (b AND 0x3F)])"

section \<open>Reading digits back\<close>

definition digit_val :: "char \<Rightarrow> nat" where
  "digit_val c = (let n = of_char c in if n < 58 then n - 48 else if n < 91 then n - 55 else n - 87)"

definition read_radix :: "nat \<Rightarrow> string \<Rightarrow> nat" where
  "read_radix r cs = foldl (\<lambda>v c. r * v + digit_val c) 0 cs"

lemma digit_val_char: "d < 16 \<Longrightarrow> digit_val (digit_char upper d) = d"
  by (simp add: digit_val_def digit_char_def Let_def)

lemma read_fmt_radix: "2 \<le> r \<Longrightarrow> r \<le> 16 \<Longrightarrow> read_radix r (fmt_radix r upper n) = n"
proof (induction r upper n rule: fmt_radix.induct)
  case (1 r upper n)
  show ?case
  proof (cases "n < r")
    case True
    with 1 show ?thesis by (subst fmt_radix.simps) (simp add: read_radix_def digit_val_char)
  next
    case False
    have "n mod r < r" using 1 by simp
    then have "n mod r < 16" using 1(3) by (rule less_le_trans)
    moreover have "read_radix r (fmt_radix r upper (n div r)) = n div r" using 1 False by simp
    ultimately show ?thesis using 1 False
      by (subst fmt_radix.simps) (simp add: read_radix_def digit_val_char)
  qed
qed

lemma read_radix_pad_zero: "read_radix r (pad_zero w cs) = read_radix r cs"
proof -
  have "foldl (\<lambda>v c. r * v + digit_val c) 0 (replicate k (CHR ''0'')) = 0" for k
    by (induction k) (simp_all add: digit_val_def)
  then show ?thesis by (simp add: read_radix_def pad_zero_def)
qed

lemma length_fmt_radix: "2 \<le> r \<Longrightarrow> n < r ^ k \<Longrightarrow> 0 < k \<Longrightarrow> length (fmt_radix r upper n) \<le> k"
proof (induction r upper n arbitrary: k rule: fmt_radix.induct)
  case (1 r upper n)
  show ?case
  proof (cases "n < r")
    case True
    with 1 show ?thesis by (subst fmt_radix.simps) simp
  next
    case False
    with 1 have "k \<noteq> 1" by auto
    with 1 obtain j where k: "k = Suc j" "0 < j" by (metis One_nat_def Suc_pred neq0_conv)
    with 1 have "n div r < r ^ j"
      by (simp add: less_mult_imp_div_less mult.commute)
    with 1 False k have "length (fmt_radix r upper (n div r)) \<le> j" by simp
    with k False 1 show ?thesis by (subst fmt_radix.simps) simp
  qed
qed

end
