(* ===== verification/Pl011.thy ===== *)
theory Pl011
  imports Arch_Timer Irq_Safe_Mutex Fmt
begin

text \<open>
  \<^verbatim>\<open>src/drivers/uart/pl011.rs\<close>: the circular receive buffer, the UART device and the printing
  functions. The statics \<open>UART\<close> and \<open>RX_BUFFER\<close> complete the state of the kernel.
\<close>

section \<open>The receive buffer\<close>

definition UART_BUFFER_SIZE :: nat where "UART_BUFFER_SIZE = 256"

record uart_buffer =
  ub_buffer :: "u8 list"
  ub_head :: usize
  ub_tail :: usize

definition UartBuffer_init :: uart_buffer where
  "UartBuffer_init = \<lparr>ub_buffer = replicate UART_BUFFER_SIZE 0, ub_head = 0, ub_tail = 0\<rparr>"

definition push :: "uart_buffer \<Rightarrow> u8 \<Rightarrow> ('s, bool \<times> uart_buffer) M" where
  "push self byte =
     (let head = ub_head self in
      bind_M (checked_add head 1) (\<lambda>h.
      let next_head = h mod of_nat UART_BUFFER_SIZE in
      if next_head = ub_tail self then return_M (False, self)
      else bind_M (update_M (ub_buffer self) (unat head) byte) (\<lambda>buf.
           return_M (True, self\<lparr>ub_buffer := buf, ub_head := next_head\<rparr>))))"

definition pop :: "uart_buffer \<Rightarrow> ('s, u8 option \<times> uart_buffer) M" where
  "pop self =
     (let tail = ub_tail self in
      if ub_head self = tail then return_M (None, self)
      else bind_M (index_M (ub_buffer self) (unat tail)) (\<lambda>byte.
           bind_M (checked_add tail 1) (\<lambda>t.
           let next_tail = t mod of_nat UART_BUFFER_SIZE in
           return_M (Some byte, self\<lparr>ub_tail := next_tail\<rparr>))))"

section \<open>The device\<close>

record uart_pl011 =
  base_addr :: u64
  base_clock :: u32
  baudrate :: u32
  data_bits :: u8
  stop_bits :: u8

definition UartPl011_new :: uart_pl011 where
  "UartPl011_new = \<lparr>base_addr = 0, base_clock = 0, baudrate = 115200, data_bits = 8, stop_bits = 1\<rparr>"

definition EARLY_BASE :: usize where "EARLY_BASE = 0x09000000"
definition DR_OFF :: usize where "DR_OFF = 0x00"
definition FR_OFF :: usize where "FR_OFF = 0x18"
definition FR_BUSY :: u32 where "FR_BUSY = 8"
definition FR_TXFE :: u32 where "FR_TXFE = 32"
definition IBRD_OFF :: usize where "IBRD_OFF = 0x24"
definition FBRD_OFF :: usize where "FBRD_OFF = 0x28"
definition LCR_OFF :: usize where "LCR_OFF = 0x2c"
definition LCR_FEN :: u32 where "LCR_FEN = 16"
definition LCR_STP2 :: u32 where "LCR_STP2 = 8"
definition CR_OFF :: usize where "CR_OFF = 0x30"
definition CR_UARTEN :: u32 where "CR_UARTEN = 1"
definition CR_RXEN :: u32 where "CR_RXEN = 512"
definition IMSC_OFF :: usize where "IMSC_OFF = 0x38"
definition IMSC_RXIM :: u32 where "IMSC_RXIM = 16"
definition ICR_OFF :: usize where "ICR_OFF = 0x44"
definition ICR_RXIC :: u32 where "ICR_RXIC = 16"
definition DMACR_OFF :: usize where "DMACR_OFF = 0x48"

lemmas uart_consts = EARLY_BASE_def DR_OFF_def FR_OFF_def FR_BUSY_def FR_TXFE_def IBRD_OFF_def FBRD_OFF_def
  LCR_OFF_def LCR_FEN_def LCR_STP2_def CR_OFF_def CR_UARTEN_def CR_RXEN_def IMSC_OFF_def IMSC_RXIM_def
  ICR_OFF_def ICR_RXIC_def DMACR_OFF_def

record 'h uart_machine = "'h gic_machine" +
  UART :: uart_pl011

record 'h kernel = "'h uart_machine" +
  RX_BUFFER :: "uart_buffer mutex"

definition UartPl011_init :: "uart_pl011 \<Rightarrow> u64 \<Rightarrow> u32 \<Rightarrow> uart_pl011" where
  "UartPl011_init self addr clock = self\<lparr>base_addr := addr, base_clock := clock\<rparr>"

definition UartPl011_set_speed :: "uart_pl011 \<Rightarrow> (('h, 'm) machine_scheme, unit) M" where
  "UartPl011_set_speed self =
     bind_M (checked_mul 4 (base_clock self)) (\<lambda>c.
     bind_M (checked_div c (baudrate self)) (\<lambda>baud_div.
     block_M [write_mmio32 (base_addr self) IBRD_OFF (drop_bit 6 baud_div AND 0xffff),
              write_mmio32 (base_addr self) FBRD_OFF (baud_div AND 0x3f)]))"

text \<open>The flag register shows the given condition.\<close>

definition flag_set :: "usize \<Rightarrow> u32 \<Rightarrow> (('h, 'm) machine_scheme, bool) M" where
  "flag_set base flag = bind_M (read_mmio32 base FR_OFF) (\<lambda>v. return_M (v AND flag \<noteq> 0))"

definition UartPl011_configure :: "uart_pl011 \<Rightarrow> (('h, 'm) machine_scheme, unit) M" where
  "UartPl011_configure self =
     block_M [write_mmio32 (base_addr self) CR_OFF 0,
              while_M (flag_set (base_addr self) FR_BUSY),
              clear_mmio_bits32 (base_addr self) LCR_OFF LCR_FEN,
              UartPl011_set_speed self,
              bind_M (checked_sub (ucast (data_bits self)) 1) (\<lambda>d :: u32.
                let lcr_val = 0 OR push_bit 5 (d AND 0x3);
                    lcr_val = (if stop_bits self = 2 then lcr_val OR LCR_STP2 else lcr_val);
                    lcr_val = lcr_val OR LCR_FEN
                in write_mmio32 (base_addr self) LCR_OFF lcr_val),
              set_mmio_bits32 (base_addr self) IMSC_OFF IMSC_RXIM,
              write_mmio32 (base_addr self) DMACR_OFF 0x01,
              set_mmio_bits32 (base_addr self) CR_OFF (CR_UARTEN OR CR_RXEN)]"

definition putchar_base :: "uart_pl011 \<Rightarrow> usize" where
  "putchar_base self = (if base_addr self = 0 then EARLY_BASE else base_addr self)"

definition UartPl011_putchar :: "uart_pl011 \<Rightarrow> u8 \<Rightarrow> (('h, 'm) machine_scheme, unit) M" where
  "UartPl011_putchar self c =
     (let base = putchar_base self in
      seq_M (while_M (flag_set base FR_TXFE)) (write_mmio32 base DR_OFF (ucast c)))"

definition UartPl011_set_baudrate :: "uart_pl011 \<Rightarrow> u32 \<Rightarrow> uart_pl011" where
  "UartPl011_set_baudrate self b = self\<lparr>baudrate := b\<rparr>"

definition UartPl011_set_data_bits :: "uart_pl011 \<Rightarrow> u8 \<Rightarrow> uart_pl011" where
  "UartPl011_set_data_bits self d = self\<lparr>data_bits := d\<rparr>"

definition UartPl011_set_stop_bits :: "uart_pl011 \<Rightarrow> u8 \<Rightarrow> uart_pl011" where
  "UartPl011_set_stop_bits self b = self\<lparr>stop_bits := b\<rparr>"

section \<open>Public functions\<close>

definition init_uart :: "u64 \<Rightarrow> u32 \<Rightarrow> (('h, 'm) kernel_scheme, unit) M" where
  "init_uart addr clock = modify_M (\<lambda>s. s\<lparr>UART := UartPl011_init (UART s) addr clock\<rparr>)"

definition set_baudrate :: "u32 \<Rightarrow> (('h, 'm) kernel_scheme, unit) M" where
  "set_baudrate b = modify_M (\<lambda>s. s\<lparr>UART := UartPl011_set_baudrate (UART s) b\<rparr>)"

definition set_data_bits :: "u8 \<Rightarrow> (('h, 'm) kernel_scheme, unit) M" where
  "set_data_bits d = modify_M (\<lambda>s. s\<lparr>UART := UartPl011_set_data_bits (UART s) d\<rparr>)"

definition set_stop_bits :: "u8 \<Rightarrow> (('h, 'm) kernel_scheme, unit) M" where
  "set_stop_bits b = modify_M (\<lambda>s. s\<lparr>UART := UartPl011_set_stop_bits (UART s) b\<rparr>)"

definition configure_uart :: "(('h, 'm) kernel_scheme, unit) M" where
  "configure_uart = bind_M (gets_M UART) UartPl011_configure"

definition putchar :: "u8 \<Rightarrow> (('h, 'm) kernel_scheme, unit) M" where
  "putchar c = bind_M (gets_M UART) (\<lambda>u. UartPl011_putchar u c)"

abbreviation RX_put :: "uart_buffer mutex \<Rightarrow> ('h, 'm) kernel_scheme \<Rightarrow> ('h, 'm) kernel_scheme" where
  "RX_put \<equiv> \<lambda>x s. s\<lparr>RX_BUFFER := x\<rparr>"

definition getchar :: "(('h, 'm) kernel_scheme, u8 option) M" where
  "getchar = lock_irqsafe RX_BUFFER RX_put (\<lambda>rx. pop rx)"

definition get_base_addr :: "(('h, 'm) kernel_scheme, usize) M" where
  "get_base_addr = gets_M (\<lambda>s. base_addr (UART s))"

text \<open>
  \<open>write_str\<close> sends the bytes of a string one by one. The formatting machinery calls it once per
  piece of the format string; the bytes sent are those of the formatted text.
\<close>

definition write_str :: "string \<Rightarrow> (('h, 'm) kernel_scheme, unit) M" where
  "write_str str = for_M (str_bytes str) putchar"

definition print :: "string \<Rightarrow> (('h, 'm) kernel_scheme, unit) M" where
  "print args = write_str args"

definition println :: "string \<Rightarrow> (('h, 'm) kernel_scheme, unit) M" where
  "println args = print (args @ ''\<newline>'')"

text \<open>The part of \<open>setup\<close> that configures the interrupt once its specifier is read.\<close>

definition configure_spi :: "u32 list \<Rightarrow> (('h, 'm) gic_machine_scheme, unit) M" where
  "configure_spi interrupt_info =
     (if interrupt_info ! 0 = 0
      then bind_M (checked_add 32 (interrupt_info ! 1)) (\<lambda>spi_id.
           block_M [if interrupt_info ! 2 AND 0x3 \<noteq> 0
                    then set_spi_trigger_edge spi_id else set_spi_trigger_level spi_id,
                    set_spi_priority spi_id 0x00,
                    set_spi_group spi_id,
                    set_spi_routing spi_id 0,
                    enable_spi spi_id])
      else return_M ())"

definition uart_setup_interrupt :: "platform_device \<Rightarrow> (('h, 'm) gic_machine_scheme, unit) M" where
  "uart_setup_interrupt dev =
     bind_M (find_property dev ''interrupts'') (\<lambda>found.
     case found of
       None \<Rightarrow> return_M ()
     | Some int_prop \<Rightarrow>
         bind_M (find_interrupt_parent dev) (\<lambda>parent.
         case parent of
           None \<Rightarrow> return_M ()
         | Some intc \<Rightarrow>
             bind_M (interrupt_cells_of intc) (\<lambda>interrupt_cells.
             bind_M (read_interrupt_info (prop_value int_prop) interrupt_cells) configure_spi)))"

definition uart_setup_clock :: "platform_device \<Rightarrow> (('h, 'm) dt_machine_scheme, u32) M" where
  "uart_setup_clock dev =
     bind_M (find_property dev ''clocks'') (\<lambda>found.
     case found of
       None \<Rightarrow> return_M 0
     | Some clocks_prop \<Rightarrow>
         bind_M (read_be_u32 (prop_value clocks_prop) 0) (\<lambda>phandle_id.
         bind_M (find_device_by_phandle phandle_id) (\<lambda>node.
         case node of
           None \<Rightarrow> return_M 0
         | Some clock_node \<Rightarrow>
             bind_M (find_property clock_node ''clock-frequency'') (\<lambda>found.
             case found of
               None \<Rightarrow> return_M 0
             | Some freq_prop \<Rightarrow> read_be_u32 (prop_value freq_prop) 0))))"

definition uart_setup :: "platform_device \<Rightarrow> (('h, 'm) kernel_scheme, unit) M" where
  "uart_setup dev =
     bind_M (get_parent_cells dev) (\<lambda>(addr_cells, _).
     bind_M (bind_M (find_property dev ''reg'') (\<lambda>found.
             case found of
               None \<Rightarrow> return_M 0
             | Some reg_prop \<Rightarrow> read_cells (prop_value reg_prop) addr_cells)) (\<lambda>addr.
     seq_M (uart_setup_interrupt dev)
    (bind_M (uart_setup_clock dev) (\<lambda>freq.
     seq_M (init_uart addr freq) configure_uart))))"

section \<open>The receive buffer is a bounded queue\<close>

text \<open>
  The interface of a bounded queue: an abstraction to the list of queued bytes, an invariant,
  and what the two operations do to the list. Clients (the interrupt handler pushes, \<open>getchar\<close>
  pops) rely on nothing else; whole runs behave as the list does.
\<close>

datatype queue_op = Push u8 | Pop

datatype queue_out = Pushed bool | Popped "u8 option"

fun spec_step :: "nat \<Rightarrow> queue_op \<Rightarrow> u8 list \<Rightarrow> queue_out \<times> u8 list" where
  "spec_step cap (Push b) xs = (if length xs < cap then (Pushed True, xs @ [b]) else (Pushed False, xs))"
| "spec_step cap Pop xs = (case xs of [] \<Rightarrow> (Popped None, []) | x # xs' \<Rightarrow> (Popped (Some x), xs'))"

fun spec_run :: "nat \<Rightarrow> queue_op list \<Rightarrow> u8 list \<Rightarrow> queue_out list \<times> u8 list" where
  "spec_run cap [] xs = ([], xs)"
| "spec_run cap (x # ops) xs =
     (case spec_step cap x xs of (out, xs') \<Rightarrow> case spec_run cap ops xs' of (outs, ys) \<Rightarrow> (out # outs, ys))"

fun impl_run :: "('q \<Rightarrow> u8 \<Rightarrow> ('s, bool \<times> 'q) M) \<Rightarrow> ('q \<Rightarrow> ('s, u8 option \<times> 'q) M) \<Rightarrow>
    queue_op list \<Rightarrow> 'q \<Rightarrow> ('s, queue_out list \<times> 'q) M" where
  "impl_run psh pp [] q = return_M ([], q)"
| "impl_run psh pp (Push b # ops) q =
     bind_M (psh q b) (\<lambda>(ok, q'). bind_M (impl_run psh pp ops q') (\<lambda>(outs, q'').
       return_M (Pushed ok # outs, q'')))"
| "impl_run psh pp (Pop # ops) q =
     bind_M (pp q) (\<lambda>(r, q'). bind_M (impl_run psh pp ops q') (\<lambda>(outs, q'').
       return_M (Popped r # outs, q'')))"

locale bounded_queue =
  fixes psh :: "'q \<Rightarrow> u8 \<Rightarrow> ('s, bool \<times> 'q) M"
    and pp :: "'q \<Rightarrow> ('s, u8 option \<times> 'q) M"
    and abs :: "'q \<Rightarrow> u8 list"
    and inv :: "'q \<Rightarrow> bool"
    and cap :: nat
  assumes push_ok: "inv q \<Longrightarrow> length (abs q) < cap \<Longrightarrow>
      \<exists>q'. psh q b s = (Inr (True, q'), s) \<and> inv q' \<and> abs q' = abs q @ [b]"
    and push_full: "inv q \<Longrightarrow> \<not> length (abs q) < cap \<Longrightarrow> psh q b s = (Inr (False, q), s)"
    and pop_empty: "inv q \<Longrightarrow> abs q = [] \<Longrightarrow> pp q s = (Inr (None, q), s)"
    and pop_ok: "inv q \<Longrightarrow> abs q = x # xs \<Longrightarrow>
      \<exists>q'. pp q s = (Inr (Some x, q'), s) \<and> inv q' \<and> abs q' = xs"
begin

lemma push_refines:
  "inv q \<Longrightarrow> \<exists>ok q'. psh q b s = (Inr (ok, q'), s) \<and> inv q' \<and> spec_step cap (Push b) (abs q) = (Pushed ok, abs q')"
  using push_ok [of q b s] push_full [of q b s] by (cases "length (abs q) < cap") fastforce+

lemma pop_refines:
  "inv q \<Longrightarrow> \<exists>r q'. pp q s = (Inr (r, q'), s) \<and> inv q' \<and> spec_step cap Pop (abs q) = (Popped r, abs q')"
  using pop_empty [of q s] pop_ok [of q _ _ s] by (cases "abs q") fastforce+

lemma run_refines:
  "inv q \<Longrightarrow> \<exists>outs q'. impl_run psh pp ops q s = (Inr (outs, q'), s) \<and> inv q' \<and>
      spec_run cap ops (abs q) = (outs, abs q')"
proof (induction ops arbitrary: q)
  case Nil
  then show ?case by simp
next
  case (Cons x ops)
  show ?case
  proof (cases x)
    case (Push b)
    from push_refines [OF Cons.prems, of b s] obtain ok q' where
      "psh q b s = (Inr (ok, q'), s)" "inv q'" "spec_step cap (Push b) (abs q) = (Pushed ok, abs q')" by blast
    moreover from Cons.IH [OF this(2)] obtain outs q'' where
      "impl_run psh pp ops q' s = (Inr (outs, q''), s)" "inv q''" "spec_run cap ops (abs q') = (outs, abs q'')" by blast
    ultimately show ?thesis by (simp add: Push del: spec_step.simps)
  next
    case Pop
    from pop_refines [OF Cons.prems, of s] obtain r q' where
      "pp q s = (Inr (r, q'), s)" "inv q'" "spec_step cap Pop (abs q) = (Popped r, abs q')" by blast
    moreover from Cons.IH [OF this(2)] obtain outs q'' where
      "impl_run psh pp ops q' s = (Inr (outs, q''), s)" "inv q''" "spec_run cap ops (abs q') = (outs, abs q'')" by blast
    ultimately show ?thesis by (simp add: Pop del: spec_step.simps)
  qed
qed

end

text \<open>The ring: indices below the size, and the bytes between tail and head.\<close>

definition ring_inv :: "uart_buffer \<Rightarrow> bool" where
  "ring_inv q \<longleftrightarrow> length (ub_buffer q) = 256 \<and> unat (ub_head q) < 256 \<and> unat (ub_tail q) < 256"

definition ring_len :: "nat \<Rightarrow> nat \<Rightarrow> nat" where
  "ring_len h t = (if t \<le> h then h - t else h + 256 - t)"

definition ring_list :: "uart_buffer \<Rightarrow> u8 list" where
  "ring_list q = map (\<lambda>i. ub_buffer q ! ((unat (ub_tail q) + i) mod 256))
     [0..<ring_len (unat (ub_head q)) (unat (ub_tail q))]"

lemma mod256_split: "a < 512 \<Longrightarrow> a mod 256 = (if a < 256 then a else a - 256)" for a :: nat
  by (simp add: mod_if)

lemma unat_next_index: "unat i < 256 \<Longrightarrow> unat ((i + 1) mod 256 :: usize) = (if unat i = 255 then 0 else unat i + 1)"
  using unat_add_lem [of i 1] by (simp add: unat_mod_distrib mod256_split)

lemma ring_len_bound: "h < 256 \<Longrightarrow> t < 256 \<Longrightarrow> ring_len h t < 256"
  by (auto simp: ring_len_def)

lemma ring_full_iff:
  "h < 256 \<Longrightarrow> t < 256 \<Longrightarrow> (if h = 255 then 0 else h + 1) = t \<longleftrightarrow> ring_len h t = 255"
  by (auto simp: ring_len_def)

lemma ring_len_push:
  "h < 256 \<Longrightarrow> t < 256 \<Longrightarrow> ring_len h t < 255 \<Longrightarrow> ring_len (if h = 255 then 0 else h + 1) t = Suc (ring_len h t)"
  by (auto simp: ring_len_def split: if_splits)

lemma ring_len_pop:
  "h < 256 \<Longrightarrow> t < 256 \<Longrightarrow> h \<noteq> t \<Longrightarrow> ring_len h t = Suc (ring_len h (if t = 255 then 0 else t + 1))"
  by (auto simp: ring_len_def split: if_splits)

lemma ring_index_head: "h < 256 \<Longrightarrow> t < 256 \<Longrightarrow> (t + ring_len h t) mod 256 = h"
  by (simp add: ring_len_def mod256_split)

lemma ring_index_other: "h < 256 \<Longrightarrow> t < 256 \<Longrightarrow> i < ring_len h t \<Longrightarrow> (t + i) mod 256 \<noteq> h"
  by (auto simp: ring_len_def mod256_split split: if_splits)

lemma ring_index_next: "t < 256 \<Longrightarrow> ((if t = 255 then 0 else t + 1) + i) mod 256 = (t + Suc i) mod 256"
  by auto

lemma length_ring_list [simp]: "length (ring_list q) = ring_len (unat (ub_head q)) (unat (ub_tail q))"
  by (simp add: ring_list_def)

lemma checked_next_index: "unat i < 256 \<Longrightarrow> checked_add i 1 = return_M (i + 1 :: usize)"
  by simp

lemma push_ring_full:
  assumes "ring_inv q" and "\<not> length (ring_list q) < 255"
  shows "push q b s = (Inr (False, q), s)"
proof -
  have "ring_len (unat (ub_head q)) (unat (ub_tail q)) = 255"
    using assms ring_len_bound [of "unat (ub_head q)" "unat (ub_tail q)"] by (simp add: ring_inv_def)
  then have "unat ((ub_head q + 1) mod 256) = unat (ub_tail q)"
    using assms ring_full_iff by (simp add: ring_inv_def unat_next_index)
  then have "(ub_head q + 1) mod 256 = ub_tail q" by (simp only: word_unat_eq_iff)
  then show ?thesis using assms(1)
    by (simp add: push_def Let_def checked_next_index UART_BUFFER_SIZE_def ring_inv_def del: checked_add_ok)
qed

lemma push_ring_ok:
  assumes "ring_inv q" and "length (ring_list q) < 255"
  shows "\<exists>q'. push q b s = (Inr (True, q'), s) \<and> ring_inv q' \<and> ring_list q' = ring_list q @ [b]"
proof -
  let ?h = "unat (ub_head q)" and ?t = "unat (ub_tail q)"
  let ?q = "q\<lparr>ub_buffer := (ub_buffer q)[?h := b], ub_head := (ub_head q + 1) mod 256\<rparr>"
  have bounds: "?h < 256" "?t < 256" "ring_len ?h ?t < 255" "length (ub_buffer q) = 256"
    using assms by (simp_all add: ring_inv_def)
  have "unat ((ub_head q + 1) mod 256) \<noteq> ?t"
    using bounds ring_full_iff [of ?h ?t] by (simp add: unat_next_index)
  then have "(ub_head q + 1) mod 256 \<noteq> ub_tail q" by auto
  then have "push q b s = (Inr (True, ?q), s)"
    using bounds by (simp add: push_def Let_def checked_next_index UART_BUFFER_SIZE_def del: checked_add_ok)
  moreover have "ring_inv ?q" using bounds by (simp add: ring_inv_def unat_next_index)
  moreover have "ring_list ?q = ring_list q @ [b]"
  proof -
    have "(ub_buffer q)[?h := b] ! ((?t + i) mod 256) = ub_buffer q ! ((?t + i) mod 256)"
      if "i < ring_len ?h ?t" for i
      using ring_index_other [OF bounds(1,2) that] by simp
    moreover have "(ub_buffer q)[?h := b] ! ((?t + ring_len ?h ?t) mod 256) = b"
      using bounds by (simp add: ring_index_head)
    ultimately show ?thesis
      using bounds by (simp add: ring_list_def unat_next_index ring_len_push)
  qed
  ultimately show ?thesis by blast
qed

lemma ring_list_empty_iff: "ring_inv q \<Longrightarrow> ring_list q = [] \<longleftrightarrow> ub_head q = ub_tail q"
  by (auto simp: ring_list_def ring_len_def ring_inv_def word_unat_eq_iff split: if_splits)

lemma pop_ring_empty: "ring_inv q \<Longrightarrow> ring_list q = [] \<Longrightarrow> pop q s = (Inr (None, q), s)"
  by (simp add: ring_list_empty_iff pop_def)

lemma pop_ring_ok:
  assumes "ring_inv q" and "ring_list q = x # xs"
  shows "\<exists>q'. pop q s = (Inr (Some x, q'), s) \<and> ring_inv q' \<and> ring_list q' = xs"
proof -
  let ?h = "unat (ub_head q)" and ?t = "unat (ub_tail q)"
  let ?q = "q\<lparr>ub_tail := (ub_tail q + 1) mod 256\<rparr>"
  have bounds: "?h < 256" "?t < 256" "length (ub_buffer q) = 256"
    using assms(1) by (simp_all add: ring_inv_def)
  have ne: "ub_head q \<noteq> ub_tail q" using assms ring_list_empty_iff [OF assms(1)] by simp
  then have "?h \<noteq> ?t" by (simp add: word_unat_eq_iff)
  then have "ring_list q = ub_buffer q ! ?t # ring_list ?q"
    using bounds by (simp add: ring_list_def ring_len_pop [of ?h ?t] upt_conv_Cons map_Suc_upt [symmetric]
        unat_next_index ring_index_next comp_def del: upt_Suc)
  then have "x = ub_buffer q ! ?t" "xs = ring_list ?q" using assms(2) by simp_all
  moreover have "pop q s = (Inr (Some (ub_buffer q ! ?t), ?q), s)"
    using bounds ne by (simp add: pop_def Let_def checked_next_index UART_BUFFER_SIZE_def del: checked_add_ok)
  moreover have "ring_inv ?q" using bounds by (simp add: ring_inv_def unat_next_index)
  ultimately show ?thesis by blast
qed

interpretation rx_queue: bounded_queue push pop ring_list ring_inv 255
  by unfold_locales (simp_all add: push_ring_ok push_ring_full pop_ring_empty pop_ring_ok)

lemma ring_inv_init: "ring_inv UartBuffer_init" and ring_list_init: "ring_list UartBuffer_init = []"
  by (simp_all add: ring_inv_def ring_list_def ring_len_def UartBuffer_init_def UART_BUFFER_SIZE_def)

section \<open>The mutex around it\<close>

lemma uart_effect [simp]: "UART (effect ops s) = UART s" "RX_BUFFER (effect ops s) = RX_BUFFER s"
  by (simp_all add: effect_def)

interpretation rx_mutex: mutex_place RX_BUFFER RX_put
  by unfold_locales (simp_all add: effect_def peek_sys_def)

text \<open>The lock is free between calls; the buffer behind it is well formed.\<close>

definition rx_ok :: "('h, 'm) kernel_scheme \<Rightarrow> bool" where
  "rx_ok s \<longleftrightarrow> \<not> mutex_lock (RX_BUFFER s) \<and> ring_inv (mutex_data (RX_BUFFER s))"

definition rx_bytes :: "('h, 'm) kernel_scheme \<Rightarrow> u8 list" where
  "rx_bytes s = ring_list (mutex_data (RX_BUFFER s))"

text \<open>The effect of a call that replaces the buffer under the lock.\<close>

definition with_rx :: "uart_buffer \<Rightarrow> ('h, 'm) kernel_scheme \<Rightarrow> ('h, 'm) kernel_scheme" where
  "with_rx q s = s\<lparr>RX_BUFFER := \<lparr>mutex_lock = False, mutex_data = q\<rparr>\<rparr>"

lemma with_rx_simps [simp]:
  "ring_inv q \<Longrightarrow> rx_ok (with_rx q s)" "rx_bytes (with_rx q s) = ring_list q"
  "effect ops (with_rx q s) = with_rx q (effect ops s)" "UART (with_rx q s) = UART s"
  "peek_sys (with_rx q s) r = peek_sys s r" "spin (with_rx q s) = spin s" "bus (with_rx q s) = bus s"
  by (simp_all add: with_rx_def rx_ok_def rx_bytes_def effect_def peek_sys_def)

text \<open>The state in which a closure under \<open>lock_irqsafe\<close> runs.\<close>

definition rx_locked :: "('h, 'm) kernel_scheme \<Rightarrow> ('h, 'm) kernel_scheme" where
  "rx_locked s = effect [Mrs DAIF, Msr DAIFSet 2] (RX_put ((RX_BUFFER s)\<lparr>mutex_lock := True\<rparr>) s)"

lemma lock_rx:
  assumes "rx_ok s" and "0 < spin s"
    and f: "f (mutex_data (RX_BUFFER s)) (rx_locked s) = (Inr (r, q), effect ops (rx_locked s))"
  shows "lock_irqsafe RX_BUFFER RX_put f s =
    (Inr r, with_rx q (effect ([Mrs DAIF, Msr DAIFSet 2] @ ops @ [Msr DAIF (peek_sys s DAIF)]) s))"
proof -
  have "lock_irqsafe RX_BUFFER RX_put f s =
      (Inr r, effect [Msr DAIF (peek_sys s DAIF)]
        (RX_put ((RX_BUFFER (effect ops (rx_locked s)))\<lparr>mutex_data := q, mutex_lock := False\<rparr>) (effect ops (rx_locked s))))"
    using assms by (intro rx_mutex.lock_irqsafe_free) (simp_all add: rx_ok_def rx_locked_def)
  then show ?thesis
    by (simp add: with_rx_def rx_locked_def effect_def run_regops_def)
qed

lemma getchar_program:
  assumes "rx_ok s" and "0 < spin s"
  shows "\<exists>q. getchar s = (Inr (case rx_bytes s of [] \<Rightarrow> None | b # bs \<Rightarrow> Some b),
      with_rx q (effect [Mrs DAIF, Msr DAIFSet 2, Msr DAIF (peek_sys s DAIF)] s)) \<and>
    ring_inv q \<and> ring_list q = tl (rx_bytes s)"
proof -
  let ?q = "mutex_data (RX_BUFFER s)"
  have inv: "ring_inv ?q" using assms(1) by (simp add: rx_ok_def)
  obtain r q where pop: "pop ?q (rx_locked s) = (Inr (r, q), rx_locked s)" "ring_inv q"
    "spec_step 255 Pop (ring_list ?q) = (Popped r, ring_list q)"
    using rx_queue.pop_refines [OF inv, of "rx_locked s"] by blast
  then have "r = (case ring_list ?q of [] \<Rightarrow> None | b # bs \<Rightarrow> Some b)" "ring_list q = tl (ring_list ?q)"
    by (auto split: list.splits)
  with pop lock_rx [OF assms, of pop r q "[]"] show ?thesis
    by (auto simp: getchar_def rx_bytes_def)
qed

section \<open>Properties of reception\<close>

text \<open>
  C16. The receive buffer is a queue of capacity 255. Starting from the empty buffer, every sequence of pushes and
  pops runs without a panic (no index is ever out of range, no counter overflows), answers exactly
  as a first-in-first-out list bounded by 255 entries does, and leaves the bytes of that list in the
  buffer; a push to a full buffer is refused and loses only the new byte.
\<close>

theorem rx_buffer_refines_queue:
  "\<exists>outs q. impl_run push pop ops UartBuffer_init s = (Inr (outs, q), s) \<and> ring_inv q \<and>
     spec_run 255 ops [] = (outs, ring_list q)"
  using rx_queue.run_refines [OF ring_inv_init] by (simp add: ring_list_init)

text \<open>
  Reading a character. With the lock free, \<open>getchar\<close> returns the oldest received byte, or nothing if there
  is none, removes exactly that byte, leaves the lock free and the interrupt mask as it found it (the
  DAIF value written last is the one read first), and touches no other static.
\<close>

lemma getchar_pops_oldest:
  assumes "rx_ok s" and "0 < spin s"
  shows "\<exists>q. getchar s = (Inr (case rx_bytes s of [] \<Rightarrow> None | b # bs \<Rightarrow> Some b),
      with_rx q (effect [Mrs DAIF, Msr DAIFSet 2, Msr DAIF (peek_sys s DAIF)] s)) \<and>
    ring_inv q \<and> ring_list q = tl (rx_bytes s)"
  using assms by (rule getchar_program)

section \<open>Transmission\<close>

lemma flag_set_effect:
  "flag_set base flag s = (Inr (peek32 s (base + 0x18) AND flag \<noteq> 0), effect [Read32 (base + 0x18)] s)"
  by (simp add: flag_set_def mmio_effects uart_consts)

text \<open>
  The transmitter, as the driver sees it: \<open>tx_polls\<close> is the number of looks at the flag register, of at most \<open>n\<close>, that find the transmit
  FIFO full. \<open>tx_drains\<close> says that in every state of the hardware the FIFO has room again within \<open>n\<close> looks, and \<open>tx_ready\<close> that
  the UART in use drains within the number of polls granted.
\<close>

primrec tx_polls :: "'h Machine.bus \<Rightarrow> usize \<Rightarrow> nat \<Rightarrow> 'h \<Rightarrow> nat" where
  "tx_polls b base 0 h = 0"
| "tx_polls b base (Suc n) h =
     (case bus_read32 b (base + 0x18) h of (v, h') \<Rightarrow> if bit v 5 then Suc (tx_polls b base n h') else 0)"

definition tx_drains :: "'h Machine.bus \<Rightarrow> usize \<Rightarrow> nat \<Rightarrow> bool" where
  "tx_drains b base n \<longleftrightarrow> (\<forall>h. tx_polls b base n h < n)"

definition tx_ready :: "('h, 'm) kernel_scheme \<Rightarrow> bool" where
  "tx_ready s \<longleftrightarrow> tx_drains (bus s) (putchar_base (UART s)) (spin s)"

lemma tx_ready_spin: "tx_ready s \<Longrightarrow> 0 < spin s"
  by (auto simp: tx_ready_def tx_drains_def intro: gr0I)

lemma tx_ready_keeps [simp]: "tx_ready (effect ops s) = tx_ready s" "tx_ready (with_rx q s) = tx_ready s"
  by (simp_all add: tx_ready_def)

text \<open>The register program that sends bytes: for each of them as many looks as the hardware asks for, and one write.\<close>

primrec tx_ops :: "'h Machine.bus \<Rightarrow> usize \<Rightarrow> nat \<Rightarrow> u8 list \<Rightarrow> 'h \<Rightarrow> regop list" where
  "tx_ops b base n [] h = []"
| "tx_ops b base n (c # cs) h =
     (let ops = replicate (Suc (tx_polls b base n h)) (Read32 (base + 0x18)) @ [Write32 base (ucast c)]
      in ops @ tx_ops b base n cs (run_regops b ops h))"

definition sent :: "u8 list \<Rightarrow> ('h, 'm) kernel_scheme \<Rightarrow> ('h, 'm) kernel_scheme" where
  "sent bytes s = effect (tx_ops (bus s) (putchar_base (UART s)) (spin s) bytes (hw s)) s"

lemma sent_Nil [simp]: "sent [] s = s"
  by (simp add: sent_def)

lemma tx_ops_append:
  "tx_ops b base n (xs @ ys) h = tx_ops b base n xs h @ tx_ops b base n ys (run_regops b (tx_ops b base n xs h) h)"
  by (induction xs arbitrary: h) (simp_all add: Let_def run_regops_def)

lemma sent_append [simp]: "sent ys (sent xs s) = sent (xs @ ys) s"
  by (simp add: sent_def tx_ops_append hw_effect)

lemma sent_fields [simp]:
  "bus (sent bytes s) = bus s" "ram (sent bytes s) = ram s" "spin (sent bytes s) = spin s" "UART (sent bytes s) = UART s"
  "RX_BUFFER (sent bytes s) = RX_BUFFER s" "tx_ready (sent bytes s) = tx_ready s"
  by (simp_all add: sent_def)

lemma sent_with_rx [simp]: "sent bytes (with_rx q s) = with_rx q (sent bytes s)"
  by (simp add: sent_def) (simp add: with_rx_def)

text \<open>\<open>transmits base bytes ops\<close>: the program \<open>ops\<close> sends \<open>bytes\<close>, in order, each after at least one look at the flags.\<close>

primrec transmits :: "usize \<Rightarrow> u8 list \<Rightarrow> regop list \<Rightarrow> bool" where
  "transmits base [] ops \<longleftrightarrow> ops = []"
| "transmits base (c # cs) ops \<longleftrightarrow>
     (\<exists>k rest. ops = replicate (Suc k) (Read32 (base + 0x18)) @ Write32 base (ucast c) # rest \<and> transmits base cs rest)"

lemma transmits_tx_ops: "transmits base cs (tx_ops b base n cs h)"
  by (induction cs arbitrary: h) (auto simp: Let_def)

lemma sent_transmits: "\<exists>ops. sent bytes s = effect ops s \<and> transmits (putchar_base (UART s)) bytes ops"
  unfolding sent_def by (rule exI, rule conjI [OF refl transmits_tx_ops])

lemma and_32_bit: "v AND 32 \<noteq> 0 \<longleftrightarrow> bit v 5" for v :: u32
  using bit_iff_and_push_bit_not_eq_0 [of v 5] by (simp add: push_bit_eq_mult)

lemma UartPl011_putchar_waits:
  assumes "busy_after k (flag_set (putchar_base u) FR_TXFE) s t" and "k < spin s"
  shows "UartPl011_putchar u c s = (Inr (), effect [Write32 (putchar_base u) (ucast c)] t)"
  using while_M_ends [OF assms] by (simp add: UartPl011_putchar_def Let_def mmio_effects uart_consts)

lemma poll_tx:
  "tx_polls (bus s) base n (hw s) < n \<Longrightarrow>
   poll_M n (flag_set base FR_TXFE) s = (Inr (), effect (replicate (Suc (tx_polls (bus s) base n (hw s))) (Read32 (base + 0x18))) s)"
proof (induction n arbitrary: s)
  case (Suc n)
  obtain v h where v: "bus_read32 (bus s) (base + 0x18) (hw s) = (v, h)" by fastforce
  have flag: "flag_set base FR_TXFE s = (Inr (bit v 5), effect [Read32 (base + 0x18)] s)"
    by (simp add: flag_set_effect FR_TXFE_def and_32_bit peek32_def v)
  show ?case
  proof (cases "bit v 5")
    case True
    then show ?thesis
      using Suc.IH [of "effect [Read32 (base + 0x18)] s"] Suc.prems v flag by (simp add: hw_effect run_regops_def)
  next
    case False
    then show ?thesis using v flag by simp
  qed
qed simp

lemma putchar_sent: "tx_ready s \<Longrightarrow> putchar c s = (Inr (), sent [c] s)"
  using poll_tx [of s "putchar_base (UART s)" "spin s"]
  by (simp add: tx_ready_def tx_drains_def putchar_def UartPl011_putchar_def while_M_def mmio_effects uart_consts sent_def Let_def)

lemma for_putchar_sent: "tx_ready s \<Longrightarrow> for_M cs putchar s = (Inr (), sent cs s)"
  by (induction cs arbitrary: s) (simp_all add: putchar_sent)

lemma print_sent: "tx_ready s \<Longrightarrow> print str s = (Inr (), sent (str_bytes str) s)"
  by (simp add: print_def write_str_def for_putchar_sent)

lemma println_sent: "tx_ready s \<Longrightarrow> println str s = (Inr (), sent (str_bytes str @ [10]) s)"
  by (simp add: println_def print_sent)

text \<open>
  C28. Transmission waits for room. Bit 5 (\<open>0x20\<close>) of the flag register, at offset \<open>0x18\<close>, says that the transmit FIFO is full. If reads of the
  flag register show the bit \<open>k\<close> times and then clear, \<open>putchar\<close> makes exactly these \<open>k + 1\<close> reads, writes the byte to the data
  register, once, and returns. If the bit does not clear within the polls granted to the loop, all of them are made, nothing is
  written and the call has not returned. Before the UART is initialised the registers are those of the early console
  at \<open>0x09000000\<close>.
\<close>

theorem putchar_waits_for_room:
  assumes "base = (if base_addr (UART s) = 0 then 0x09000000 else base_addr (UART s))"
  shows "(clears_after (bus s) (base + 0x18) 0x20 k (hw s) \<and> k < spin s \<longrightarrow>
      putchar c s = (Inr (), effect (replicate (Suc k) (Read32 (base + 0x18)) @ [Write32 base (ucast c)]) s)) \<and>
    ((\<forall>k < spin s. \<not> clears_after (bus s) (base + 0x18) 0x20 k (hw s)) \<longrightarrow>
      putchar c s = (Inl Hang, effect (replicate (spin s) (Read32 (base + 0x18))) s))"
proof -
  have base: "putchar_base (UART s) = base" using assms by (simp add: putchar_base_def EARLY_BASE_def)
  have flag: "flag_set base FR_TXFE s = (Inr (peek32 s (base + 0x18) AND 0x20 \<noteq> 0), effect [Read32 (base + 0x18)] s)"
    for s :: "('a, 'b) kernel_scheme" by (simp only: flag_set_effect FR_TXFE_def)
  show ?thesis
    using UartPl011_putchar_waits [of k "UART s" s, unfolded base, OF clears_after_busy [where busy = "flag_set base FR_TXFE", OF flag]]
      never_clears_poll [where busy = "flag_set base FR_TXFE", OF flag, of "spin s" s]
    by (auto simp: putchar_def UartPl011_putchar_def while_M_def base Let_def simp del: replicate_Suc)
qed

text \<open>
  Printed text arrives in order. On a UART that drains, printing a string performs for each byte, in order, one or more looks at
  the flags and then one data write, and nothing else; printing \<open>x @ y\<close> is printing \<open>x\<close> and then \<open>y\<close>, and
  \<open>println\<close> adds a line feed.
\<close>

lemma print_sends_bytes_in_order:
  assumes "tx_ready s"
  shows "(\<exists>ops. print str s = (Inr (), effect ops s) \<and> transmits (putchar_base (UART s)) (str_bytes str) ops) \<and>
    print (str @ str') s = seq_M (print str) (print str') s \<and>
    println str s = seq_M (print str) (putchar 10) s"
  using assms sent_transmits [of "str_bytes str" s] by (auto simp: print_sent println_sent putchar_sent)

section \<open>Configuration\<close>

text \<open>The baud rate divisor in 64ths, and the line control word.\<close>

definition baud_div :: "uart_pl011 \<Rightarrow> nat" where
  "baud_div u = 4 * unat (base_clock u) div unat (baudrate u)"

definition lcr_value :: "uart_pl011 \<Rightarrow> u32" where
  "lcr_value u = (let bits = push_bit 5 ((ucast (data_bits u) - 1) AND 3) in
     if stop_bits u = 2 then (bits OR 8) OR 16 else bits OR 16)"

lemma UartPl011_set_speed_program:
  "UartPl011_set_speed u s =
    (if 4 * unat (base_clock u) < 2 ^ 32 \<and> baudrate u \<noteq> 0
     then (Inr (), effect [Write32 (base_addr u + 0x24) (of_nat (baud_div u div 64 mod 65536)),
                           Write32 (base_addr u + 0x28) (of_nat (baud_div u mod 64))] s)
     else (Inl Panic, s))"
proof (cases "4 * unat (base_clock u) < 2 ^ 32 \<and> baudrate u \<noteq> 0")
  case True
  then have "unat (4 * base_clock u) = 4 * unat (base_clock u)"
    using unat_mult_lem [of 4 "base_clock u"] by simp
  then have div: "unat (4 * base_clock u div baudrate u) = baud_div u"
    by (simp add: unat_div_distrib baud_div_def)
  have "unat (drop_bit 6 (4 * base_clock u div baudrate u) AND 0xffff) = baud_div u div 64 mod 65536"
    by (simp only: unat_and_0xffff unat_drop_bit div) simp
  then have "drop_bit 6 (4 * base_clock u div baudrate u) AND 0xffff = of_nat (baud_div u div 64 mod 65536)"
    by (metis of_nat_unat ucast_id)
  moreover have "unat (4 * base_clock u div baudrate u AND 0x3f) = baud_div u mod 64"
    by (simp only: unat_and_0x3f div)
  then have "4 * base_clock u div baudrate u AND 0x3f = of_nat (baud_div u mod 64)"
    by (metis of_nat_unat ucast_id)
  ultimately show ?thesis using True
    by (simp add: UartPl011_set_speed_def mmio_effects uart_consts)
next
  case False
  then show ?thesis
    by (auto simp: UartPl011_set_speed_def checked_mul_def checked_div_def)
qed

lemma data_bits_checked_sub:
  "1 \<le> unat (data_bits u) \<Longrightarrow> checked_sub (ucast (data_bits u)) 1 = return_M (ucast (data_bits u) - 1 :: u32)"
  by (rule checked_sub_ok) (simp add: word_le_nat_alt)

text \<open>The register writes of \<open>configure\<close> after the wait for the end of a transmission.\<close>

definition configure_program :: "uart_pl011 \<Rightarrow> regop list" where
  "configure_program u =
     [Modify32 (base_addr u + 0x2c) (\<lambda>v. v AND NOT 16),
      Write32 (base_addr u + 0x24) (of_nat (baud_div u div 64 mod 65536)),
      Write32 (base_addr u + 0x28) (of_nat (baud_div u mod 64)),
      Write32 (base_addr u + 0x2c) (lcr_value u),
      Modify32 (base_addr u + 0x38) (\<lambda>v. v OR 16),
      Write32 (base_addr u + 0x48) 1,
      Modify32 (base_addr u + 0x30) (\<lambda>v. v OR 0x201)]"

lemma UartPl011_configure_program:
  assumes "busy_after k (flag_set (base_addr u) FR_BUSY) (effect [Write32 (base_addr u + 0x30) 0] s) t"
    and "k < spin s" and "4 * unat (base_clock u) < 2 ^ 32" and "baudrate u \<noteq> 0" and "1 \<le> unat (data_bits u)"
  shows "UartPl011_configure u s = (Inr (), effect (configure_program u) t)"
proof -
  have "while_M (flag_set (base_addr u) FR_BUSY) (effect [Write32 (base_addr u + 0x30) 0] s) = (Inr (), t)"
    using assms(1,2) by (intro while_M_ends) simp_all
  then show ?thesis using assms(3,4)
    by (simp add: UartPl011_configure_def data_bits_checked_sub [OF assms(5)] UartPl011_set_speed_program
        mmio_effects Let_def uart_consts configure_program_def lcr_value_def)
qed

lemma unat_lcr_value:
  assumes "5 \<le> unat (data_bits u)" and "unat (data_bits u) \<le> 8"
  shows "unat (lcr_value u) = 32 * (unat (data_bits u) - 5) + (if stop_bits u = 2 then 8 else 0) + 16"
proof -
  have "unat (data_bits u) \<in> {5, 6, 7, 8}" using assms by auto
  then have "data_bits u \<in> {5, 6, 7, 8}"
    by (auto simp: word_unat_eq_iff)
  then show ?thesis by (auto simp: lcr_value_def)
qed

section \<open>Properties of configuration and setup\<close>

text \<open>
  C27. Configuring the UART. With a clock below \<open>2^30\<close> Hz, a non-zero baud rate, 5 to 8 data bits and a device whose busy flag
  (bit 3 of the flag register) clears after \<open>k\<close> reads, \<open>configure\<close> performs exactly the listed register program, in which it
  disables the UART and waits before anything else: the divisor registers together hold the integer part of
  \<open>64 * clock / (16 * baud)\<close>, the line control word selects the data and stop bits and the FIFOs. The last
  two entries show that the DMA control register is written with 1 (receive DMA on), and that the
  transmitter enable bit (bit 8 of the control register, cleared at the start) is not set again.
\<close>

theorem uart_configure_program:
  assumes "clears_after (bus s) (base_addr (UART s) + 0x18) 8 k (bus_write32 (bus s) (base_addr (UART s) + 0x30) 0 (hw s))"
    and "k < spin s" and "4 * unat (base_clock (UART s)) < 2 ^ 32" and "baudrate (UART s) \<noteq> 0"
    and "5 \<le> unat (data_bits (UART s))" and "unat (data_bits (UART s)) \<le> 8"
    and "64 * unat (base_clock (UART s)) div (16 * unat (baudrate (UART s))) < 2 ^ 22"
  shows "\<exists>ibrd fbrd lcr. configure_uart s =
      (Inr (), effect
        (Write32 (base_addr (UART s) + 0x30) 0 # replicate (Suc k) (Read32 (base_addr (UART s) + 0x18)) @
        [Modify32 (base_addr (UART s) + 0x2c) (\<lambda>v. v AND NOT 16),
         Write32 (base_addr (UART s) + 0x24) ibrd, Write32 (base_addr (UART s) + 0x28) fbrd,
         Write32 (base_addr (UART s) + 0x2c) lcr,
         Modify32 (base_addr (UART s) + 0x38) (\<lambda>v. v OR 16),
         Write32 (base_addr (UART s) + 0x48) 1,
         Modify32 (base_addr (UART s) + 0x30) (\<lambda>v. v OR 0x201)]) s) \<and>
    64 * unat ibrd + unat fbrd = 64 * unat (base_clock (UART s)) div (16 * unat (baudrate (UART s))) \<and>
    unat fbrd < 64 \<and>
    unat lcr = 32 * (unat (data_bits (UART s)) - 5) + (if stop_bits (UART s) = 2 then 8 else 0) + 16"
proof (intro exI conjI)
  let ?u = "UART s"
  have d: "64 * unat (base_clock ?u) div (16 * unat (baudrate ?u)) = baud_div ?u"
    using div_mult_mult1 [of 16 "4 * unat (base_clock ?u)" "unat (baudrate ?u)"] by (simp add: baud_div_def)
  then have "baud_div ?u div 64 < 65536" using assms(7) by (simp add: div_less_iff_less_mult)
  then have i: "unat (of_nat (baud_div ?u div 64 mod 65536) :: u32) = baud_div ?u div 64"
    by (simp add: unat_of_nat)
  have "baud_div ?u mod 64 < 64" by simp
  then have f: "unat (of_nat (baud_div ?u mod 64) :: u32) = baud_div ?u mod 64"
    unfolding unat_of_nat by (intro mod_less) simp
  have flag: "flag_set a FR_BUSY s = (Inr (peek32 s (a + 0x18) AND 8 \<noteq> 0), effect [Read32 (a + 0x18)] s)"
    for a and s :: "('a, 'b) kernel_scheme" by (simp only: flag_set_effect FR_BUSY_def)
  have "busy_after k (flag_set (base_addr ?u) FR_BUSY) (effect [Write32 (base_addr ?u + 0x30) 0] s)
      (effect (replicate (Suc k) (Read32 (base_addr ?u + 0x18))) (effect [Write32 (base_addr ?u + 0x30) 0] s))"
    by (rule clears_after_busy [OF flag]) (use assms(1) in \<open>simp add: hw_effect run_regops_def\<close>)
  from UartPl011_configure_program [OF this assms(2-4)] assms(5)
  show "configure_uart s = (Inr (), effect
        (Write32 (base_addr ?u + 0x30) 0 # replicate (Suc k) (Read32 (base_addr ?u + 0x18)) @
        [Modify32 (base_addr ?u + 0x2c) (\<lambda>v. v AND NOT 16),
         Write32 (base_addr ?u + 0x24) (of_nat (baud_div ?u div 64 mod 65536)),
         Write32 (base_addr ?u + 0x28) (of_nat (baud_div ?u mod 64)),
         Write32 (base_addr ?u + 0x2c) (lcr_value ?u),
         Modify32 (base_addr ?u + 0x38) (\<lambda>v. v OR 16),
         Write32 (base_addr ?u + 0x48) 1,
         Modify32 (base_addr ?u + 0x30) (\<lambda>v. v OR 0x201)]) s)"
    by (simp add: configure_uart_def configure_program_def)
  show "64 * unat (of_nat (baud_div ?u div 64 mod 65536) :: u32) + unat (of_nat (baud_div ?u mod 64) :: u32) =
      64 * unat (base_clock ?u) div (16 * unat (baudrate ?u))"
    unfolding i f d by simp
  show "unat (of_nat (baud_div ?u mod 64) :: u32) < 64" unfolding f by simp
  show "unat (lcr_value ?u) = 32 * (unat (data_bits ?u) - 5) + (if stop_bits ?u = 2 then 8 else 0) + 16"
    using assms(5,6) by (rule unat_lcr_value)
qed

definition uart_example :: "store_hw kernel" where
  "uart_example =
     \<lparr>bus = store_bus, hw = store_hw0, ram = (\<lambda>_. None), spin = 1,
      DEVICE_COUNT = 0, DEVICE_TABLE = [], PHANDLE_COUNT = 0, PHANDLE_TABLE = [],
      GIC = \<lparr>dist_addr = 0x8000000, redist_addr = 0x80A0000\<rparr>,
      UART = UartPl011_init UartPl011_new 0x9000000 24000000,
      RX_BUFFER = Mutex_new UartBuffer_init\<rparr>"

lemma uart_example_simps [simp]:
  "UART uart_example = \<lparr>base_addr = 0x9000000, base_clock = 24000000, baudrate = 115200, data_bits = 8, stop_bits = 1\<rparr>"
  "spin uart_example = 1" "bus uart_example = store_bus" "hw uart_example = store_hw0"
  by (simp_all add: uart_example_def UartPl011_init_def UartPl011_new_def)

lemma rx_ok_example: "rx_ok uart_example" and rx_bytes_example: "rx_bytes uart_example = []"
  by (simp_all add: rx_ok_def rx_bytes_def uart_example_def Mutex_new_def ring_inv_init ring_list_init)

text \<open>The same machine with one received byte.\<close>

definition uart_example_rx :: "store_hw kernel" where
  "uart_example_rx = with_rx (UartBuffer_init\<lparr>ub_buffer := replicate 255 0 @ [65], ub_tail := 255\<rparr>) uart_example"

lemma getchar_pops_oldest_witness:
  "fst (getchar uart_example) = Inr None \<and> fst (getchar uart_example_rx) = Inr (Some 65)"
proof -
  let ?q = "UartBuffer_init\<lparr>ub_buffer := replicate 255 0 @ [65], ub_tail := 255\<rparr>"
  have "ring_inv ?q" "ring_list ?q = [65]"
    by (simp_all add: ring_inv_def ring_list_def ring_len_def UartBuffer_init_def nth_append)
  then have "rx_ok uart_example_rx" "rx_bytes uart_example_rx = [65]" "spin uart_example_rx = 1"
    by (simp_all add: uart_example_rx_def)
  then show ?thesis
    using getchar_pops_oldest [OF rx_ok_example] getchar_pops_oldest [of uart_example_rx] rx_bytes_example
    by fastforce
qed

text \<open>A UART with a transmitter of one byte: after a write the FIFO is full until the flags have been looked at once.\<close>

definition slow_bus :: "store_hw Machine.bus" where
  "slow_bus = store_bus
     \<lparr>bus_read32 := (\<lambda>a h. (sh_reg h a, if a = 0x9000018 then h\<lparr>sh_reg := (sh_reg h)(a := 0)\<rparr> else h)),
      bus_write32 := (\<lambda>a v h. h\<lparr>sh_reg := if a = 0x9000000 then (sh_reg h)(0x9000018 := 32) else (sh_reg h)(a := v)\<rparr>)\<rparr>"

definition uart_example_tx :: "store_hw kernel" where
  "uart_example_tx = uart_example\<lparr>bus := slow_bus, spin := 2\<rparr>"

lemma uart_example_tx_simps [simp]:
  "bus uart_example_tx = slow_bus" "spin uart_example_tx = 2" "hw uart_example_tx = store_hw0" "UART uart_example_tx = UART uart_example"
  "putchar_base (UART uart_example) = 0x9000000" "RX_BUFFER uart_example_tx = RX_BUFFER uart_example"
  by (simp_all add: uart_example_tx_def putchar_base_def)

lemma tx_polls_slow: "tx_polls slow_bus 0x9000000 2 h = (if bit (sh_reg h 0x9000018) 5 then 1 else 0)"
proof -
  have "tx_polls slow_bus 0x9000000 (Suc (Suc 0)) h = (if bit (sh_reg h 0x9000018) 5 then 1 else 0)"
    by (simp add: slow_bus_def)
  then show ?thesis by (simp only: numeral_2_eq_2)
qed

lemma tx_drains_slow: "tx_drains slow_bus 0x9000000 2"
  by (simp add: tx_drains_def tx_polls_slow)

lemma tx_ready_example: "tx_ready uart_example_tx"
  unfolding tx_ready_def uart_example_tx_simps by (rule tx_drains_slow)

text \<open>A machine whose FIFO is full at first; with registers that only store, its flags never clear.\<close>

definition uart_example_full :: "store_hw kernel" where
  "uart_example_full = uart_example_tx\<lparr>hw := store_hw0\<lparr>sh_reg := (\<lambda>_. 0)(0x9000018 := 0x20)\<rparr>\<rparr>"

theorem putchar_waits_for_room_witness:
  "putchar 65 uart_example_full = (Inr (), effect [Read32 0x9000018, Read32 0x9000018, Write32 0x9000000 65] uart_example_full) \<and>
   putchar 65 (uart_example_full\<lparr>bus := store_bus\<rparr>) =
     (Inl Hang, effect [Read32 0x9000018, Read32 0x9000018] (uart_example_full\<lparr>bus := store_bus\<rparr>))"
proof -
  have u: "UART uart_example_full = UART uart_example" "spin uart_example_full = 2" "bus uart_example_full = slow_bus"
    "hw uart_example_full = store_hw0\<lparr>sh_reg := (\<lambda>_. 0)(0x9000018 := 0x20)\<rparr>" by (simp_all add: uart_example_full_def)
  have clears: "clears_after slow_bus 0x9000018 0x20 (Suc 0) (hw uart_example_full)" by (simp add: u slow_bus_def)
  have "\<not> clears_after store_bus 0x9000018 0x20 k (hw uart_example_full)" for k
    by (induction k) (simp_all add: u store_bus_def)
  moreover have "replicate 2 x = [x, x]" for x :: regop by (simp add: numeral_2_eq_2)
  ultimately show ?thesis
    using clears putchar_waits_for_room [of "0x9000000" uart_example_full "Suc 0" 65]
      putchar_waits_for_room [of "0x9000000" "uart_example_full\<lparr>bus := store_bus\<rparr>" 0 65]
    by (simp add: u)
qed

lemma print_sends_bytes_in_order_witness:
  "println ''Hi'' uart_example_tx = seq_M (print ''Hi'') (putchar 10) uart_example_tx \<and>
   (\<exists>ops. print ''Hi'' uart_example_tx = (Inr (), effect ops uart_example_tx) \<and> transmits 0x9000000 [72, 105] ops)"
proof -
  have bytes: "str_bytes ''Hi'' = [72, 105]" by (simp add: str_bytes_def)
  show ?thesis
    using print_sends_bytes_in_order [OF tx_ready_example, of "''Hi''" "[]"] unfolding bytes uart_example_tx_simps by blast
qed

text \<open>The transmitter makes the driver wait for the second byte.\<close>

lemma tx_example_waits:
  "tx_ops slow_bus 0x9000000 2 [72, 105] store_hw0 =
     [Read32 0x9000018, Write32 0x9000000 72, Read32 0x9000018, Read32 0x9000018, Write32 0x9000000 105]"
  by (simp add: tx_polls_slow Let_def run_regops_def) (simp add: slow_bus_def store_hw0_def)

theorem uart_configure_program_witness:
  "\<exists>ibrd fbrd lcr. configure_uart uart_example =
      (Inr (), effect [Write32 0x9000030 0, Read32 0x9000018, Modify32 0x900002c (\<lambda>v. v AND NOT 16),
          Write32 0x9000024 ibrd, Write32 0x9000028 fbrd, Write32 0x900002c lcr,
          Modify32 0x9000038 (\<lambda>v. v OR 16), Write32 0x9000048 1, Modify32 0x9000030 (\<lambda>v. v OR 0x201)] uart_example) \<and>
     64 * unat ibrd + unat fbrd = 833 \<and> unat fbrd < 64 \<and> unat lcr = 112"
  using uart_configure_program [of uart_example 0] by (simp add: store_bus_def store_hw0_def)

section \<open>Setup from the device tree\<close>

text \<open>What configuring a shared interrupt comes to: trigger, priority 0, Group 1, routing, enable.\<close>

definition spi_program :: "usize \<Rightarrow> u32 \<Rightarrow> bool \<Rightarrow> regop list" where
  "spi_program dist intid edge =
     [Modify32 (dist + 0xC00 + 4 * ucast (intid div 16)) (set_trigger (unat intid mod 16) edge), Fence DSB_SY,
      Modify32 (dist + 0x400 + 4 * ucast (intid div 4)) (set_byte (unat intid mod 4) 0), Fence DSB_SY,
      Modify32 (dist + 0x080 + 4 * ucast (intid div 32)) (set_bit (unat intid mod 32)), Fence DSB_SY,
      Write64 (dist + 0x6100 + 8 * ucast intid) 0, Fence DSB_SY,
      Write32 (dist + 0x100 + 4 * ucast (intid div 32)) (push_bit (unat intid mod 32) 1), Fence DSB_SY]"

lemma configure_spi_program:
  assumes "info ! 0 = 0" and "unat (info ! 1) < 988"
    and "unat (dist_addr (GIC s)) + 0x10000 < 2 ^ 64"
  shows "configure_spi info s =
    (Inr (), effect (spi_program (dist_addr (GIC s)) (32 + info ! 1) (info ! 2 AND 3 \<noteq> 0)) s)"
proof -
  have fits: "unat (32 :: u32) + unat (info ! 1) < 2 ^ LENGTH(32)" using assms(2) by simp
  then have "unat (32 + info ! 1) = 32 + unat (info ! 1)"
    using unat_add_lem [of "32 :: u32" "info ! 1"] by simp
  with assms fits show ?thesis
    by (simp add: configure_spi_def spi_program_def gic_wrapper_defs gic_method_programs)
qed

lemma uart_setup_interrupt_program:
  assumes "find_property dev ''interrupts'' s = (Inr (Some p), s)"
    and "find_interrupt_parent dev s = (Inr (Some intc), s)"
    and "interrupt_cells_of intc s = (Inr n, s)"
    and "holds_bytes (ram s) (prop_value p) (cells_bytes spec)"
    and "length spec = min (unat n) 4" and "3 \<le> unat n"
    and "spec ! 0 = 0" and "unat (spec ! 1) < 988"
    and "unat (dist_addr (GIC s)) + 0x10000 < 2 ^ 64"
  shows "uart_setup_interrupt dev s =
    (Inr (), effect (spi_program (dist_addr (GIC s)) (32 + spec ! 1) (spec ! 2 AND 3 \<noteq> 0)) s)"
proof -
  let ?info = "spec @ replicate (4 - length spec) 0"
  have "read_interrupt_info (prop_value p) n s = (Inr ?info, s)"
    using assms(4,5) by (rule read_interrupt_info_holds)
  moreover have "?info ! 0 = spec ! 0" "?info ! 1 = spec ! 1" "?info ! 2 = spec ! 2"
    using assms(5,6) by (simp_all add: nth_append)
  moreover have "configure_spi ?info s =
    (Inr (), effect (spi_program (dist_addr (GIC s)) (32 + ?info ! 1) (?info ! 2 AND 3 \<noteq> 0)) s)"
    by (rule configure_spi_program) (use assms calculation in simp_all)
  ultimately show ?thesis using assms(1-3) by (simp add: uart_setup_interrupt_def)
qed

lemma uart_setup_clock_value:
  assumes "find_property dev ''clocks'' s = (Inr (Some c), s)" and "cell_at s (prop_value c) ph"
    and "tables_ok s" and "phandle_device s ph = Some clk"
    and "find_property clk ''clock-frequency'' s = (Inr (Some f), s)" and "cell_at s (prop_value f) freq"
  shows "uart_setup_clock dev (effect ops s) = (Inr freq, effect ops s)"
  using assms find_property_state [OF assms(1), of "effect ops s"] find_property_state [OF assms(5), of "effect ops s"]
    read_cell_at [of "effect ops s" "prop_value c" ph] read_cell_at [of "effect ops s" "prop_value f" freq]
  by (simp add: uart_setup_clock_def find_device_by_phandle_eq)

lemma uart_setup_after_interrupt:
  assumes u_def: "u = (UART s)\<lparr>base_addr := cells_value addr, base_clock := freq\<rparr>"
    and "get_parent_cells dev s = (Inr (ac, sc), s)"
    and "find_property dev ''reg'' s = (Inr (Some r), s)"
    and "holds_bytes (ram s) (prop_value r) (cells_bytes addr)" and "length addr = unat ac"
    and irq: "uart_setup_interrupt dev s = (Inr (), effect ops s)"
    and "find_property dev ''clocks'' s = (Inr (Some c), s)" and "cell_at s (prop_value c) ph"
    and "tables_ok s" and "phandle_device s ph = Some clk"
    and "find_property clk ''clock-frequency'' s = (Inr (Some f), s)" and "cell_at s (prop_value f) freq"
    and "4 * unat freq < 2 ^ 32" and "baudrate (UART s) \<noteq> 0" and "1 \<le> unat (data_bits (UART s))"
    and "busy_after j (flag_set (base_addr u) FR_BUSY) (effect (ops @ [Write32 (base_addr u + 0x30) 0]) (s\<lparr>UART := u\<rparr>)) t"
    and "j < spin s"
  shows "uart_setup dev s = (Inr (), effect (configure_program u) t)"
proof -
  let ?s = "effect ops s"
  have reg: "read_cells (prop_value r) ac s = (Inr (cells_value addr), s)"
    using assms(4,5) by (rule read_cells_holds)
  have clock: "uart_setup_clock dev ?s = (Inr freq, ?s)"
    using assms(7-12) by (rule uart_setup_clock_value)
  have uart: "?s\<lparr>UART := UartPl011_init (UART ?s) (cells_value addr) freq\<rparr> = effect ops (s\<lparr>UART := u\<rparr>)"
    by (simp add: effect_def UartPl011_init_def u_def)
  have "UartPl011_configure u (effect ops (s\<lparr>UART := u\<rparr>)) = (Inr (), effect (configure_program u) t)"
    using assms(13-17) by (intro UartPl011_configure_program [of j]) (simp_all add: u_def)
  then have "configure_uart (effect ops (s\<lparr>UART := u\<rparr>)) = (Inr (), effect (configure_program u) t)"
    by (simp add: configure_uart_def)
  with reg irq clock uart show ?thesis
    using assms(2,3) by (simp add: uart_setup_def init_uart_def)
qed

text \<open>
  Setting up the UART. For a node with a \<open>reg\<close> property, an interrupt specifier that names a shared interrupt
  \<open>k < 988\<close>, and a clock reference whose node gives a frequency, and a UART that becomes idle after \<open>j\<close> polls,
  \<open>setup\<close> returns: it configures interrupt \<open>32 + k\<close> in the distributor (edge or level as the flags
  say, highest priority, Group 1, routed to processor 0, enabled last), stores the address and the clock
  of the tree in the driver, and then configures the device at that address for that clock.
\<close>

lemma uart_setup_from_tree:
  assumes u_def: "u = (UART s)\<lparr>base_addr := cells_value addr, base_clock := freq\<rparr>"
    and "get_parent_cells dev s = (Inr (ac, sc), s)"
    and "find_property dev ''reg'' s = (Inr (Some r), s)"
    and "holds_bytes (ram s) (prop_value r) (cells_bytes addr)" and "length addr = unat ac"
    and "find_property dev ''interrupts'' s = (Inr (Some p), s)"
    and "find_interrupt_parent dev s = (Inr (Some intc), s)" and "interrupt_cells_of intc s = (Inr n, s)"
    and "holds_bytes (ram s) (prop_value p) (cells_bytes spec)" and "length spec = min (unat n) 4"
    and "3 \<le> unat n" and "spec ! 0 = 0" and "unat (spec ! 1) < 988"
    and "unat (dist_addr (GIC s)) + 0x10000 < 2 ^ 64"
    and "find_property dev ''clocks'' s = (Inr (Some c), s)" and "cell_at s (prop_value c) ph"
    and "tables_ok s" and "phandle_device s ph = Some clk"
    and "find_property clk ''clock-frequency'' s = (Inr (Some f), s)" and "cell_at s (prop_value f) freq"
    and "4 * unat freq < 2 ^ 32" and "baudrate (UART s) \<noteq> 0" and "1 \<le> unat (data_bits (UART s))"
    and "busy_after j (flag_set (base_addr u) FR_BUSY)
      (effect (spi_program (dist_addr (GIC s)) (32 + spec ! 1) (spec ! 2 AND 3 \<noteq> 0) @ [Write32 (base_addr u + 0x30) 0])
         (s\<lparr>UART := u\<rparr>)) t"
    and "j < spin s"
  shows "uart_setup dev s = (Inr (), effect (configure_program u) t)"
  using assms uart_setup_interrupt_program [OF assms(6-14)]
  by (intro uart_setup_after_interrupt [OF u_def assms(2-5) _ assms(15-25)])

text \<open>A tree with a root, an interrupt controller (phandle 7) and a clock (phandle 8), for the witness.\<close>

definition uart_example_prop :: "string \<Rightarrow> u64 \<Rightarrow> property" where
  "uart_example_prop name addr = \<lparr>prop_name = name, prop_value = addr, prop_len = 4\<rparr>"

lemma uart_example_prop_value [simp]: "prop_value (uart_example_prop name addr) = addr"
  by (simp add: uart_example_prop_def)

definition uart_example_dev :: "nat option \<Rightarrow> property list \<Rightarrow> platform_device" where
  "uart_example_dev parent props =
     \<lparr>dev_parent = parent, dev_name = [], dev_properties = props @ replicate (16 - length props) Property_new,
      prop_count = length props\<rparr>"

definition uart_example_tree :: "store_hw kernel" where
  "uart_example_tree = uart_example
     \<lparr>ram := mem_at 0x1000 (cells_bytes ([7] @ [0, 0x9000000] @ [0, 1, 4] @ [8] @ [24000000])),
      DEVICE_COUNT := 3,
      DEVICE_TABLE :=
        [uart_example_dev None [uart_example_prop ''interrupt-parent'' 0x1000],
         uart_example_dev (Some 0) [],
         uart_example_dev (Some 0) [uart_example_prop ''clock-frequency'' 0x101C]] @ replicate 253 PlatformDevice_new,
      PHANDLE_COUNT := 2, PHANDLE_TABLE := [(7, 1), (8, 2)] @ replicate 30 (0, 0)\<rparr>"

definition uart_example_node :: platform_device where
  "uart_example_node = uart_example_dev (Some 0)
     [uart_example_prop ''reg'' 0x1004, uart_example_prop ''interrupts'' 0x100C, uart_example_prop ''clocks'' 0x1018]"

lemma uart_example_tree_ok: "tables_ok uart_example_tree"
  by (simp add: tables_ok_def uart_example_tree_def MAX_DEVICES_def MAX_HANDLES_def MAX_PROPS_def numeral_3_eq_3
      numeral_2_eq_2 all_less_Suc_split dev_ok_def parent_below_def uart_example_dev_def)

lemma uart_example_tree_mem:
  "cell_at uart_example_tree 0x1000 7"
  "holds_bytes (ram uart_example_tree) 0x1004 (cells_bytes [0, 0x9000000])"
  "holds_bytes (ram uart_example_tree) 0x100C (cells_bytes [0, 1, 4])"
  "cell_at uart_example_tree 0x1018 8" "cell_at uart_example_tree 0x101C 24000000"
proof -
  have "holds_bytes (ram uart_example_tree) 0x1000 (cells_bytes ([7] @ [0, 0x9000000] @ [0, 1, 4] @ [8] @ [24000000]))"
    using holds_bytes_mem_at [of "cells_bytes ([7] @ [0, 0x9000000] @ [0, 1, 4] @ [8] @ [24000000])" "0x1000"]
    by (simp add: uart_example_tree_def)
  then show "cell_at uart_example_tree 0x1000 7"
    "holds_bytes (ram uart_example_tree) 0x1004 (cells_bytes [0, 0x9000000])"
    "holds_bytes (ram uart_example_tree) 0x100C (cells_bytes [0, 1, 4])"
    "cell_at uart_example_tree 0x1018 8" "cell_at uart_example_tree 0x101C 24000000"
    unfolding cells_bytes_simps holds_bytes_append cell_at_def by simp_all
qed

lemma uart_example_tree_lookups:
  "get_parent_cells uart_example_node uart_example_tree = (Inr (2, 1), uart_example_tree)"
  "find_interrupt_parent uart_example_node uart_example_tree = (Inr (Some (uart_example_dev (Some 0) [])), uart_example_tree)"
  "interrupt_cells_of (uart_example_dev (Some 0) []) uart_example_tree = (Inr 3, uart_example_tree)"
  "phandle_device uart_example_tree 8 = Some (uart_example_dev (Some 0) [uart_example_prop ''clock-frequency'' 0x101C])"
proof -
  let ?root = "uart_example_dev None [uart_example_prop ''interrupt-parent'' 0x1000]"
  have root: "deref_device 0 uart_example_tree = (Inr ?root, uart_example_tree)"
    by (simp add: deref_device_def uart_example_tree_def)
  have parent: "dev_parent uart_example_node = Some 0" by (simp add: uart_example_node_def uart_example_dev_def)
  show "get_parent_cells uart_example_node uart_example_tree = (Inr (2, 1), uart_example_tree)"
    using root by (simp add: get_parent_cells_def parent) (simp add: uart_example_dev_def uart_example_prop_def parent_cells_step_def)
  have "phandle_device uart_example_tree 7 = Some (uart_example_dev (Some 0) [])"
    by (simp add: phandle_device_def uart_example_tree_def)
  then show "find_interrupt_parent uart_example_node uart_example_tree =
      (Inr (Some (uart_example_dev (Some 0) [])), uart_example_tree)"
    using root read_cell_at [OF uart_example_tree_mem(1)]
    by (simp add: find_interrupt_parent_def parent)
      (simp add: uart_example_dev_def uart_example_prop_def find_device_by_phandle_eq [OF uart_example_tree_ok])
  show "interrupt_cells_of (uart_example_dev (Some 0) []) uart_example_tree = (Inr 3, uart_example_tree)"
    by (simp add: interrupt_cells_of_def find_property_def uart_example_dev_def)
  show "phandle_device uart_example_tree 8 = Some (uart_example_dev (Some 0) [uart_example_prop ''clock-frequency'' 0x101C])"
    by (simp add: phandle_device_def uart_example_tree_def)
qed

lemma uart_example_tree_props:
  "find_property uart_example_node ''reg'' s = (Inr (Some (uart_example_prop ''reg'' 0x1004)), s)"
  "find_property uart_example_node ''interrupts'' s = (Inr (Some (uart_example_prop ''interrupts'' 0x100C)), s)"
  "find_property uart_example_node ''clocks'' s = (Inr (Some (uart_example_prop ''clocks'' 0x1018)), s)"
  "find_property (uart_example_dev (Some 0) [uart_example_prop ''clock-frequency'' 0x101C]) ''clock-frequency'' s =
     (Inr (Some (uart_example_prop ''clock-frequency'' 0x101C)), s)"
  by (simp_all add: find_property_def uart_example_node_def uart_example_dev_def uart_example_prop_def)

lemma uart_setup_from_tree_witness:
  "\<exists>t. uart_setup uart_example_node uart_example_tree = (Inr (), t) \<and>
     base_addr (UART t) = 0x9000000 \<and> base_clock (UART t) = 24000000"
proof -
  let ?s = "uart_example_tree"
  let ?u = "(UART ?s)\<lparr>base_addr := 0x9000000, base_clock := 24000000\<rparr>"
  let ?t = "effect (spi_program 0x8000000 33 False @ [Write32 0x9000030 0]) (?s\<lparr>UART := ?u\<rparr>)"
  have s: "spin ?s = 1" "dist_addr (GIC ?s) = 0x8000000" "baudrate (UART ?s) = 115200" "data_bits (UART ?s) = 8"
    "bus ?s = store_bus" "hw ?s = store_hw0"
    by (simp_all add: uart_example_tree_def) (simp add: uart_example_def)
  have idle: "busy_after 0 (flag_set 0x9000000 FR_BUSY) ?t (effect [Read32 0x9000018] ?t)"
    by (simp add: flag_set_effect peek32_def hw_effect run_regops_def s spi_program_def)
      (simp add: store_bus_def store_hw0_def)
  have addr: "cells_value [0, 0x9000000] = 0x9000000" by (simp add: cells_value_def)
  have "uart_setup uart_example_node ?s = (Inr (), effect (configure_program ?u) (effect [Read32 0x9000018] ?t))"
    using uart_setup_from_tree [of ?u 24000000 "[0, 0x9000000]" ?s uart_example_node 2 1
        "uart_example_prop ''reg'' 0x1004" "uart_example_prop ''interrupts'' 0x100C" "uart_example_dev (Some 0) []" 3
        "[0, 1, 4]" "uart_example_prop ''clocks'' 0x1018" 8
        "uart_example_dev (Some 0) [uart_example_prop ''clock-frequency'' 0x101C]"
        "uart_example_prop ''clock-frequency'' 0x101C" 0 "effect [Read32 0x9000018] ?t"] idle
      uart_example_tree_mem
    by (simp add: uart_example_tree_lookups uart_example_tree_props uart_example_tree_ok s addr)
  then show ?thesis by simp
qed

end
