(* ===== verification/Dtb.thy ===== *)
theory Dtb
  imports Pl011
begin

text \<open>
  \<^verbatim>\<open>src/kernel/dtb.rs\<close>: the parser of the flattened device tree and the initialisation of the devices it
  finds, with the driver table of \<^verbatim>\<open>src/kernel/device.rs\<close>. The lookups of \<^verbatim>\<open>dtb.rs\<close> are in the theory
  \<open>Device\<close>. The locals of \<open>parse_dtb\<close> are a record; one iteration of its loop is \<open>parse_step\<close>, which
  yields the new locals, or nothing at the end token.
\<close>

section \<open>Headers\<close>

definition MAGIC :: u32 where "MAGIC = 0xd00dfeed"
definition FDT_BEGIN_NODE :: u32 where "FDT_BEGIN_NODE = 1"
definition FDT_END_NODE :: u32 where "FDT_END_NODE = 2"
definition FDT_PROP :: u32 where "FDT_PROP = 3"
definition FDT_NOP :: u32 where "FDT_NOP = 4"
definition FDT_END :: u32 where "FDT_END = 9"

lemmas fdt_tokens = FDT_BEGIN_NODE_def FDT_END_NODE_def FDT_PROP_def FDT_NOP_def FDT_END_def

record fdt_header =
  magic :: u32
  totalsize :: u32
  off_dt_struct :: u32
  off_dt_strings :: u32
  off_mem_rsvmap :: u32
  version :: u32
  last_comp_version :: u32
  boot_cpuid_phys :: u32
  size_dt_strings :: u32
  size_dt_struct :: u32

definition FdtHeader_from_be_bytes :: "usize \<Rightarrow> (('h, 'm) machine_scheme, fdt_header) M" where
  "FdtHeader_from_be_bytes dtb_addr =
     bind_M (read_be_u32 dtb_addr 0x00) (\<lambda>v0.
     bind_M (read_be_u32 dtb_addr 0x04) (\<lambda>v1.
     bind_M (read_be_u32 dtb_addr 0x08) (\<lambda>v2.
     bind_M (read_be_u32 dtb_addr 0x0C) (\<lambda>v3.
     bind_M (read_be_u32 dtb_addr 0x10) (\<lambda>v4.
     bind_M (read_be_u32 dtb_addr 0x14) (\<lambda>v5.
     bind_M (read_be_u32 dtb_addr 0x18) (\<lambda>v6.
     bind_M (read_be_u32 dtb_addr 0x1C) (\<lambda>v7.
     bind_M (read_be_u32 dtb_addr 0x20) (\<lambda>v8.
     bind_M (read_be_u32 dtb_addr 0x24) (\<lambda>v9.
     return_M \<lparr>magic = v0, totalsize = v1, off_dt_struct = v2, off_dt_strings = v3, off_mem_rsvmap = v4,
       version = v5, last_comp_version = v6, boot_cpuid_phys = v7, size_dt_strings = v8,
       size_dt_struct = v9\<rparr>))))))))))"

record fdt_prop_header =
  ph_len :: u32
  ph_nameoff :: u32

definition FdtPropHeader_from_be_bytes :: "usize \<Rightarrow> (('h, 'm) machine_scheme, fdt_prop_header) M" where
  "FdtPropHeader_from_be_bytes prop_addr =
     bind_M (read_be_u32 prop_addr 0x00) (\<lambda>len.
     bind_M (read_be_u32 prop_addr 0x04) (\<lambda>nameoff.
     return_M \<lparr>ph_len = len, ph_nameoff = nameoff\<rparr>))"

text \<open>\<open>while *start.add(len) != 0 { len += 1 }\<close>, with the overflow of the counter written out.\<close>

function cstr_len :: "u64 \<Rightarrow> nat \<Rightarrow> (('h, 'm) machine_scheme, nat) M" where
  "cstr_len start len =
     bind_M (load_u8 (start + of_nat len)) (\<lambda>b.
       if b \<noteq> 0
       then if Suc len < 2 ^ 64 then cstr_len start (Suc len) else fail_M Panic
       else return_M len)"
  by pat_completeness auto
termination
  by (relation "measure (\<lambda>(start, len). 2 ^ 64 - len)") auto

declare cstr_len.simps [simp del]

definition get_property_name :: "usize \<Rightarrow> usize \<Rightarrow> u32 \<Rightarrow> (('h, 'm) machine_scheme, string) M" where
  "get_property_name dtb_addr off_strings offset =
     bind_M (checked_add dtb_addr off_strings) (\<lambda>strings_block.
     bind_M (checked_add strings_block (ucast offset)) (\<lambda>str_start.
     bind_M (cstr_len str_start 0) (\<lambda>len.
     bind_M (load_bytes len str_start) (\<lambda>slice.
     return_M (bytes_str slice)))))"

section \<open>The parser\<close>

record parse_locals =
  p_off :: usize
  prop_id :: nat
  p_stack :: "nat list"
  stack_depth :: nat

text \<open>Access to \<open>stack[stack_depth - 1]\<close>: the subtraction and the index are checked.\<close>

definition stack_top :: "parse_locals \<Rightarrow> ('s, nat) M" where
  "stack_top l = (if stack_depth l = 0 then fail_M Panic else index_M (p_stack l) (stack_depth l - 1))"

definition align4 :: "usize \<Rightarrow> ('s, usize) M" where
  "align4 off = bind_M (checked_add off 3) (\<lambda>x. return_M (x AND NOT 3))"

definition set_device :: "nat \<Rightarrow> platform_device \<Rightarrow> (('h, 'm) dt_machine_scheme, unit) M" where
  "set_device i d =
     bind_M (gets_M DEVICE_TABLE) (\<lambda>table.
     bind_M (update_M table i d) (\<lambda>table'.
     modify_M (\<lambda>s. s\<lparr>DEVICE_TABLE := table'\<rparr>)))"

definition begin_node :: "usize \<Rightarrow> parse_locals \<Rightarrow> (('h, 'm) dt_machine_scheme, parse_locals) M" where
  "begin_node structure_block l =
     bind_M (if 0 < stack_depth l
             then bind_M (stack_top l) (\<lambda>i. bind_M (deref_device i) (\<lambda>_. return_M (Some i)))
             else return_M None) (\<lambda>parent.
     bind_M (checked_add structure_block (p_off l)) (\<lambda>name_start.
     bind_M (cstr_len name_start 0) (\<lambda>name_len.
     bind_M (load_bytes name_len name_start) (\<lambda>slice.
     let device = PlatformDevice_default\<lparr>dev_parent := parent, dev_name := bytes_str slice\<rparr> in
     bind_M (checked_add (of_nat name_len) 1) (\<lambda>step.
     bind_M (checked_add (p_off l) step) (\<lambda>off.
     bind_M (align4 off) (\<lambda>off.
     bind_M (gets_M DEVICE_COUNT) (\<lambda>count.
     seq_M (set_device count device)
    (bind_M (update_M (p_stack l) (stack_depth l) count) (\<lambda>stack.
     seq_M (modify_M (\<lambda>s. s\<lparr>DEVICE_COUNT := count + 1\<rparr>))
    (return_M \<lparr>p_off = off, prop_id = 0, p_stack = stack, stack_depth = stack_depth l + 1\<rparr>)))))))))))"

definition end_node :: "parse_locals \<Rightarrow> (('h, 'm) dt_machine_scheme, parse_locals) M" where
  "end_node l =
     bind_M (stack_top l) (\<lambda>i.
     bind_M (deref_device i) (\<lambda>dev.
     seq_M (set_device i (dev\<lparr>prop_count := prop_id l\<rparr>))
    (return_M (l\<lparr>stack_depth := stack_depth l - 1\<rparr>))))"

definition register_phandle :: "string \<Rightarrow> u64 \<Rightarrow> nat \<Rightarrow> (('h, 'm) dt_machine_scheme, unit) M" where
  "register_phandle name value dev_idx =
     (if name = ''phandle''
      then bind_M (read_be_u32 value 0) (\<lambda>phandle_value.
           bind_M (gets_M PHANDLE_COUNT) (\<lambda>count.
           bind_M (gets_M PHANDLE_TABLE) (\<lambda>table.
           bind_M (update_M table count (phandle_value, dev_idx)) (\<lambda>table'.
           modify_M (\<lambda>s. s\<lparr>PHANDLE_TABLE := table', PHANDLE_COUNT := count + 1\<rparr>)))))
      else return_M ())"

definition parse_prop :: "usize \<Rightarrow> usize \<Rightarrow> usize \<Rightarrow> parse_locals \<Rightarrow> (('h, 'm) dt_machine_scheme, parse_locals) M" where
  "parse_prop dtb off_strings structure_block l =
     bind_M (checked_add structure_block (p_off l)) (\<lambda>header_addr.
     bind_M (FdtPropHeader_from_be_bytes header_addr) (\<lambda>prop_header.
     bind_M (checked_add (p_off l) 8) (\<lambda>off.
     bind_M (get_property_name dtb off_strings (ph_nameoff prop_header)) (\<lambda>name.
     bind_M (checked_add structure_block off) (\<lambda>value.
     let prop = Property_default\<lparr>prop_name := name, prop_len := ucast (ph_len prop_header), prop_value := value\<rparr> in
     bind_M (stack_top l) (\<lambda>dev_idx.
     seq_M (register_phandle name value dev_idx)
    (bind_M (deref_device dev_idx) (\<lambda>dev.
     bind_M (update_M (dev_properties dev) (prop_id l) prop) (\<lambda>props.
     seq_M (set_device dev_idx (dev\<lparr>dev_properties := props\<rparr>))
    (bind_M (checked_add off (prop_len prop)) (\<lambda>off.
     bind_M (align4 off) (\<lambda>off.
     return_M (l\<lparr>p_off := off, prop_id := prop_id l + 1\<rparr>)))))))))))))"

definition parse_step ::
    "usize \<Rightarrow> usize \<Rightarrow> usize \<Rightarrow> parse_locals \<Rightarrow> (('h, 'm) dt_machine_scheme, parse_locals option) M" where
  "parse_step dtb off_strings structure_block l =
     bind_M (read_be_u32 structure_block (p_off l)) (\<lambda>token.
     bind_M (checked_add (p_off l) 4) (\<lambda>off.
     let l = l\<lparr>p_off := off\<rparr> in
     if token = FDT_BEGIN_NODE then bind_M (begin_node structure_block l) (\<lambda>l. return_M (Some l))
     else if token = FDT_END_NODE then bind_M (end_node l) (\<lambda>l. return_M (Some l))
     else if token = FDT_PROP then bind_M (parse_prop dtb off_strings structure_block l) (\<lambda>l. return_M (Some l))
     else if token = FDT_NOP then return_M (Some l)
     else if token = FDT_END then return_M None
     else fail_M Panic))"

text \<open>Alignment rounds up to the next multiple of four.\<close>

lemma unat_and_not_3: "unat (w AND NOT 3) = unat w div 4 * 4" for w :: u64
proof -
  have "w AND NOT 3 = push_bit 2 (drop_bit 2 w)"
    by (rule bit_word_eqI) (auto simp: bit_simps bit_int_masks not_less le_add_diff_inverse2 simp flip: add_2_eq_Suc')
  moreover have "unat w div 4 * 4 < 2 ^ 64" using unat_bound_u64 [of w] by (simp add: order.strict_trans1 [OF div_times_less_eq_dividend])
  ultimately show ?thesis
    by (simp add: push_bit_eq_mult unat_word_ariths unat_drop_bit mult.commute)
qed

lemma align4_Inr:
  assumes "align4 off s = (Inr x, t)"
  shows "unat x = (unat off + 3) div 4 * 4" and "unat off \<le> unat x" and "t = s"
proof -
  obtain y s' where add: "checked_add off 3 s = (Inr y, s')" and x: "x = y AND NOT 3" "t = s'"
    using assms by (auto simp: align4_def elim!: bind_M_Inr_E)
  have y: "unat y = unat off + 3" using checked_add_Inr_unat(1) [OF add] by simp
  show "unat x = (unat off + 3) div 4 * 4" unfolding x(1) unat_and_not_3 y ..
  then show "unat off \<le> unat x" by linarith
  show "t = s" using checked_add_Inr_unat(3) [OF add] x(2) by simp
qed

text \<open>Every token moves the offset on by at least four, so the loop ends.\<close>

lemma begin_node_offset: "begin_node sb l s = (Inr l', t) \<Longrightarrow> unat (p_off l) \<le> unat (p_off l')"
  unfolding begin_node_def Let_def
  by (auto elim!: bind_M_Inr_E seq_M_Inr_E dest!: align4_Inr(2) checked_add_Inr_unat(1))

lemma end_node_offset: "end_node l s = (Inr l', t) \<Longrightarrow> p_off l' = p_off l"
  unfolding end_node_def by (auto elim!: bind_M_Inr_E seq_M_Inr_E)

lemma parse_prop_offset: "parse_prop dtb os sb l s = (Inr l', t) \<Longrightarrow> unat (p_off l) \<le> unat (p_off l')"
  unfolding parse_prop_def Let_def
  by (auto elim!: bind_M_Inr_E seq_M_Inr_E dest!: align4_Inr(2) checked_add_Inr_unat(1))

lemma parse_step_offset:
  assumes "parse_step dtb os sb l s = (Inr (Some l'), t)"
  shows "unat (p_off l) + 4 \<le> unat (p_off l')"
proof -
  obtain token off s1 s2 where off: "unat off = unat (p_off l) + 4"
    and rest: "(if token = FDT_BEGIN_NODE then bind_M (begin_node sb (l\<lparr>p_off := off\<rparr>)) (\<lambda>l. return_M (Some l))
     else if token = FDT_END_NODE then bind_M (end_node (l\<lparr>p_off := off\<rparr>)) (\<lambda>l. return_M (Some l))
     else if token = FDT_PROP then bind_M (parse_prop dtb os sb (l\<lparr>p_off := off\<rparr>)) (\<lambda>l. return_M (Some l))
     else if token = FDT_NOP then return_M (Some (l\<lparr>p_off := off\<rparr>))
     else if token = FDT_END then return_M None else fail_M Panic) s2 = (Inr (Some l'), t)"
    using assms unfolding parse_step_def Let_def by (auto elim!: bind_M_Inr_E dest!: checked_add_Inr_unat(1))
  have "unat off \<le> unat (p_off l')"
    using rest by (auto split: if_splits elim!: bind_M_Inr_E
        dest: begin_node_offset end_node_offset parse_prop_offset)
  with off show ?thesis by simp
qed

function parse_loop ::
    "usize \<Rightarrow> usize \<Rightarrow> usize \<Rightarrow> parse_locals \<Rightarrow> ('h, 'm) dt_machine_scheme \<Rightarrow> (fault + unit) \<times> ('h, 'm) dt_machine_scheme"
where
  "parse_loop dtb off_strings structure_block l s =
     bind_M (parse_step dtb off_strings structure_block l)
       (\<lambda>next t. case next of None \<Rightarrow> (Inr (), t)
                            | Some l' \<Rightarrow> parse_loop dtb off_strings structure_block l' t) s"
  by pat_completeness auto
termination
proof (relation "measure (\<lambda>(dtb, os, sb, l, s). 2 ^ 64 - unat (p_off l))", goal_cases)
  case 1
  then show ?case by simp
next
  case (2 dtb os sb l s r t l')
  have "unat (p_off l) + 4 \<le> unat (p_off l')" by (rule parse_step_offset) (use 2 in simp)
  moreover have "unat (p_off l') < 2 ^ 64" using unat_bound_u64 by simp
  ultimately show ?case by simp
qed

declare parse_loop.simps [simp del]

section \<open>The driver table and the initialisation of the devices\<close>

type_synonym 's device_match = "string \<times> (platform_device \<Rightarrow> ('s, unit) M)"

definition CONFIGURED_DEVICES :: "('h, 'm) kernel_scheme device_match list" where
  "CONFIGURED_DEVICES =
     [(''arm,gic-v3'', gic_setup), (''arm,pl011'', uart_setup), (''arm,armv7-timer'', timer_setup)]"

text \<open>The inner loop over the driver table: the first entry that matches is set up.\<close>

primrec match_driver ::
    "(('h, 'm) machine_scheme) device_match list \<Rightarrow> property \<Rightarrow> platform_device \<Rightarrow> (('h, 'm) machine_scheme, unit) M" where
  "match_driver [] compat_prop dev = return_M ()"
| "match_driver (entry # entries) compat_prop dev =
     bind_M (compatible_matches compat_prop (fst entry)) (\<lambda>b.
       if b then snd entry dev else match_driver entries compat_prop dev)"

text \<open>One pass over the devices: those that are interrupt controllers, or those that are not.\<close>

definition init_device ::
    "(('h, 'm) dt_machine_scheme) device_match list \<Rightarrow> bool \<Rightarrow> nat \<Rightarrow> (('h, 'm) dt_machine_scheme, unit) M" where
  "init_device drivers gic i =
     bind_M (deref_device i) (\<lambda>dev.
     bind_M (find_property dev ''compatible'') (\<lambda>found.
     case found of
       None \<Rightarrow> return_M ()
     | Some compat_prop \<Rightarrow>
         bind_M (compatible_matches compat_prop ''arm,gic-v3'') (\<lambda>is_gic.
           if is_gic = gic then match_driver drivers compat_prop dev else return_M ())))"

definition init_pass ::
    "(('h, 'm) dt_machine_scheme) device_match list \<Rightarrow> bool \<Rightarrow> (('h, 'm) dt_machine_scheme, unit) M" where
  "init_pass drivers gic = bind_M (gets_M DEVICE_COUNT) (\<lambda>n. for_M [0..<n] (init_device drivers gic))"

definition init_devices :: "(('h, 'm) kernel_scheme, unit) M" where
  "init_devices = seq_M (init_pass CONFIGURED_DEVICES True) (init_pass CONFIGURED_DEVICES False)"

definition parse_dtb :: "usize \<Rightarrow> (('h, 'm) kernel_scheme, unit) M" where
  "parse_dtb dtb =
     bind_M (FdtHeader_from_be_bytes dtb) (\<lambda>header.
     if magic header \<noteq> MAGIC then fail_M Panic
     else bind_M (checked_add dtb (ucast (off_dt_struct header))) (\<lambda>structure_block.
          seq_M (parse_loop dtb (ucast (off_dt_strings header)) structure_block
                   \<lparr>p_off = 0, prop_id = 0, p_stack = replicate 10 0, stack_depth = 0\<rparr>)
                init_devices))"

section \<open>The drivers leave the tables alone\<close>

definition dt_view :: "('h, 'm) dt_machine_scheme \<Rightarrow>
    (u64 \<Rightarrow> u8 option) \<times> nat \<times> platform_device list \<times> nat \<times> (u32 \<times> nat) list" where
  "dt_view s = (ram s, DEVICE_COUNT s, DEVICE_TABLE s, PHANDLE_COUNT s, PHANDLE_TABLE s)"

lemma off_hw_dt_view [simp]: "off_hw dt_view"
  by (simp add: off_hw_def dt_view_def)

lemma keeps_read_cells [keeps_rules]: "keeps f (read_cells p n)" "keeps f (read_interrupt_info p n)"
  "keeps f (interrupt_cells_of d)"
  unfolding read_cells_def read_interrupt_info_def interrupt_cells_of_def by (intro keeps_rules)+

text \<open>
  A part of the state that no driver changes: neither registers, nor the addresses of the interrupt controller, nor the address and the
  clock of the UART.
\<close>

definition off_drivers :: "(('h, 'm) kernel_scheme \<Rightarrow> 'x) \<Rightarrow> bool" where
  "off_drivers f \<longleftrightarrow> off_hw f \<and> (\<forall>s g. f (s\<lparr>GIC := g\<rparr>) = f s) \<and> 
     (\<forall>s a c. f (s\<lparr>UART := UartPl011_init (UART s) a c\<rparr>) = f s)"

lemma off_drivers_hw: "off_drivers f \<Longrightarrow> off_hw f"
  by (simp add: off_drivers_def)

lemma off_drivers_dt_view [simp]: "off_drivers dt_view"
  by (simp add: off_drivers_def off_hw_def dt_view_def)

lemma keeps_driver_statics [keeps_rules]:
  "off_drivers f \<Longrightarrow> keeps f (modify_M (\<lambda>s. s\<lparr>GIC := g s\<rparr>))" "off_drivers f \<Longrightarrow> keeps f (init_uart a c)"
  by (simp_all add: keeps_def off_drivers_def init_uart_def)

lemmas gic_op_defs = gic_wrapper_defs Gicv3_set_spi_priority_def Gicv3_set_spi_trigger_level_def
  Gicv3_set_spi_trigger_edge_def Gicv3_enable_spi_def Gicv3_set_spi_group_def Gicv3_set_spi_routing_def
  Gicv3_set_ppi_priority_def Gicv3_set_ppi_trigger_level_def Gicv3_set_ppi_trigger_edge_def
  Gicv3_set_ppi_group_def Gicv3_enable_ppi_def

lemma keeps_gic_ops [keeps_rules]:
  assumes "off_hw f"
  shows "keeps f (enable_spi i)" "keeps f (set_spi_priority i p)" "keeps f (set_spi_trigger_level i)"
    "keeps f (set_spi_trigger_edge i)" "keeps f (set_spi_group i)" "keeps f (set_spi_routing i a)"
    "keeps f (set_ppi_priority i p)" "keeps f (set_ppi_group i)" "keeps f (enable_ppi i)"
    "keeps f (set_ppi_trigger_level i)" "keeps f (set_ppi_trigger_edge i)"
  unfolding gic_op_defs by (intro keeps_rules assms)+

lemma keeps_gic_setup [keeps_rules]: "off_drivers f \<Longrightarrow> keeps f (gic_setup d)"
  unfolding gic_setup_def init_gic_def Gicv3_init_gic_distributor_def Gicv3_init_gic_redistributor_def
    children_asleep_def set_priority_mask_def enable_grp1_ints_def
  by (intro keeps_rules off_drivers_hw)

lemma keeps_timer_setup [keeps_rules]: "off_drivers f \<Longrightarrow> keeps f (timer_setup d)"
  unfolding timer_setup_def configure_ppi_def by (intro keeps_rules off_drivers_hw)

lemma keeps_uart_setup [keeps_rules]: "off_drivers f \<Longrightarrow> keeps f (uart_setup d)"
  unfolding uart_setup_def uart_setup_interrupt_def uart_setup_clock_def configure_spi_def
    configure_uart_def UartPl011_configure_def UartPl011_set_speed_def flag_set_def
  by (intro keeps_rules off_drivers_hw)

section \<open>Which drivers run, and in which order\<close>

text \<open>
  \<open>strs\<close> gives the strings of a property. \<open>compat_ok\<close> says that the property's value can be read and that they are the pieces
  between its zero bytes.
\<close>

definition compat_ok :: "(property \<Rightarrow> string list) \<Rightarrow> (u64 \<Rightarrow> u8 option) \<Rightarrow> property \<Rightarrow> bool" where
  "compat_ok strs mem p \<longleftrightarrow>
     (\<exists>bs. holds_bytes mem (prop_value p) bs \<and> unat (prop_len p) = length bs \<and> strs p = map bytes_str (split_nul bs)) \<and>
     unat (prop_len p) + 1 < 2 ^ 64"

definition compat_prop_of :: "platform_device \<Rightarrow> property option" where
  "compat_prop_of d = find (\<lambda>p. prop_name p = ''compatible'') (dev_props d)"

definition compat_strings :: "(property \<Rightarrow> string list) \<Rightarrow> platform_device \<Rightarrow> string list" where
  "compat_strings strs d = (case compat_prop_of d of None \<Rightarrow> [] | Some p \<Rightarrow> strs p)"

definition devices :: "('h, 'm) dt_machine_scheme \<Rightarrow> platform_device list" where
  "devices s = take (DEVICE_COUNT s) (DEVICE_TABLE s)"

definition compat_wf :: "(property \<Rightarrow> string list) \<Rightarrow> ('h, 'm) dt_machine_scheme \<Rightarrow> bool" where
  "compat_wf strs s \<longleftrightarrow>
     DEVICE_COUNT s \<le> length (DEVICE_TABLE s) \<and>
     (\<forall>d \<in> set (devices s). prop_count d \<le> length (dev_properties d) \<and>
        (\<forall>p. compat_prop_of d = Some p \<longrightarrow> compat_ok strs (ram s) p))"

lemma dt_view_cong:
  assumes "dt_view t = dt_view s"
  shows "compat_wf strs t = compat_wf strs s" and "devices t = devices s" and "tables_ok t = tables_ok s"
  using assms by (simp_all add: dt_view_def compat_wf_def devices_def tables_ok_def)

lemma compat_ok_join:
  assumes "holds_bytes mem (prop_value p) (join_nul (map str_bytes (strs p)))"
    and "unat (prop_len p) = length (join_nul (map str_bytes (strs p)))" and "unat (prop_len p) + 1 < 2 ^ 64"
    and "\<forall>x \<in> set (strs p). 0 \<notin> set (str_bytes x)"
  shows "compat_ok strs mem p"
proof -
  have "split_nul (join_nul (map str_bytes (strs p))) = map str_bytes (strs p)"
    using assms(4) by (intro split_nul_join_nul) simp
  then have "strs p = map bytes_str (split_nul (join_nul (map str_bytes (strs p))))" by (simp add: comp_def)
  with assms(1-3) show ?thesis unfolding compat_ok_def by blast
qed

lemma compatible_matches_ok:
  assumes "compat_ok strs (ram s) p"
  shows "compatible_matches p target s = (Inr (target \<in> set (strs p)), s)"
proof -
  obtain bs where bs: "holds_bytes (ram s) (prop_value p) bs" "unat (prop_len p) = length bs"
    "strs p = map bytes_str (split_nul bs)" "unat (prop_len p) + 1 < 2 ^ 64"
    using assms by (auto simp: compat_ok_def)
  have "target \<in> set (strs p) \<longleftrightarrow> str_bytes target \<in> set (split_nul bs)"
    unfolding bs(3) by (simp add: image_iff) (metis bytes_str_str_bytes str_bytes_bytes_str)
  with bs compatible_matches_from_eq [of s p 0 bs target] show ?thesis by (simp add: compatible_matches_def)
qed

text \<open>
  The interface of a driver table: an initialisation function may do anything to the hardware and to the
  statics of the drivers, but it leaves the device tables and the memory that holds the blob alone. This is
  all that the two passes rely on: they then run exactly the drivers that the tree asks for.
\<close>

definition setup_device ::
    "('h, 'm) dt_machine_scheme device_match list \<Rightarrow> (property \<Rightarrow> string list) \<Rightarrow> platform_device \<Rightarrow>
     (('h, 'm) dt_machine_scheme, unit) M" where
  "setup_device drivers strs d =
     (case find (\<lambda>e. fst e \<in> set (compat_strings strs d)) drivers of
        None \<Rightarrow> return_M () | Some e \<Rightarrow> snd e d)"

lemma match_driver_eq:
  "compat_ok strs (ram s) p \<Longrightarrow>
   match_driver drivers p d s =
     (case find (\<lambda>e. fst e \<in> set (strs p)) drivers of None \<Rightarrow> return_M () | Some e \<Rightarrow> snd e d) s"
  by (induction drivers) (simp_all add: compatible_matches_ok)

lemma init_device_eq:
  assumes "compat_wf strs s" and "i < DEVICE_COUNT s"
  shows "init_device drivers gic i s =
    (if (''arm,gic-v3'' \<in> set (compat_strings strs (DEVICE_TABLE s ! i))) = gic
     then setup_device drivers strs (DEVICE_TABLE s ! i) s else (Inr (), s))"
proof -
  let ?d = "DEVICE_TABLE s ! i"
  have len: "i < length (DEVICE_TABLE s)" using assms by (auto simp: compat_wf_def)
  have d: "?d \<in> set (devices s)" using assms len by (auto simp: devices_def in_set_conv_nth)
  have find: "find_property ?d ''compatible'' s = (Inr (compat_prop_of ?d), s)"
    using assms(1) d by (simp add: find_property_eq compat_wf_def compat_prop_of_def)
  have deref: "deref_device i s = (Inr ?d, s)" using len by (simp add: deref_device_def)
  show ?thesis
  proof (cases "compat_prop_of ?d")
    case None
    then have "setup_device drivers strs ?d s = (Inr (), s)"
      by (simp add: setup_device_def compat_strings_def find_None_iff [THEN iffD2])
    with None deref find show ?thesis by (simp add: init_device_def)
  next
    case (Some p)
    then have ok: "compat_ok strs (ram s) p" using assms(1) d by (simp add: compat_wf_def)
    show ?thesis
      using Some deref find compatible_matches_ok [OF ok] match_driver_eq [OF ok, of drivers ?d]
      by (simp add: init_device_def setup_device_def compat_strings_def)
  qed
qed

locale driver_table =
  fixes drivers :: "('h, 'm) dt_machine_scheme device_match list"
  assumes drivers_keep: "(c, f) \<in> set drivers \<Longrightarrow> keeps dt_view (f d)"
begin

lemma setup_keeps: "keeps dt_view (setup_device drivers strs d)"
proof -
  have "keeps dt_view (snd e d)" if "find (\<lambda>e. fst e \<in> A) drivers = Some e" for e A
  proof -
    have "e \<in> set drivers" using that by (auto simp: find_Some_iff)
    then show ?thesis using drivers_keep [of "fst e" "snd e"] by simp
  qed
  then show ?thesis by (auto simp: setup_device_def keeps_basic split: option.splits)
qed

lemma setups_keep: "keeps dt_view (for_M ds (setup_device drivers strs))"
  by (intro keeps_rules setup_keeps)

lemma pass_eq:
  assumes "compat_wf strs s" and "\<forall>i \<in> set is. i < DEVICE_COUNT s"
  shows "for_M is (init_device drivers gic) s =
    for_M (filter (\<lambda>d. (''arm,gic-v3'' \<in> set (compat_strings strs d)) = gic) (map (nth (DEVICE_TABLE s)) is))
      (setup_device drivers strs) s"
  using assms
proof (induction "is" arbitrary: s)
  case (Cons i "is")
  show ?case
  proof (cases "(''arm,gic-v3'' \<in> set (compat_strings strs (DEVICE_TABLE s ! i))) = gic")
    case True
    obtain r t where rt: "setup_device drivers strs (DEVICE_TABLE s ! i) s = (r, t)" by fastforce
    then have view: "dt_view t = dt_view s" by (rule keepsD [OF setup_keeps])
    have "compat_wf strs t" using Cons.prems(1) by (simp only: dt_view_cong(1) [OF view])
    moreover have "DEVICE_TABLE t = DEVICE_TABLE s" "DEVICE_COUNT t = DEVICE_COUNT s"
      using view by (simp_all add: dt_view_def)
    ultimately have rest: "for_M is (init_device drivers gic) t =
        for_M (filter (\<lambda>d. (''arm,gic-v3'' \<in> set (compat_strings strs d)) = gic) (map (nth (DEVICE_TABLE s)) is))
          (setup_device drivers strs) t"
      using Cons.IH [of t] Cons.prems(2) by simp
    have "init_device drivers gic i s = (r, t)"
      using init_device_eq [OF Cons.prems(1), of i drivers gic] Cons.prems(2) True rt by simp
    with rt rest True show ?thesis by (cases r) simp_all
  next
    case False
    then show ?thesis
      using Cons.IH [of s] Cons.prems init_device_eq [OF Cons.prems(1), of i drivers gic] by auto
  qed
qed simp

lemma init_pass_eq:
  assumes "compat_wf strs s"
  shows "init_pass drivers gic s =
    for_M (filter (\<lambda>d. (''arm,gic-v3'' \<in> set (compat_strings strs d)) = gic) (devices s)) (setup_device drivers strs) s"
  using pass_eq [OF assms, of "[0..<DEVICE_COUNT s]" gic] assms
  by (simp add: init_pass_def devices_def map_nth_upt compat_wf_def)

text \<open>Both passes: all interrupt controllers in table order, then all other devices in table order.\<close>

lemma passes_eq:
  assumes "compat_wf strs s"
  shows "seq_M (init_pass drivers True) (init_pass drivers False) s =
    for_M (filter (\<lambda>d. ''arm,gic-v3'' \<in> set (compat_strings strs d)) (devices s) @
           filter (\<lambda>d. ''arm,gic-v3'' \<notin> set (compat_strings strs d)) (devices s)) (setup_device drivers strs) s"
proof -
  let ?gics = "filter (\<lambda>d. ''arm,gic-v3'' \<in> set (compat_strings strs d)) (devices s)"
  obtain r t where rt: "for_M ?gics (setup_device drivers strs) s = (r, t)" by fastforce
  then have view: "dt_view t = dt_view s" by (rule keepsD [OF setups_keep])
  have "compat_wf strs t" "devices t = devices s" using assms by (simp_all only: dt_view_cong [OF view])
  then have rest: "init_pass drivers False t =
      for_M (filter (\<lambda>d. ''arm,gic-v3'' \<notin> set (compat_strings strs d)) (devices s)) (setup_device drivers strs) t"
    using init_pass_eq [of strs t False] by simp
  have "init_pass drivers True s = (r, t)" using init_pass_eq [OF assms, of True] rt by simp
  with rt rest show ?thesis unfolding for_M_append by (cases r) simp_all
qed

end

interpretation configured: driver_table CONFIGURED_DEVICES
  by unfold_locales (auto simp: CONFIGURED_DEVICES_def intro: keeps_rules)

section \<open>The parser keeps the tables well formed\<close>

lemma keeps_cstr_len [keeps_rules]: "keeps f (cstr_len p n)"
  by (induction p n rule: cstr_len.induct) (subst cstr_len.simps, (intro keeps_rules; assumption)+)

lemma keeps_parser_reads [keeps_rules]:
  "keeps f (get_property_name d os i)" "keeps f (FdtPropHeader_from_be_bytes a)" "keeps f (FdtHeader_from_be_bytes a)"
  "keeps f (stack_top l)" "keeps f (align4 off)"
  unfolding get_property_name_def FdtPropHeader_from_be_bytes_def FdtHeader_from_be_bytes_def stack_top_def align4_def
  by (intro keeps_rules)+

text \<open>
  The locals: at most 16 properties so far, at most 10 open nodes, each of them an entry in use.
\<close>

definition locals_ok :: "parse_locals \<Rightarrow> ('h, 'm) dt_machine_scheme \<Rightarrow> bool" where
  "locals_ok l s \<longleftrightarrow> prop_id l \<le> MAX_PROPS \<and> length (p_stack l) = 10 \<and> stack_depth l \<le> 10 \<and>
     (\<forall>i < stack_depth l. p_stack l ! i < DEVICE_COUNT s)"

definition parser_ok :: "parse_locals \<Rightarrow> ('h, 'm) dt_machine_scheme \<Rightarrow> bool" where
  "parser_ok l s \<longleftrightarrow> tables_ok s \<and> locals_ok l s"

lemma parser_ok_tables: "parser_ok l s \<Longrightarrow> tables_ok s"
  by (simp add: parser_ok_def)

lemma stack_top_Inr:
  "fst (stack_top l s) = Inr i \<Longrightarrow> locals_ok l t \<Longrightarrow> 0 < stack_depth l \<and> i = p_stack l ! (stack_depth l - 1) \<and> i < DEVICE_COUNT t"
  by (auto simp: stack_top_def locals_ok_def index_M_def split: if_splits)

lemma outcome_set_device:
  assumes "\<And>s. P s \<Longrightarrow> i < length (DEVICE_TABLE s) \<Longrightarrow> Q () (s\<lparr>DEVICE_TABLE := (DEVICE_TABLE s)[i := d]\<rparr>)"
    and "\<And>s. P s \<Longrightarrow> E s"
  shows "outcome P (set_device i d) Q E"
  using assms by (auto simp: outcome_def set_device_def update_M_def)

lemma tables_ok_new_entry:
  "tables_ok s \<Longrightarrow> tables_ok (s\<lparr>DEVICE_TABLE := (DEVICE_TABLE s)[DEVICE_COUNT s := d]\<rparr>)"
  by (simp add: tables_ok_def)

lemma tables_ok_count:
  "tables_ok s \<Longrightarrow> DEVICE_COUNT s < MAX_DEVICES \<Longrightarrow> dev_ok (DEVICE_TABLE s ! DEVICE_COUNT s) \<Longrightarrow>
   parent_below (DEVICE_COUNT s) (DEVICE_TABLE s ! DEVICE_COUNT s) \<Longrightarrow>
   tables_ok (s\<lparr>DEVICE_COUNT := Suc (DEVICE_COUNT s)\<rparr>)"
  by (auto simp: tables_ok_def less_Suc_eq)

lemma tables_ok_update:
  "tables_ok s \<Longrightarrow> dev_ok d \<Longrightarrow> dev_parent d = dev_parent (DEVICE_TABLE s ! i) \<Longrightarrow>
   tables_ok (s\<lparr>DEVICE_TABLE := (DEVICE_TABLE s)[i := d]\<rparr>)"
  by (cases "i < length (DEVICE_TABLE s)")
    (auto simp: tables_ok_def nth_list_update parent_below_def list_update_beyond not_less)

text \<open>The state after the entry of a new node is written and before it is counted.\<close>

definition entry_written :: "parse_locals \<Rightarrow> platform_device \<Rightarrow> nat \<Rightarrow> ('h, 'm) dt_machine_scheme \<Rightarrow> bool" where
  "entry_written l d count s \<longleftrightarrow> parser_ok l s \<and> DEVICE_COUNT s = count \<and> count < MAX_DEVICES \<and>
     parent_below count d \<and> DEVICE_TABLE s ! count = d"

lemma begin_node_store:
  assumes "dev_ok d"
  shows "outcome (\<lambda>s. parser_ok l s \<and> parent_below (DEVICE_COUNT s) d)
    (bind_M (gets_M DEVICE_COUNT) (\<lambda>count.
     seq_M (set_device count d)
    (bind_M (update_M (p_stack l) (stack_depth l) count) (\<lambda>stack.
     seq_M (modify_M (\<lambda>s. s\<lparr>DEVICE_COUNT := count + 1\<rparr>))
    (return_M \<lparr>p_off = off, prop_id = 0, p_stack = stack, stack_depth = stack_depth l + 1\<rparr>)))))
    parser_ok tables_ok"
proof (rule outcome_reads, rule keeps_basic, blast dest: parser_ok_tables, rule outcome_seq, goal_cases)
  case (1 count)
  show "outcome (\<lambda>s. (parser_ok l s \<and> parent_below (DEVICE_COUNT s) d) \<and> fst (gets_M DEVICE_COUNT s) = Inr count)
      (set_device count d) (\<lambda>_. entry_written l d count) tables_ok"
    by (rule outcome_set_device)
      (auto simp: entry_written_def parser_ok_def tables_ok_new_entry locals_ok_def, auto simp: tables_ok_def)
next
  case (2 count)
  show "outcome (entry_written l d count)
    (bind_M (update_M (p_stack l) (stack_depth l) count) (\<lambda>stack.
     seq_M (modify_M (\<lambda>s. s\<lparr>DEVICE_COUNT := count + 1\<rparr>))
    (return_M \<lparr>p_off = off, prop_id = 0, p_stack = stack, stack_depth = stack_depth l + 1\<rparr>)))
    parser_ok tables_ok"
  proof (rule outcome_reads, rule keeps_checked, simp add: entry_written_def parser_ok_def, rule outcome_seq,
      rule outcome_modify, goal_cases)
    case (1 stack s)
    then have s: "parser_ok l s" "DEVICE_COUNT s = count" "count < MAX_DEVICES" "parent_below count d"
      "DEVICE_TABLE s ! count = d" "stack_depth l < length (p_stack l)" "stack = (p_stack l)[stack_depth l := count]"
      by (auto simp: entry_written_def update_M_def split: if_splits)
    then have "tables_ok (s\<lparr>DEVICE_COUNT := Suc count\<rparr>)" using tables_ok_count [of s] assms by (simp add: parser_ok_def)
    moreover have "locals_ok \<lparr>p_off = off, prop_id = 0, p_stack = stack, stack_depth = stack_depth l + 1\<rparr>
        (s\<lparr>DEVICE_COUNT := Suc count\<rparr>)"
      using s by (auto simp: parser_ok_def locals_ok_def nth_list_update less_Suc_eq)
    ultimately show "parser_ok \<lparr>p_off = off, prop_id = 0, p_stack = stack, stack_depth = stack_depth l + 1\<rparr>
        (s\<lparr>DEVICE_COUNT := count + 1\<rparr>)"
      by (simp add: parser_ok_def)
  qed (simp add: outcome_return)
qed

lemma parent_in_use:
  assumes "fst ((if 0 < stack_depth l
      then bind_M (stack_top l) (\<lambda>i. bind_M (deref_device i) (\<lambda>_. return_M (Some i))) else return_M None) s) = Inr parent"
    and "locals_ok l s"
  shows "parent_below (DEVICE_COUNT s) (d\<lparr>dev_parent := parent, dev_name := n\<rparr>)"
proof (cases parent)
  case (Some i)
  obtain r t where rt: "stack_top l s = (r, t)" by fastforce
  have t: "t = s" by (rule keepsD [OF keeps_parser_reads(4) rt])
  have "r = Inr i"
    using assms(1) Some rt by (cases r) (auto simp: bind_M_def deref_device_def index_M_def split: if_splits)
  then have "i < DEVICE_COUNT s" using stack_top_Inr [of l s i s] rt assms(2) by simp
  with Some show ?thesis by (simp add: parent_below_def)
qed (simp add: parent_below_def)

lemma dev_ok_new: "dev_ok (PlatformDevice_new\<lparr>dev_parent := p, dev_name := n\<rparr>)"
  by (simp add: dev_ok_def PlatformDevice_new_def)

lemma outcome_reads_tables:
  assumes "reads_only m" and "\<And>x. outcome (\<lambda>s. (parser_ok l s \<and> P s) \<and> fst (m s) = Inr x) (k x) Q tables_ok"
  shows "outcome (\<lambda>s. parser_ok l s \<and> P s) (bind_M m k) Q tables_ok"
  using assms by (intro outcome_reads) (auto dest: parser_ok_tables)

text \<open>Dropping what a read returned when it no longer matters.\<close>

lemma outcome_reads_forget:
  assumes "reads_only m" and "\<And>x. outcome (\<lambda>s. parser_ok l s \<and> P s) (k x) Q tables_ok"
  shows "outcome (\<lambda>s. parser_ok l s \<and> P s) (bind_M m k) Q tables_ok"
  using assms by (intro outcome_reads_tables) (auto intro: outcome_weaken)

lemma begin_node_outcome: "outcome (parser_ok l) (begin_node sb l) parser_ok tables_ok"
  unfolding begin_node_def Let_def PlatformDevice_default_eq
  apply (rule outcome_reads)
    apply (intro keeps_rules)
   apply (erule parser_ok_tables)
  subgoal for parent
    apply (rule outcome_weaken [where P' = "\<lambda>s. parser_ok l s \<and>
        (\<forall>n. parent_below (DEVICE_COUNT s) (PlatformDevice_new\<lparr>dev_parent := parent, dev_name := n\<rparr>))"])
     apply (rule outcome_weaken [OF begin_node_store [OF dev_ok_new]], blast
        | rule outcome_reads_forget, intro keeps_rules)+
    apply (auto simp: parser_ok_def intro: parent_in_use)
    done
  done

lemma end_node_outcome: "outcome (parser_ok l) (end_node l) parser_ok tables_ok"
  unfolding end_node_def
proof (rule outcome_reads, rule keeps_parser_reads, erule parser_ok_tables, rule outcome_reads,
    rule keeps_deref_device, blast dest: parser_ok_tables, rule outcome_seq, rule outcome_set_device, goal_cases)
  case (1 i dev s)
  then have s: "tables_ok s" "locals_ok l s" "i < DEVICE_COUNT s" "dev = DEVICE_TABLE s ! i" "0 < stack_depth l"
    using stack_top_Inr [of l s i s]
    by (auto simp: parser_ok_def deref_device_def index_M_def split: if_splits)
  then have "dev_ok (dev\<lparr>prop_count := prop_id l\<rparr>)"
    by (auto simp: dev_ok_def locals_ok_def tables_ok_def)
  then have "tables_ok (s\<lparr>DEVICE_TABLE := (DEVICE_TABLE s)[i := dev\<lparr>prop_count := prop_id l\<rparr>]\<rparr>)"
    using s by (intro tables_ok_update) simp_all
  then show "parser_ok (l\<lparr>stack_depth := stack_depth l - 1\<rparr>)
      (s\<lparr>DEVICE_TABLE := (DEVICE_TABLE s)[i := dev\<lparr>prop_count := prop_id l\<rparr>]\<rparr>)"
    using s(2) by (auto simp: parser_ok_def locals_ok_def)
next
  case (2 i dev s)
  then show ?case by (blast dest: parser_ok_tables)
qed (simp add: outcome_return)

text \<open>The store of a property into the entry of the innermost open node.\<close>

lemma register_phandle_outcome:
  "outcome (\<lambda>s. parser_ok l s \<and> i < DEVICE_COUNT s) (register_phandle name value i)
     (\<lambda>_ s. parser_ok l s \<and> i < DEVICE_COUNT s) tables_ok"
proof -
  have "parser_ok l (s\<lparr>PHANDLE_TABLE := (PHANDLE_TABLE s)[PHANDLE_COUNT s := (ph, i)], PHANDLE_COUNT := Suc (PHANDLE_COUNT s)\<rparr>)"
    if "parser_ok l s" "i < DEVICE_COUNT s" "PHANDLE_COUNT s < length (PHANDLE_TABLE s)" for s ph
    using that by (auto simp: parser_ok_def tables_ok_def locals_ok_def nth_list_update less_Suc_eq)
  then show ?thesis
    by (auto simp: outcome_def register_phandle_def bind_M_def update_M_def parser_ok_tables
        dest!: keepsD [OF keeps_readers(2) [of "\<lambda>s. s"]] split: prod.splits sum.splits)
qed

lemma parse_prop_store:
  "outcome (\<lambda>s. parser_ok l s \<and> i < DEVICE_COUNT s)
     (bind_M (deref_device i) (\<lambda>dev.
      bind_M (update_M (dev_properties dev) (prop_id l) p) (\<lambda>props.
      seq_M (set_device i (dev\<lparr>dev_properties := props\<rparr>))
     (bind_M (checked_add off (prop_len p)) (\<lambda>off.
      bind_M (align4 off) (\<lambda>off.
      return_M (l\<lparr>p_off := off, prop_id := prop_id l + 1\<rparr>)))))))
     parser_ok tables_ok"
proof (rule outcome_reads_tables, rule keeps_deref_device, rule outcome_reads, rule keeps_checked,
    blast dest: parser_ok_tables, rule outcome_seq, rule outcome_set_device, goal_cases)
  case (1 dev props s)
  then have s: "tables_ok s" "locals_ok l s" "i < DEVICE_COUNT s" "dev = DEVICE_TABLE s ! i"
    "prop_id l < length (dev_properties dev)" "props = (dev_properties dev)[prop_id l := p]"
    by (auto simp: parser_ok_def deref_device_def index_M_def update_M_def split: if_splits)
  then have "dev_ok dev" by (auto simp: tables_ok_def)
  then have dev: "dev_ok (dev\<lparr>dev_properties := props\<rparr>)" "prop_id l < MAX_PROPS"
    using s by (simp_all add: dev_ok_def)
  then have "tables_ok (s\<lparr>DEVICE_TABLE := (DEVICE_TABLE s)[i := dev\<lparr>dev_properties := props\<rparr>]\<rparr>)"
    using s by (intro tables_ok_update) simp_all
  then show "parser_ok (l\<lparr>prop_id := prop_id l + 1\<rparr>)
      (s\<lparr>DEVICE_TABLE := (DEVICE_TABLE s)[i := dev\<lparr>dev_properties := props\<rparr>]\<rparr>)"
    using s(2) dev by (simp add: parser_ok_def locals_ok_def)
next
  case (2 dev props s)
  then show ?case by (blast dest: parser_ok_tables)
qed (rule outcome_reads, rule keeps_checked, erule parser_ok_tables, rule outcome_reads, rule keeps_parser_reads,
    blast dest: parser_ok_tables, rule outcome_return, simp add: parser_ok_def locals_ok_def)

lemma parse_prop_outcome: "outcome (parser_ok l) (parse_prop dtb os sb l) parser_ok tables_ok"
proof -
  have "outcome (\<lambda>s. parser_ok l s \<and> True) (parse_prop dtb os sb l) parser_ok tables_ok"
    unfolding parse_prop_def Let_def
  proof (rule outcome_reads_forget, intro keeps_rules, rule outcome_reads_forget, intro keeps_rules,
      rule outcome_reads_forget, intro keeps_rules, rule outcome_reads_forget, intro keeps_rules,
      rule outcome_reads_forget, intro keeps_rules, rule outcome_reads_tables, rule keeps_parser_reads,
      rule outcome_seq, rule outcome_weaken, rule register_phandle_outcome [of l], goal_cases)
    case (1 header_addr header off name val i s)
    then show ?case using stack_top_Inr [of l s i s] by (simp add: parser_ok_def)
  qed (rule parse_prop_store)
  then show ?thesis by simp
qed

lemma parse_step_outcome:
  "outcome (parser_ok l) (parse_step dtb os sb l) (\<lambda>r s. tables_ok s \<and> (\<forall>l'. r = Some l' \<longrightarrow> parser_ok l' s)) tables_ok"
proof -
  have wrap: "outcome (parser_ok l) (bind_M m (\<lambda>l. return_M (Some l)))
      (\<lambda>r s. tables_ok s \<and> (\<forall>l'. r = Some l' \<longrightarrow> parser_ok l' s)) tables_ok"
    if "outcome (parser_ok l) m parser_ok tables_ok" for m :: "(('a, 'b) dt_machine_scheme, parse_locals) M" and l
    using that by (rule outcome_bind) (simp add: outcome_return parser_ok_tables)
  have off: "parser_ok (l\<lparr>p_off := off\<rparr>) = (parser_ok l :: ('a, 'b) dt_machine_scheme \<Rightarrow> bool)" for off
    by (simp add: fun_eq_iff parser_ok_def locals_ok_def)
  have body: "outcome (parser_ok l)
     (if token = FDT_BEGIN_NODE then bind_M (begin_node sb (l\<lparr>p_off := off\<rparr>)) (\<lambda>l. return_M (Some l))
     else if token = FDT_END_NODE then bind_M (end_node (l\<lparr>p_off := off\<rparr>)) (\<lambda>l. return_M (Some l))
     else if token = FDT_PROP then bind_M (parse_prop dtb os sb (l\<lparr>p_off := off\<rparr>)) (\<lambda>l. return_M (Some l))
     else if token = FDT_NOP then return_M (Some (l\<lparr>p_off := off\<rparr>))
     else if token = FDT_END then return_M None else fail_M Panic)
      (\<lambda>r s. tables_ok s \<and> (\<forall>l'. r = Some l' \<longrightarrow> parser_ok l' (s :: ('a, 'b) dt_machine_scheme))) tables_ok" for token off
    using wrap [OF begin_node_outcome] wrap [OF end_node_outcome] wrap [OF parse_prop_outcome]
    by (auto simp: off [symmetric, of off] intro!: outcome_return dest: parser_ok_tables)
      (simp_all add: outcome_def parser_ok_tables)
  have "outcome (\<lambda>s. parser_ok l s \<and> True) (parse_step dtb os sb l)
      (\<lambda>r s. tables_ok s \<and> (\<forall>l'. r = Some l' \<longrightarrow> parser_ok l' (s :: ('a, 'b) dt_machine_scheme))) tables_ok"
    unfolding parse_step_def Let_def
    by (rule outcome_reads_forget, intro keeps_rules)+ (simp add: body)
  then show ?thesis by simp
qed

lemma parse_loop_tables: "parser_ok l s \<Longrightarrow> tables_ok (snd (parse_loop dtb os sb l s))"
proof (induction dtb os sb l s rule: parse_loop.induct)
  case (1 dtb os sb l s)
  obtain r t where step: "parse_step dtb os sb l s = (r, t)" by fastforce
  show ?case
  proof (cases r)
    case (Inl e)
    then have "tables_ok t"
      using outcomeD_fail [OF parse_step_outcome "1.prems"] step by blast
    with Inl step show ?thesis by (simp add: parse_loop.simps [of dtb os sb l])
  next
    case (Inr nx)
    then have next_ok: "tables_ok t \<and> (\<forall>l'. nx = Some l' \<longrightarrow> parser_ok l' t)"
      using outcomeD [OF parse_step_outcome "1.prems"] step by blast
    show ?thesis
    proof (cases nx)
      case None
      with Inr step next_ok show ?thesis by (simp add: parse_loop.simps [of dtb os sb l])
    next
      case (Some l')
      then have "tables_ok (snd (parse_loop dtb os sb l' t))"
        using "1.IH" [of nx t l'] Inr step next_ok by simp
      with Some Inr step show ?thesis by (simp add: parse_loop.simps [of dtb os sb l])
    qed
  qed
qed

lemma keeps_init_devices: "off_drivers f \<Longrightarrow> keeps f init_devices"
proof -
  assume f: "off_drivers f"
  have match: "keeps f (match_driver ds p d)" if "\<forall>e \<in> set ds. keeps f (snd e d)"
    for ds :: "('a, 'b) kernel_scheme device_match list" and p d
    using that by (induction ds) (auto intro!: keeps_rules)
  have "\<forall>e \<in> set (CONFIGURED_DEVICES :: ('a, 'b) kernel_scheme device_match list). keeps f (snd e d)" for d
    using f by (auto simp: CONFIGURED_DEVICES_def intro: keeps_rules)
  then show ?thesis
    unfolding init_devices_def init_pass_def init_device_def by (intro keeps_rules match)
qed

text \<open>A part of the state outside the four tables and counters that the parser fills: the whole parse leaves it alone.\<close>

definition off_tables :: "(('h, 'm) dt_machine_scheme \<Rightarrow> 'x) \<Rightarrow> bool" where
  "off_tables f \<longleftrightarrow>
     (\<forall>s x. f (s\<lparr>DEVICE_TABLE := x\<rparr>) = f s) \<and> (\<forall>s n. f (s\<lparr>DEVICE_COUNT := n\<rparr>) = f s) \<and>
     (\<forall>s x. f (s\<lparr>PHANDLE_TABLE := x\<rparr>) = f s) \<and> (\<forall>s n. f (s\<lparr>PHANDLE_COUNT := n\<rparr>) = f s)"

lemma keeps_table_statics [keeps_rules]:
  "off_tables f \<Longrightarrow> keeps f (modify_M (\<lambda>s. s\<lparr>DEVICE_TABLE := x s\<rparr>))"
  "off_tables f \<Longrightarrow> keeps f (modify_M (\<lambda>s. s\<lparr>DEVICE_COUNT := n s\<rparr>))"
  "off_tables f \<Longrightarrow> keeps f (modify_M (\<lambda>s. s\<lparr>PHANDLE_TABLE := x' s, PHANDLE_COUNT := n' s\<rparr>))"
  by (simp_all add: keeps_def off_tables_def)

lemma keeps_parse_step: "off_tables f \<Longrightarrow> keeps f (parse_step dtb os sb l)"
  unfolding parse_step_def begin_node_def end_node_def parse_prop_def register_phandle_def set_device_def
  by (intro keeps_rules)

lemma keeps_parse_loop:
  assumes "off_tables f"
  shows "keeps f (parse_loop dtb os sb l)"
proof (rule keepsI)
  fix s show "f (snd (parse_loop dtb os sb l s)) = f s"
  proof (induction dtb os sb l s rule: parse_loop.induct)
    case (1 dtb os sb l s)
    obtain r t where step: "parse_step dtb os sb l s = (r, t)" by fastforce
    then have "f t = f s" by (rule keepsD [OF keeps_parse_step [OF assms]])
    moreover have "f (snd (parse_loop dtb os sb l' t)) = f t" if "r = Inr (Some l')" for l'
      using 1 [of "Some l'" t l'] that step by simp
    ultimately show ?case
      using step by (cases r) (simp_all add: parse_loop.simps [of dtb os sb l] split: option.splits)
  qed
qed

lemma keeps_parse_dtb:
  "off_drivers f \<Longrightarrow> off_tables f \<Longrightarrow> keeps f (parse_dtb dtb)"
  unfolding parse_dtb_def by (intro keeps_rules keeps_parse_loop keeps_init_devices)

text \<open>The tables as they are linked into the image.\<close>

definition boot_tables :: "('h, 'm) dt_machine_scheme \<Rightarrow> bool" where
  "boot_tables s \<longleftrightarrow> DEVICE_COUNT s = 0 \<and> DEVICE_TABLE s = DEVICE_TABLE_init \<and>
     PHANDLE_COUNT s = 0 \<and> PHANDLE_TABLE s = PHANDLE_TABLE_init"

lemma boot_tables_ok:
  "boot_tables s \<Longrightarrow> parser_ok \<lparr>p_off = 0, prop_id = 0, p_stack = replicate 10 0, stack_depth = 0\<rparr> s"
  by (simp add: boot_tables_def parser_ok_def tables_ok_def locals_ok_def DEVICE_TABLE_init_def PHANDLE_TABLE_init_def)

lemma parse_dtb_keeps_tables: "boot_tables s \<Longrightarrow> tables_ok (snd (parse_dtb dtb s))"
proof -
  assume boot: "boot_tables s"
  let ?l = "\<lparr>p_off = 0, prop_id = 0, p_stack = replicate 10 0, stack_depth = 0\<rparr>"
  have all: "outcome (\<lambda>t. t = s) (parse_dtb dtb) (\<lambda>_. tables_ok) tables_ok"
    unfolding parse_dtb_def
  proof (rule outcome_reads, rule keeps_parser_reads, use boot boot_tables_ok parser_ok_tables in blast, goal_cases)
    case (1 header)
    have loop: "outcome (\<lambda>t. t = s) (parse_loop dtb (ucast (off_dt_strings header)) sb ?l) (\<lambda>_. tables_ok) tables_ok" for sb
      using parse_loop_tables [OF boot_tables_ok [OF boot], of dtb "ucast (off_dt_strings header)" sb]
      by (auto simp: outcome_def split: prod.splits sum.splits)
    have init: "outcome tables_ok init_devices (\<lambda>_. tables_ok) tables_ok"
      by (auto simp: outcome_def dest!: keepsD [OF keeps_init_devices [OF off_drivers_dt_view]] dt_view_cong(3) split: prod.splits sum.splits)
    have tables: "tables_ok s" using boot boot_tables_ok parser_ok_tables by blast
    then show ?case
      by (cases "magic header = MAGIC")
        (auto intro!: outcome_reads keeps_rules outcome_seq [OF _ init] outcome_weaken [OF loop], simp add: outcome_def)
  qed
  obtain r t where rt: "parse_dtb dtb s = (r, t)" by fastforce
  then have "tables_ok t"
    using outcomeD [OF all refl, of _ t] outcomeD_fail [OF all refl, of _ t] by (cases r) auto
  with rt show ?thesis by simp
qed

section \<open>Properties\<close>

text \<open>
  C6. No blob can corrupt the tables. Whatever bytes the boot loader hands over, well-formed or hostile, and however
  the call ends (return, panic, data abort, a device that never answers), the tables are well formed
  afterwards: counters within their arrays, at most 16 counted properties per device, every parent
  pointer to an earlier entry in use (so the parent chains are finite), every phandle to an entry in use.
\<close>

theorem parse_dtb_tables_ok:
  assumes "boot_tables s"
  shows "tables_ok (snd (parse_dtb dtb s))"
  using assms by (rule parse_dtb_keeps_tables)

definition boot_example :: "store_hw kernel" where
  "boot_example = uart_example
     \<lparr>ram := mem_at 0x4000 (to_be_bytes (0xd00dfeed :: u32) @ replicate 60 0),
      DEVICE_TABLE := DEVICE_TABLE_init, PHANDLE_TABLE := PHANDLE_TABLE_init\<rparr>"

lemma boot_tables_example: "boot_tables boot_example"
  by (simp add: boot_tables_def boot_example_def uart_example_def)

theorem parse_dtb_tables_ok_witness: "tables_ok (snd (parse_dtb 0x4000 boot_example))"
  by (rule parse_dtb_tables_ok [OF boot_tables_example])

text \<open>The same loop with a bound on the number of tokens; running out of tokens counts as a hang.\<close>

primrec parse_bounded ::
    "nat \<Rightarrow> usize \<Rightarrow> usize \<Rightarrow> usize \<Rightarrow> parse_locals \<Rightarrow> (('h, 'm) dt_machine_scheme, unit) M" where
  "parse_bounded 0 dtb off_strings structure_block l = fail_M Hang"
| "parse_bounded (Suc n) dtb off_strings structure_block l =
     bind_M (parse_step dtb off_strings structure_block l)
       (\<lambda>next. case next of None \<Rightarrow> return_M () | Some l' \<Rightarrow> parse_bounded n dtb off_strings structure_block l')"

lemma parse_bounded_eq:
  "2 ^ 64 \<le> unat (p_off l) + 4 * n \<Longrightarrow> parse_bounded n dtb os sb l s = parse_loop dtb os sb l s"
proof (induction n arbitrary: l s)
  case 0
  then show ?case using unat_bound_u64 [of "p_off l"] by simp
next
  case (Suc n)
  have "parse_bounded n dtb os sb l' t = parse_loop dtb os sb l' t"
    if "parse_step dtb os sb l s = (Inr (Some l'), t)" for l' t
    using Suc.prems parse_step_offset [OF that] by (intro Suc.IH) simp
  then show ?case
    by (subst parse_loop.simps, simp, intro bind_M_cong) (auto split: option.splits)
qed

lemma ends_read_be_u32 [ends_rules]: "ends (read_be_u32 ptr off)"
  unfolding read_be_u32_eq by (intro ends_rules)

lemma ends_cstr_len [ends_rules]: "ends (cstr_len start len :: (('h, 'm) machine_scheme, nat) M)"
proof (induction start len rule: cstr_len.induct)
  case (1 start len)
  show ?case
    unfolding ends_def
  proof
    fix s :: "('h, 'm) machine_scheme"
    show "fst (cstr_len start len s) \<noteq> Inl Hang"
    proof (cases "ram s (start + of_nat len)")
      case None
      then show ?thesis by (subst cstr_len.simps) (simp add: bind_M_def load_u8_def)
    next
      case (Some b)
      then show ?thesis using "1.IH" [of b] by (subst cstr_len.simps) (auto simp: ends_def)
    qed
  qed
qed

lemma ends_parse_step [ends_rules]: "ends (parse_step dtb os sb l)"
  unfolding parse_step_def begin_node_def end_node_def parse_prop_def register_phandle_def set_device_def
    deref_device_def stack_top_def align4_def FdtPropHeader_from_be_bytes_def get_property_name_def
  by (intro ends_rules)

lemma parse_loop_ends: "fst (parse_loop dtb os sb l s) \<noteq> Inl Hang"
proof (induction dtb os sb l s rule: parse_loop.induct)
  case (1 dtb os sb l s)
  obtain r t where step: "parse_step dtb os sb l s = (r, t)" by fastforce
  moreover have "r \<noteq> Inl Hang" using step ends_parse_step [of dtb os sb l] by (metis ends_def fst_conv)
  ultimately show ?case
    using "1.IH" by (subst parse_loop.simps) (cases r; auto split: option.splits)
qed

text \<open>
  C17. The parser ends on every input. Each token moves the offset forward by at least four bytes, and an offset past the
  width of \<open>usize\<close> panics, so after at most \<open>2^62\<close> tokens the loop has ended, in the end token, a panic or a data abort: the loop
  with that bound never runs out of tokens, and it does what the loop without a bound does.
\<close>

theorem parse_loop_bounded:
  "fst (parse_bounded (2 ^ 62) dtb off_strings structure_block l s) \<noteq> Inl Hang \<and>
   parse_bounded (2 ^ 62) dtb off_strings structure_block l s = parse_loop dtb off_strings structure_block l s"
proof -
  have "parse_bounded (2 ^ 62) dtb off_strings structure_block l s = parse_loop dtb off_strings structure_block l s"
    by (rule parse_bounded_eq) simp
  then show ?thesis by (simp only: parse_loop_ends) simp
qed

lemma header_read:
  assumes "holds_bytes (ram s) dtb (cells_bytes [v0, v1, v2, v3, v4, v5, v6, v7, v8, v9])"
  shows "FdtHeader_from_be_bytes dtb s =
    (Inr \<lparr>magic = v0, totalsize = v1, off_dt_struct = v2, off_dt_strings = v3, off_mem_rsvmap = v4,
       version = v5, last_comp_version = v6, boot_cpuid_phys = v7, size_dt_strings = v8, size_dt_struct = v9\<rparr>, s)"
proof -
  have "read_be_u32 dtb 0x00 s = (Inr v0, s)" "read_be_u32 dtb 0x04 s = (Inr v1, s)" "read_be_u32 dtb 0x08 s = (Inr v2, s)"
    "read_be_u32 dtb 0x0C s = (Inr v3, s)" "read_be_u32 dtb 0x10 s = (Inr v4, s)" "read_be_u32 dtb 0x14 s = (Inr v5, s)"
    "read_be_u32 dtb 0x18 s = (Inr v6, s)" "read_be_u32 dtb 0x1C s = (Inr v7, s)" "read_be_u32 dtb 0x20 s = (Inr v8, s)"
    "read_be_u32 dtb 0x24 s = (Inr v9, s)"
    using assms by (auto intro!: read_be_u32_holds simp: holds_bytes_append ac_simps)
  then show ?thesis by (simp add: FdtHeader_from_be_bytes_def)
qed

lemma bad_magic_refused:
  assumes "holds_bytes (ram s) dtb (cells_bytes (v # vs))" and "length vs = 9" and "v \<noteq> 0xd00dfeed"
  shows "parse_dtb dtb s = (Inl Panic, s)"
proof -
  obtain v1 v2 v3 v4 v5 v6 v7 v8 v9 where "vs = [v1, v2, v3, v4, v5, v6, v7, v8, v9]"
    using assms(2) by (auto simp: numeral_eq_Suc length_Suc_conv)
  with assms(1) have "FdtHeader_from_be_bytes dtb s =
    (Inr \<lparr>magic = v, totalsize = v1, off_dt_struct = v2, off_dt_strings = v3, off_mem_rsvmap = v4,
       version = v5, last_comp_version = v6, boot_cpuid_phys = v7, size_dt_strings = v8, size_dt_struct = v9\<rparr>, s)"
    by (intro header_read) simp
  then show ?thesis using assms(3) by (simp add: parse_dtb_def MAGIC_def)
qed

text \<open>
  C34. A blob without the magic number is refused. If the ten words of the header can be read and the first is not
  \<open>0xd00dfeed\<close>, \<open>parse_dtb\<close> panics before it touches any table or device.
\<close>

theorem bad_magic_panics:
  assumes "holds_bytes (ram s) dtb (cells_bytes (v # vs))" and "length vs = 9" and "v \<noteq> 0xd00dfeed"
  shows "parse_dtb dtb s = (Inl Panic, s)"
  using assms by (rule bad_magic_refused)

definition bad_magic_example :: "store_hw kernel" where
  "bad_magic_example = uart_example\<lparr>ram := mem_at 0x4000 (cells_bytes (0xd00dfeee # replicate 9 0))\<rparr>"

theorem bad_magic_panics_witness: "parse_dtb 0x4000 bad_magic_example = (Inl Panic, bad_magic_example)"
  using bad_magic_panics [of bad_magic_example "0x4000" "0xd00dfeee" "replicate 9 0"]
    holds_bytes_mem_at [of "cells_bytes (0xd00dfeee # replicate 9 0)" "0x4000"]
  by (simp add: bad_magic_example_def)

lemma init_devices_order:
  fixes s :: "('h, 'm) kernel_scheme"
  assumes "compat_wf strs s"
  shows "init_devices s =
    for_M (filter (\<lambda>d. ''arm,gic-v3'' \<in> set (compat_strings strs d)) (devices s) @
           filter (\<lambda>d. ''arm,gic-v3'' \<notin> set (compat_strings strs d)) (devices s))
      (\<lambda>d. if ''arm,gic-v3'' \<in> set (compat_strings strs d) then gic_setup d
           else if ''arm,pl011'' \<in> set (compat_strings strs d) then uart_setup d
           else if ''arm,armv7-timer'' \<in> set (compat_strings strs d) then timer_setup d
           else return_M ()) s"
proof -
  have "setup_device (CONFIGURED_DEVICES :: ('h, 'm) kernel_scheme device_match list) strs = (\<lambda>d.
           if ''arm,gic-v3'' \<in> set (compat_strings strs d) then gic_setup d
           else if ''arm,pl011'' \<in> set (compat_strings strs d) then uart_setup d
           else if ''arm,armv7-timer'' \<in> set (compat_strings strs d) then timer_setup d
           else return_M ())"
    by (rule ext) (simp add: setup_device_def CONFIGURED_DEVICES_def)
  then show ?thesis using configured.passes_eq [OF assms] by (simp add: init_devices_def)
qed

text \<open>
  C18. The interrupt controller comes first. Provided the values of the \<open>compatible\<close> properties of the parsed devices are
  in memory, and \<open>strs\<close> gives the strings they consist of, \<open>init_devices\<close> runs the setup functions of all devices compatible with
  \<open>arm,gic-v3\<close>, in table order, and then those of all other devices, in table order; each device
  gets the driver of its first match in the driver table, or none. As in any sequence, a failing setup
  stops everything after it.
\<close>

theorem init_devices_gic_first:
  fixes s :: "('h, 'm) kernel_scheme"
  assumes "compat_wf strs s"
  shows "init_devices s =
    for_M (filter (\<lambda>d. ''arm,gic-v3'' \<in> set (compat_strings strs d)) (devices s) @
           filter (\<lambda>d. ''arm,gic-v3'' \<notin> set (compat_strings strs d)) (devices s))
      (\<lambda>d. if ''arm,gic-v3'' \<in> set (compat_strings strs d) then gic_setup d
           else if ''arm,pl011'' \<in> set (compat_strings strs d) then uart_setup d
           else if ''arm,armv7-timer'' \<in> set (compat_strings strs d) then timer_setup d
           else return_M ()) s"
  using assms by (rule init_devices_order)

definition order_example_dev :: "u64 \<Rightarrow> usize \<Rightarrow> platform_device" where
  "order_example_dev addr len =
     \<lparr>dev_parent = None, dev_name = [],
      dev_properties = \<lparr>prop_name = ''compatible'', prop_value = addr, prop_len = len\<rparr> # replicate 15 Property_new,
      prop_count = 1\<rparr>"

text \<open>A UART at index 0 and an interrupt controller at index 1.\<close>

definition order_example :: "store_hw kernel" where
  "order_example = uart_example
     \<lparr>ram := mem_at 0x1000 (join_nul [str_bytes ''arm,pl011'', str_bytes ''arm,gic-v3'']),
      DEVICE_COUNT := 2, DEVICE_TABLE := [order_example_dev 0x1000 10, order_example_dev 0x100A 11]\<rparr>"

definition order_example_strs :: "property \<Rightarrow> string list" where
  "order_example_strs p = (if prop_value p = 0x1000 then [''arm,pl011''] else [''arm,gic-v3''])"

lemma order_example_compat:
  "compat_prop_of (order_example_dev addr len) = Some \<lparr>prop_name = ''compatible'', prop_value = addr, prop_len = len\<rparr>"
  by (simp add: compat_prop_of_def dev_props_def order_example_dev_def)

lemma order_example_wf: "compat_wf order_example_strs order_example"
proof -
  have "holds_bytes (ram order_example) 0x1000 (join_nul [str_bytes ''arm,pl011''] @ join_nul [str_bytes ''arm,gic-v3''])"
    using holds_bytes_mem_at [of "join_nul [str_bytes ''arm,pl011'', str_bytes ''arm,gic-v3'']" "0x1000"]
    by (simp add: order_example_def join_nul_def)
  then have "holds_bytes (ram order_example) 0x1000 (join_nul [str_bytes ''arm,pl011''])"
    "holds_bytes (ram order_example) 0x100A (join_nul [str_bytes ''arm,gic-v3''])"
    unfolding holds_bytes_append by (simp_all add: join_nul_def)
  then have "compat_ok order_example_strs (ram order_example) \<lparr>prop_name = ''compatible'', prop_value = 0x1000, prop_len = 10\<rparr>"
    "compat_ok order_example_strs (ram order_example) \<lparr>prop_name = ''compatible'', prop_value = 0x100A, prop_len = 11\<rparr>"
    by (auto intro!: compat_ok_join simp: order_example_strs_def join_nul_def)
  moreover have "devices order_example = [order_example_dev 0x1000 10, order_example_dev 0x100A 11]"
    "DEVICE_COUNT order_example = length (DEVICE_TABLE order_example)"
    by (simp_all add: devices_def order_example_def)
  moreover have "prop_count (order_example_dev a n) \<le> length (dev_properties (order_example_dev a n))" for a n
    by (simp add: order_example_dev_def)
  ultimately show ?thesis by (simp add: compat_wf_def order_example_compat)
qed

theorem init_devices_gic_first_witness:
  "init_devices order_example =
     seq_M (gic_setup (order_example_dev 0x100A 11)) (uart_setup (order_example_dev 0x1000 10)) order_example"
proof -
  have "devices order_example = [order_example_dev 0x1000 10, order_example_dev 0x100A 11]"
    by (simp add: devices_def order_example_def)
  moreover have "compat_strings order_example_strs (order_example_dev 0x1000 n) = [''arm,pl011'']"
    "compat_strings order_example_strs (order_example_dev 0x100A n) = [''arm,gic-v3'']" for n
    by (simp_all add: compat_strings_def order_example_compat order_example_strs_def)
  ultimately show ?thesis
    using init_devices_gic_first [OF order_example_wf] by simp
qed

end
