(* ===== verification/Dtb_Tree.thy ===== *)
theory Dtb_Tree
  imports Dtb
begin

text \<open>
  The abstract specification of the parser: device trees as a datatype, their flattened encoding (the structure
  block of the Devicetree Specification, without the NOP tokens that it also allows), and the table that parsing the encoding produces. The
  parser is proved to implement this specification on every tree that fits its fixed-size arrays.
\<close>

section \<open>Trees and their encoding\<close>

text \<open>A property is the offset of its name in the strings block and its value.\<close>

type_synonym dt_prop = "u32 \<times> u8 list"

datatype dt_node = Node (node_name: string) (node_props: "dt_prop list") (node_children: "dt_node list")

definition pad4 :: "u8 list \<Rightarrow> u8 list" where
  "pad4 bs = bs @ replicate ((length bs + 3) div 4 * 4 - length bs) 0"

definition enc_begin :: "string \<Rightarrow> u8 list" where
  "enc_begin n = to_be_bytes (1 :: u32) @ pad4 (str_bytes n @ [0])"

definition enc_prop :: "dt_prop \<Rightarrow> u8 list" where
  "enc_prop p = to_be_bytes (3 :: u32) @ to_be_bytes (of_nat (length (snd p)) :: u32) @ to_be_bytes (fst p) @ pad4 (snd p)"

primrec enc_node :: "dt_node \<Rightarrow> u8 list" where
  "enc_node (Node n ps cs) =
     enc_begin n @ concat (map enc_prop ps) @ concat (map enc_node cs) @ to_be_bytes (2 :: u32)"

section \<open>The table a tree is flattened to\<close>

primrec node_count :: "dt_node \<Rightarrow> nat" where
  "node_count (Node n ps cs) = Suc (sum_list (map node_count cs))"

primrec node_height :: "dt_node \<Rightarrow> nat" where
  "node_height (Node n ps cs) = Suc (fold max (map node_height cs) 0)"

text \<open>The property count that \<open>END_NODE\<close> stores: that of the node begun last.\<close>

primrec last_props :: "dt_node \<Rightarrow> nat" where
  "last_props (Node n ps cs) = (if cs = [] then length ps else last (map last_props cs))"

text \<open>The properties of a node, the first at byte \<open>pos\<close> of the structure block at \<open>sb\<close>.\<close>

primrec flat_props :: "(u32 \<Rightarrow> string) \<Rightarrow> u64 \<Rightarrow> nat \<Rightarrow> dt_prop list \<Rightarrow> property list" where
  "flat_props names sb pos [] = []"
| "flat_props names sb pos (p # ps) =
     \<lparr>prop_name = names (fst p), prop_value = sb + of_nat (pos + 12), prop_len = of_nat (length (snd p))\<rparr> #
     flat_props names sb (pos + length (enc_prop p)) ps"

definition prop_handles :: "(u32 \<Rightarrow> string) \<Rightarrow> nat \<Rightarrow> dt_prop list \<Rightarrow> (u32 \<times> nat) list" where
  "prop_handles names i ps = map (\<lambda>p. (be_word (snd p), i)) (filter (\<lambda>p. names (fst p) = ''phandle'') ps)"

definition props_end :: "nat \<Rightarrow> string \<Rightarrow> dt_prop list \<Rightarrow> nat" where
  "props_end pos n ps = pos + length (enc_begin n) + length (concat (map enc_prop ps))"

definition flat_device :: "(u32 \<Rightarrow> string) \<Rightarrow> u64 \<Rightarrow> nat option \<Rightarrow> nat \<Rightarrow> string \<Rightarrow> dt_prop list \<Rightarrow> nat \<Rightarrow> platform_device" where
  "flat_device names sb parent pos n ps k =
     \<lparr>dev_parent = parent, dev_name = n,
      dev_properties = flat_props names sb (pos + length (enc_begin n)) ps @ replicate (MAX_PROPS - length ps) Property_new,
      prop_count = k\<rparr>"

fun flat :: "(u32 \<Rightarrow> string) \<Rightarrow> u64 \<Rightarrow> nat option \<Rightarrow> nat \<Rightarrow> nat \<Rightarrow> dt_node \<Rightarrow> platform_device list"
and flats :: "(u32 \<Rightarrow> string) \<Rightarrow> u64 \<Rightarrow> nat option \<Rightarrow> nat \<Rightarrow> nat \<Rightarrow> dt_node list \<Rightarrow> platform_device list" where
  "flat names sb parent i pos (Node n ps cs) =
     flat_device names sb parent pos n ps (last_props (Node n ps cs)) #
     flats names sb (Some i) (Suc i) (props_end pos n ps) cs"
| "flats names sb parent i pos [] = []"
| "flats names sb parent i pos (c # cs) =
     flat names sb parent i pos c @ flats names sb parent (i + node_count c) (pos + length (enc_node c)) cs"

fun handles :: "(u32 \<Rightarrow> string) \<Rightarrow> nat \<Rightarrow> dt_node \<Rightarrow> (u32 \<times> nat) list"
and handless :: "(u32 \<Rightarrow> string) \<Rightarrow> nat \<Rightarrow> dt_node list \<Rightarrow> (u32 \<times> nat) list" where
  "handles names i (Node n ps cs) = prop_handles names i ps @ handless names (Suc i) cs"
| "handless names i [] = []"
| "handless names i (c # cs) = handles names i c @ handless names (i + node_count c) cs"

section \<open>Lengths\<close>

lemma length_pad4: "length (pad4 bs) = (length bs + 3) div 4 * 4"
  by (simp add: pad4_def)

lemma length_enc_begin: "length (enc_begin n) = 4 + (length n + 4) div 4 * 4"
  by (simp add: enc_begin_def length_pad4)

lemma length_enc_prop: "length (enc_prop p) = 12 + (length (snd p) + 3) div 4 * 4"
  by (simp add: enc_prop_def length_pad4)

lemma length_flat: "length (flat names sb parent i pos c) = node_count c"
  and length_flats: "length (flats names sb parent i pos cs) = sum_list (map node_count cs)"
  by (induction names sb parent i pos c and names sb parent i pos cs rule: flat_flats.induct) simp_all

lemma length_enc_mod4: "length (concat (map enc_prop ps)) mod 4 = 0" "length (enc_node c) mod 4 = 0"
proof -
  show ps: "length (concat (map enc_prop ps)) mod 4 = 0" for ps
    by (induction ps) (simp_all add: length_enc_prop mod_add_right_eq [symmetric])
  show "length (enc_node c) mod 4 = 0"
  proof (induction c)
    case (Node n ps cs)
    have "length (concat (map enc_node cs)) mod 4 = 0"
      using Node by (induction cs) (simp_all add: mod_add_eq [symmetric])
    with ps [of ps] show ?case
      by (simp add: length_enc_begin mod_add_eq [symmetric] mod_add_right_eq [symmetric])
  qed
qed

section \<open>One token\<close>

lemma take_update_snoc: "take n xs = ys \<Longrightarrow> n < length xs \<Longrightarrow> take (Suc n) (xs[n := x]) = ys @ [x]"
  by (auto simp: take_Suc_conv_app_nth)

lemma checked_add_of_nat: "a + b < 2 ^ 64 \<Longrightarrow> checked_add (of_nat a :: u64) (of_nat b) s = (Inr (of_nat (a + b)), s)"
  by (simp add: unat_of_nat)

lemma checked_add_base: "unat sb + a < 2 ^ 64 \<Longrightarrow> checked_add (sb :: u64) (of_nat a) s = (Inr (sb + of_nat a), s)"
  by (simp add: unat_of_nat)

lemma align4_of_nat:
  assumes "a + 3 < 2 ^ 64"
  shows "align4 (of_nat a) s = (Inr (of_nat ((a + 3) div 4 * 4)), s)"
proof -
  have "checked_add (of_nat a :: u64) 3 s = (Inr (of_nat (a + 3)), s)"
    using checked_add_of_nat [of a 3 s] assms by simp
  moreover have "(of_nat (a + 3) AND NOT 3 :: u64) = of_nat ((a + 3) div 4 * 4)"
  proof -
    have "(a + 3) div 4 * 4 < 2 ^ 64" using assms by linarith
    then have "unat (of_nat ((a + 3) div 4 * 4) :: u64) = (a + 3) div 4 * 4"
      unfolding unat_of_nat by (intro mod_less) simp
    moreover have "unat (of_nat (a + 3) :: u64) = a + 3"
      using assms unfolding unat_of_nat by (intro mod_less) simp
    ultimately have "unat (of_nat (a + 3) AND NOT 3 :: u64) = unat (of_nat ((a + 3) div 4 * 4) :: u64)"
      by (simp only: unat_and_not_3)
    then show ?thesis by (simp only: word_unat_eq_iff)
  qed
  ultimately show ?thesis by (simp add: align4_def)
qed

lemma align_end: "pos mod 4 = 0 \<Longrightarrow> (pos + k + 3) div 4 * 4 = pos + (k + 3) div 4 * 4" for pos k :: nat
  by (metis add.assoc add_mult_distrib div_mult_mod_eq div_plus_div_distrib_dvd_left dvd_eq_mod_eq_0 add.right_neutral)

lemma cstr_len_holds:
  "holds_bytes (ram s) (p + of_nat k) (bs @ [0]) \<Longrightarrow> 0 \<notin> set bs \<Longrightarrow> k + length bs < 2 ^ 64 \<Longrightarrow>
   cstr_len p k s = (Inr (k + length bs), s)"
proof (induction bs arbitrary: k)
  case Nil
  then show ?case by (subst cstr_len.simps) simp
next
  case (Cons b bs)
  have "cstr_len p (Suc k) s = (Inr (Suc k + length bs), s)"
    using Cons.prems by (intro Cons.IH) (simp_all add: algebra_simps)
  with Cons.prems show ?case by (subst cstr_len.simps) simp
qed

text \<open>
  Where the parser stands: at byte \<open>pos\<close>, with the nodes \<open>open\<close> open (outermost first), \<open>k\<close> properties of
  the current node seen, and the devices \<open>ds\<close> and phandles \<open>hs\<close> recorded.
\<close>

definition at_state :: "parse_locals \<Rightarrow> ('h, 'm) dt_machine_scheme \<Rightarrow> nat \<Rightarrow> nat list \<Rightarrow> nat \<Rightarrow>
    platform_device list \<Rightarrow> (u32 \<times> nat) list \<Rightarrow> bool" where
  "at_state l s pos opened k ds hs \<longleftrightarrow>
     p_off l = of_nat pos \<and> prop_id l = k \<and> length (p_stack l) = 10 \<and> stack_depth l = length opened \<and>
     length opened \<le> 10 \<and> take (length opened) (p_stack l) = opened \<and>
     length (DEVICE_TABLE s) = MAX_DEVICES \<and> DEVICE_COUNT s = length ds \<and> length ds \<le> MAX_DEVICES \<and>
     take (length ds) (DEVICE_TABLE s) = ds \<and> length (PHANDLE_TABLE s) = MAX_HANDLES \<and>
     PHANDLE_COUNT s = length hs \<and> length hs \<le> MAX_HANDLES \<and> take (length hs) (PHANDLE_TABLE s) = hs"

text \<open>Everything but the tables.\<close>

definition dt_rest :: "('h, 'm) dt_machine_scheme \<Rightarrow> 'h bus \<times> 'h \<times> (u64 \<Rightarrow> u8 option) \<times> nat \<times> 'm" where
  "dt_rest s = (bus s, hw s, ram s, spin s, dt_machine.more s)"

lemma dt_rest_ram: "dt_rest s = dt_rest t \<Longrightarrow> ram s = ram t"
  by (simp add: dt_rest_def)

lemma stack_top_open:
  assumes "at_state l s pos (opened @ [i]) k ds hs"
  shows "stack_top (l\<lparr>p_off := off\<rparr>) t = (Inr i, t)"
proof -
  have "p_stack l ! length opened = take (length (opened @ [i])) (p_stack l) ! length opened" by simp
  also have "\<dots> = i" using assms by (simp add: at_state_def)
  finally show ?thesis using assms by (simp add: stack_top_def at_state_def)
qed

lemma deref_recorded:
  assumes "at_state l s pos opened k ds hs" and "i < length ds"
  shows "deref_device i s = (Inr (ds ! i), s)"
proof -
  have "DEVICE_TABLE s ! i = take (length ds) (DEVICE_TABLE s) ! i" using assms(2) by simp
  also have "\<dots> = ds ! i" using assms(1) by (simp add: at_state_def)
  finally show ?thesis using assms by (simp add: at_state_def deref_device_def)
qed

lemma read_token:
  assumes "holds_bytes (ram s) (sb + of_nat pos) (to_be_bytes token @ bs)" and "p_off l = of_nat pos"
    and "pos + 4 < 2 ^ 64"
  shows "parse_step dtb os sb l s =
    (if token = FDT_BEGIN_NODE then bind_M (begin_node sb (l\<lparr>p_off := of_nat (pos + 4)\<rparr>)) (\<lambda>l. return_M (Some l))
     else if token = FDT_END_NODE then bind_M (end_node (l\<lparr>p_off := of_nat (pos + 4)\<rparr>)) (\<lambda>l. return_M (Some l))
     else if token = FDT_PROP then bind_M (parse_prop dtb os sb (l\<lparr>p_off := of_nat (pos + 4)\<rparr>)) (\<lambda>l. return_M (Some l))
     else if token = FDT_NOP then return_M (Some (l\<lparr>p_off := of_nat (pos + 4)\<rparr>))
     else if token = FDT_END then return_M None else fail_M Panic) s"
proof -
  have "read_be_u32 sb (p_off l) s = (Inr token, s)"
    using assms(1,2) by (intro read_be_u32_holds) (simp add: holds_bytes_append)
  moreover have "checked_add (p_off l) 4 s = (Inr (of_nat (pos + 4)), s)"
    using checked_add_of_nat [of pos 4 s] assms(2,3) by simp
  ultimately show ?thesis by (simp add: parse_step_def Let_def)
qed

text \<open>The encoding has no NOP tokens. Where a blob has some, the loop passes over them and nothing else changes.\<close>

lemma parse_loop_nops:
  "holds_bytes (ram s) (sb + of_nat pos) (concat (replicate k (to_be_bytes (4 :: u32)))) \<Longrightarrow> p_off l = of_nat pos \<Longrightarrow> pos + 4 * k < 2 ^ 64 \<Longrightarrow>
   parse_loop dtb os sb l s = parse_loop dtb os sb (l\<lparr>p_off := of_nat (pos + 4 * k)\<rparr>) s"
proof (induction k arbitrary: pos l)
  case 0
  then have "l\<lparr>p_off := of_nat (pos + 4 * 0)\<rparr> = l" by (cases l) simp
  then show ?case by (simp only:)
next
  case (Suc k)
  let ?l = "l\<lparr>p_off := of_nat (pos + 4)\<rparr>"
  have mem: "holds_bytes (ram s) (sb + of_nat pos) (to_be_bytes (4 :: u32) @ concat (replicate k (to_be_bytes (4 :: u32))))"
    using Suc.prems(1) by simp
  have "parse_step dtb os sb l s = (Inr (Some ?l), s)"
    using read_token [OF mem Suc.prems(2)] Suc.prems(3) by (simp add: fdt_tokens del: of_nat_add)
  then have "parse_loop dtb os sb l s = parse_loop dtb os sb ?l s" by (subst parse_loop.simps) simp
  moreover have "holds_bytes (ram s) (sb + of_nat (pos + 4)) (concat (replicate k (to_be_bytes (4 :: u32))))"
    using mem by (simp add: holds_bytes_append add.assoc add.commute)
  ultimately show ?case using Suc.IH [of "pos + 4" ?l] Suc.prems(3) by (simp del: of_nat_add add: add.assoc)
qed

definition parent_of :: "nat list \<Rightarrow> nat option" where
  "parent_of opened = (if opened = [] then None else Some (last opened))"

lemma read_parent:
  assumes "at_state l s pos opened k ds hs" and "\<forall>i \<in> set opened. i < length ds"
  shows "(if 0 < stack_depth (l\<lparr>p_off := off\<rparr>)
      then bind_M (stack_top (l\<lparr>p_off := off\<rparr>)) (\<lambda>i. bind_M (deref_device i) (\<lambda>_. return_M (Some i)))
      else return_M None) s = (Inr (parent_of opened), s)"
proof (cases opened rule: rev_cases)
  case Nil
  then show ?thesis using assms(1) by (simp add: at_state_def parent_of_def)
next
  case (snoc opened' i)
  then have "deref_device i s = (Inr (ds ! i), s)" using assms by (intro deref_recorded [OF assms(1)]) simp
  moreover have "0 < stack_depth l" using assms(1) snoc by (simp add: at_state_def)
  moreover have "stack_top (l\<lparr>p_off := off\<rparr>) s = (Inr i, s)"
    using assms(1) snoc by (intro stack_top_open) simp
  ultimately show ?thesis using snoc by (simp add: parent_of_def)
qed

text \<open>What a token reads from memory, before it touches the tables.\<close>

lemma begin_node_reads:
  assumes at: "at_state l s pos opened k ds hs" and "\<forall>i \<in> set opened. i < length ds"
    and mem: "holds_bytes (ram s) (sb + of_nat pos) (enc_begin n @ bs)" and "0 \<notin> set (str_bytes n)"
    and "pos mod 4 = 0" and bound: "unat sb + pos + length (enc_begin n) + 4 < 2 ^ 64"
  shows "begin_node sb (l\<lparr>p_off := of_nat (pos + 4)\<rparr>) s =
    seq_M (set_device (length ds) (PlatformDevice_new\<lparr>dev_parent := parent_of opened, dev_name := n\<rparr>))
      (bind_M (update_M (p_stack l) (length opened) (length ds)) (\<lambda>stack.
       seq_M (modify_M (\<lambda>s. s\<lparr>DEVICE_COUNT := length ds + 1\<rparr>))
         (return_M \<lparr>p_off = of_nat (pos + length (enc_begin n)), prop_id = 0, p_stack = stack, stack_depth = length opened + 1\<rparr>))) s"
proof -
  let ?l = "l\<lparr>p_off := of_nat (pos + 4)\<rparr>"
  let ?e = "pos + length (enc_begin n)"
  have len: "length n + 1 \<le> (length n + 4) div 4 * 4" by linarith
  have "holds_bytes (ram s) (sb + of_nat pos) (to_be_bytes (1 :: u32) @ (str_bytes n @ [0]) @
      replicate ((length (str_bytes n @ [0]) + 3) div 4 * 4 - length (str_bytes n @ [0])) 0 @ bs)"
    using mem by (simp add: enc_begin_def pad4_def)
  then have name: "holds_bytes (ram s) (sb + of_nat (pos + 4)) (str_bytes n @ [0])"
    unfolding holds_bytes_append by (simp add: ac_simps)
  have start: "checked_add sb (p_off ?l) s = (Inr (sb + of_nat (pos + 4)), s)"
    using checked_add_base [of sb "pos + 4" s] bound by (simp add: length_enc_begin)
  have scan: "cstr_len (sb + of_nat (pos + 4)) 0 s = (Inr (length n), s)"
    using cstr_len_holds [of s _ 0 "str_bytes n"] name assms(4) bound len by (simp add: length_enc_begin)
  have slice: "load_bytes (length n) (sb + of_nat (pos + 4)) s = (Inr (str_bytes n), s)"
    using load_bytes_holds [of s "sb + of_nat (pos + 4)" "str_bytes n"] name by (simp add: holds_bytes_append)
  have step: "checked_add (of_nat (length n) :: u64) 1 s = (Inr (of_nat (length n + 1)), s)"
    using checked_add_of_nat [of "length n" 1 s] bound len by (simp add: length_enc_begin)
  have off: "checked_add (p_off ?l) (of_nat (length n + 1)) s = (Inr (of_nat (pos + 4 + (length n + 1))), s)"
    using checked_add_of_nat [of "pos + 4" "length n + 1" s] bound len by (simp add: length_enc_begin)
  have "(pos + 4 + (length n + 1) + 3) div 4 * 4 = ?e"
    using align_end [of "pos + 4" "length n + 1"] assms(5) by (simp add: length_enc_begin add.assoc)
  then have align: "align4 (of_nat (pos + 4 + (length n + 1))) s = (Inr (of_nat ?e), s)"
    using align4_of_nat [of "pos + 4 + (length n + 1)" s] bound len by (simp add: length_enc_begin)
  show ?thesis
    using start scan slice step off align read_parent [OF at assms(2)] at
    by (simp add: begin_node_def Let_def at_state_def del: of_nat_add)
qed

lemma begin_step:
  assumes "holds_bytes (ram s) (sb + of_nat pos) (enc_begin n @ bs)" and "at_state l s pos opened k ds hs" and "pos + 4 < 2 ^ 64"
  shows "parse_step dtb os sb l s = bind_M (begin_node sb (l\<lparr>p_off := of_nat (pos + 4)\<rparr>)) (\<lambda>l. return_M (Some l)) s"
  using read_token [of s sb pos 1 _ l dtb os] assms by (simp add: enc_begin_def fdt_tokens at_state_def del: of_nat_add)

lemma begin_token:
  assumes at: "at_state l s pos opened k ds hs" and "\<forall>i \<in> set opened. i < length ds"
    and mem: "holds_bytes (ram s) (sb + of_nat pos) (enc_begin n @ bs)" and "0 \<notin> set (str_bytes n)"
    and "pos mod 4 = 0" and bound: "unat sb + pos + length (enc_begin n) + 4 < 2 ^ 64"
    and "length opened < 10" and "length ds < MAX_DEVICES"
  shows "\<exists>l' s'. parse_step dtb os sb l s = (Inr (Some l'), s') \<and> dt_rest s' = dt_rest s \<and>
    at_state l' s' (pos + length (enc_begin n)) (opened @ [length ds]) 0
      (ds @ [PlatformDevice_new\<lparr>dev_parent := parent_of opened, dev_name := n\<rparr>]) hs"
proof -
  let ?d = "PlatformDevice_new\<lparr>dev_parent := parent_of opened, dev_name := n\<rparr>"
  let ?e = "pos + length (enc_begin n)"
  let ?s = "s\<lparr>DEVICE_TABLE := (DEVICE_TABLE s)[length ds := ?d], DEVICE_COUNT := length ds + 1\<rparr>"
  let ?l' = "\<lparr>p_off = of_nat ?e, prop_id = 0, p_stack = (p_stack l)[length opened := length ds],
      stack_depth = length opened + 1\<rparr>"
  have "parse_step dtb os sb l s = (Inr (Some ?l'), ?s)"
    using begin_step [OF mem at, of dtb os] begin_node_reads [OF assms(1-6)] bound at assms(7,8)
    by (simp add: set_device_def at_state_def del: of_nat_add)
  moreover have "at_state ?l' ?s ?e (opened @ [length ds]) 0 (ds @ [?d]) hs"
    using at assms(7,8) by (simp add: at_state_def take_update_snoc)
  moreover have "dt_rest ?s = dt_rest s" by (simp add: dt_rest_def)
  ultimately show ?thesis by blast
qed

lemma end_token:
  assumes at: "at_state l s pos (opened @ [i]) k ds hs" and "i < length ds"
    and mem: "holds_bytes (ram s) (sb + of_nat pos) (to_be_bytes (2 :: u32) @ bs)" and "pos + 4 < 2 ^ 64"
  shows "\<exists>l' s'. parse_step dtb os sb l s = (Inr (Some l'), s') \<and> dt_rest s' = dt_rest s \<and>
    at_state l' s' (pos + 4) opened k (ds[i := (ds ! i)\<lparr>prop_count := k\<rparr>]) hs"
proof -
  let ?l' = "l\<lparr>p_off := of_nat (pos + 4), stack_depth := length opened\<rparr>"
  let ?s = "s\<lparr>DEVICE_TABLE := (DEVICE_TABLE s)[i := (ds ! i)\<lparr>prop_count := k\<rparr>]\<rparr>"
  have "end_node (l\<lparr>p_off := of_nat (pos + 4)\<rparr>) s = (Inr ?l', ?s)"
    using stack_top_open [OF at, of "of_nat (pos + 4)" s] deref_recorded [OF at assms(2)] at assms(2)
    by (simp add: end_node_def set_device_def at_state_def)
  then have "parse_step dtb os sb l s = (Inr (Some ?l'), ?s)"
    using read_token [OF mem _ assms(4), of l dtb os] at by (simp add: fdt_tokens at_state_def)
  moreover have "take (length opened) (p_stack l) = opened"
    using at take_take [of "length opened" "length (opened @ [i])" "p_stack l"] by (simp add: at_state_def min_def)
  then have "at_state ?l' ?s (pos + 4) opened k (ds[i := (ds ! i)\<lparr>prop_count := k\<rparr>]) hs"
    using at by (simp add: at_state_def take_update_swap)
  moreover have "dt_rest ?s = dt_rest s" by (simp add: dt_rest_def)
  ultimately show ?thesis by blast
qed

text \<open>The names used are in the strings block, and a phandle is one cell.\<close>

definition prop_ok :: "(u32 \<Rightarrow> string) \<Rightarrow> (u64 \<Rightarrow> u8 option) \<Rightarrow> usize \<Rightarrow> usize \<Rightarrow> dt_prop \<Rightarrow> bool" where
  "prop_ok names mem dtb os p \<longleftrightarrow>
     unat dtb + unat os + unat (fst p) < 2 ^ 64 \<and> length (names (fst p)) < 2 ^ 32 \<and> 0 \<notin> set (str_bytes (names (fst p))) \<and>
     holds_bytes mem (dtb + os + ucast (fst p)) (str_bytes (names (fst p)) @ [0]) \<and>
     length (snd p) < 2 ^ 32 \<and> (names (fst p) = ''phandle'' \<longrightarrow> length (snd p) = 4)"

lemma get_property_name_ok:
  assumes "prop_ok names (ram s) dtb os p"
  shows "get_property_name dtb os (fst p) s = (Inr (names (fst p)), s)"
proof -
  let ?n = "str_bytes (names (fst p))" and ?a = "dtb + os + ucast (fst p)"
  have mem: "holds_bytes (ram s) ?a (?n @ [0])" and n: "0 \<notin> set ?n" "length (names (fst p)) < 2 ^ 32"
    and fit: "unat dtb + unat os + unat (fst p) < 2 ^ 64"
    using assms by (simp_all add: prop_ok_def)
  have "unat (dtb + os) = unat dtb + unat os" using fit by (intro unat_add_fits) simp
  then have "checked_add dtb os s = (Inr (dtb + os), s)" "checked_add (dtb + os) (ucast (fst p)) s = (Inr ?a, s)"
    using fit by simp_all
  moreover have "cstr_len ?a 0 s = (Inr (length (names (fst p))), s)"
    using cstr_len_holds [of s ?a 0 ?n] mem n by simp
  moreover have "load_bytes (length (names (fst p))) ?a s = (Inr ?n, s)"
    using load_bytes_holds [of s ?a ?n] mem by (simp add: holds_bytes_append)
  ultimately show ?thesis by (simp add: get_property_name_def)
qed

lemma prop_header_ok:
  "holds_bytes (ram s) a (to_be_bytes len @ to_be_bytes off @ bs) \<Longrightarrow>
   FdtPropHeader_from_be_bytes a s = (Inr \<lparr>ph_len = len, ph_nameoff = off\<rparr>, s)"
  using read_be_u32_holds [of s a 0 len] read_be_u32_holds [of s a 4 off]
  by (simp add: FdtPropHeader_from_be_bytes_def holds_bytes_append)

definition handle_of :: "(u32 \<Rightarrow> string) \<Rightarrow> nat \<Rightarrow> dt_prop \<Rightarrow> (u32 \<times> nat) list" where
  "handle_of names i p = (if names (fst p) = ''phandle'' then [(be_word (snd p), i)] else [])"

lemma register_phandle_ok:
  assumes at: "at_state l s pos opened k ds hs" and "prop_ok names (ram s) dtb os p"
    and "holds_bytes (ram s) a (snd p)" and "length (hs @ handle_of names i p) \<le> MAX_HANDLES"
  shows "\<exists>s'. register_phandle (names (fst p)) a i s = (Inr (), s') \<and> dt_rest s' = dt_rest s \<and>
    at_state l s' pos opened k ds (hs @ handle_of names i p)"
proof (cases "names (fst p) = ''phandle''")
  case True
  let ?s = "s\<lparr>PHANDLE_TABLE := (PHANDLE_TABLE s)[length hs := (be_word (snd p), i)], PHANDLE_COUNT := length hs + 1\<rparr>"
  have "length (snd p) = 4" using True assms(2) by (simp add: prop_ok_def)
  then have "read_be_u32 a 0 s = (Inr (be_word (snd p)), s)"
    using load_bytes_holds [OF assms(3)] by (simp add: read_be_u32_eq)
  moreover have "length hs < MAX_HANDLES" using assms(4) True by (simp add: handle_of_def)
  ultimately have "register_phandle (names (fst p)) a i s = (Inr (), ?s)"
    using True at by (simp add: register_phandle_def at_state_def)
  moreover have "at_state l ?s pos opened k ds (hs @ handle_of names i p)"
    using at \<open>length hs < MAX_HANDLES\<close> True by (simp add: at_state_def handle_of_def take_update_snoc)
  moreover have "dt_rest ?s = dt_rest s" by (simp add: dt_rest_def)
  ultimately show ?thesis by blast
next
  case False
  then show ?thesis using at by (simp add: register_phandle_def handle_of_def)
qed

definition flat_prop :: "(u32 \<Rightarrow> string) \<Rightarrow> u64 \<Rightarrow> nat \<Rightarrow> dt_prop \<Rightarrow> property" where
  "flat_prop names sb pos p =
     \<lparr>prop_name = names (fst p), prop_value = sb + of_nat (pos + 12), prop_len = of_nat (length (snd p))\<rparr>"

lemma enc_prop_split:
  assumes "holds_bytes m (sb + of_nat pos) (enc_prop p @ bs)"
  shows "holds_bytes m (sb + of_nat pos) (to_be_bytes (3 :: u32) @ drop 4 (enc_prop p @ bs))"
    and "holds_bytes m (sb + of_nat (pos + 4)) (to_be_bytes (of_nat (length (snd p)) :: u32) @ to_be_bytes (fst p) @ pad4 (snd p))"
    and "holds_bytes m (sb + of_nat (pos + 12)) (snd p)"
proof -
  show "holds_bytes m (sb + of_nat pos) (to_be_bytes (3 :: u32) @ drop 4 (enc_prop p @ bs))"
    using assms by (simp add: enc_prop_def)
  show "holds_bytes m (sb + of_nat (pos + 4)) (to_be_bytes (of_nat (length (snd p)) :: u32) @ to_be_bytes (fst p) @ pad4 (snd p))"
    and "holds_bytes m (sb + of_nat (pos + 12)) (snd p)"
    using assms by (simp_all add: enc_prop_def pad4_def holds_bytes_append ac_simps)
qed

lemma parse_prop_reads:
  fixes s :: "('h, 'm) dt_machine_scheme"
  assumes at: "at_state l s pos (opened @ [i]) k ds hs" and ok: "prop_ok names (ram s) dtb os p"
    and mem: "holds_bytes (ram s) (sb + of_nat pos) (enc_prop p @ bs)" and "pos mod 4 = 0"
    and bound: "unat sb + pos + length (enc_prop p) + 4 < 2 ^ 64"
  shows "parse_prop dtb os sb (l\<lparr>p_off := of_nat (pos + 4)\<rparr>) s =
    seq_M (register_phandle (names (fst p)) (sb + of_nat (pos + 12)) i)
      (bind_M (deref_device i) (\<lambda>dev.
       bind_M (update_M (dev_properties dev) k (flat_prop names sb pos p)) (\<lambda>props.
       seq_M (set_device i (dev\<lparr>dev_properties := props\<rparr>))
         (return_M (l\<lparr>p_off := of_nat (pos + length (enc_prop p)), prop_id := k + 1\<rparr>))))) s"
proof -
  let ?l = "l\<lparr>p_off := of_nat (pos + 4)\<rparr>" and ?e = "pos + length (enc_prop p)"
  have len: "length (snd p) < 2 ^ 32" "length (snd p) \<le> (length (snd p) + 3) div 4 * 4"
    using ok by (simp add: prop_ok_def, linarith)
  have "unat (of_nat (length (snd p)) :: u32) = length (snd p)" using len(1) by (simp add: unat_of_nat)
  then have plen: "(ucast (of_nat (length (snd p)) :: u32) :: u64) = of_nat (length (snd p))"
    by (metis of_nat_unat)
  have hdr: "checked_add sb (p_off ?l) s = (Inr (sb + of_nat (pos + 4)), s)"
    "checked_add (p_off ?l) 8 s = (Inr (of_nat (pos + 12)), s)"
    "checked_add sb (of_nat (pos + 12)) s = (Inr (sb + of_nat (pos + 12)), s)"
    using checked_add_base [of sb "pos + 4" s] checked_add_of_nat [of "pos + 4" 8 s]
      checked_add_base [of sb "pos + 12" s] bound by (simp_all add: length_enc_prop)
  have off: "checked_add (of_nat (pos + 12)) (of_nat (length (snd p)) :: u64) =
      (return_M (of_nat (pos + 12 + length (snd p))) :: (('h, 'm) dt_machine_scheme, u64) M)"
    using checked_add_of_nat [of "pos + 12" "length (snd p)"] bound len by (auto simp: length_enc_prop fun_eq_iff)
  have "(pos + 12) mod 4 = 0" using assms(4) by presburger
  then have "(pos + 12 + length (snd p) + 3) div 4 * 4 = ?e"
    using align_end [of "pos + 12" "length (snd p)"] by (simp add: length_enc_prop add.assoc)
  then have align: "align4 (of_nat (pos + 12 + length (snd p))) = (return_M (of_nat ?e) :: (('h, 'm) dt_machine_scheme, u64) M)"
    using align4_of_nat [of "pos + 12 + length (snd p)"] bound len by (auto simp: length_enc_prop fun_eq_iff)
  have pid: "prop_id l = k" using at by (simp add: at_state_def)
  show ?thesis
    using hdr prop_header_ok [of s "sb + of_nat (pos + 4)"] enc_prop_split(2) [OF mem] get_property_name_ok [OF ok]
      stack_top_open [OF at, of "of_nat (pos + 4)" s]
    by (simp add: parse_prop_def Let_def plen pid flat_prop_def off align del: of_nat_add) (simp add: return_M_def)
qed

lemma prop_step:
  assumes "holds_bytes (ram s) (sb + of_nat pos) (enc_prop p @ bs)" and "at_state l s pos opened k ds hs" and "pos + 4 < 2 ^ 64"
  shows "parse_step dtb os sb l s = bind_M (parse_prop dtb os sb (l\<lparr>p_off := of_nat (pos + 4)\<rparr>)) (\<lambda>l. return_M (Some l)) s"
  using read_token [OF enc_prop_split(1) [OF assms(1)], of l dtb os] assms(2,3) by (simp add: fdt_tokens at_state_def del: of_nat_add)

lemma prop_token:
  assumes at: "at_state l s pos (opened @ [i]) k ds hs" and "i < length ds" and "k < MAX_PROPS"
    and "length (dev_properties (ds ! i)) = MAX_PROPS" and ok: "prop_ok names (ram s) dtb os p"
    and mem: "holds_bytes (ram s) (sb + of_nat pos) (enc_prop p @ bs)" and "pos mod 4 = 0"
    and bound: "unat sb + pos + length (enc_prop p) + 4 < 2 ^ 64" and "length (hs @ handle_of names i p) \<le> MAX_HANDLES"
  shows "\<exists>l' s'. parse_step dtb os sb l s = (Inr (Some l'), s') \<and> dt_rest s' = dt_rest s \<and>
    at_state l' s' (pos + length (enc_prop p)) (opened @ [i]) (k + 1)
      (ds[i := (ds ! i)\<lparr>dev_properties := (dev_properties (ds ! i))[k := flat_prop names sb pos p]\<rparr>])
      (hs @ handle_of names i p)"
proof -
  let ?e = "pos + length (enc_prop p)"
  let ?d = "(ds ! i)\<lparr>dev_properties := (dev_properties (ds ! i))[k := flat_prop names sb pos p]\<rparr>"
  obtain s1 where reg: "register_phandle (names (fst p)) (sb + of_nat (pos + 12)) i s = (Inr (), s1)"
    and rest: "dt_rest s1 = dt_rest s" and at1: "at_state l s1 pos (opened @ [i]) k ds (hs @ handle_of names i p)"
    using register_phandle_ok [OF at ok enc_prop_split(3) [OF mem] assms(9)] by blast
  let ?s = "s1\<lparr>DEVICE_TABLE := (DEVICE_TABLE s1)[i := ?d]\<rparr>"
  let ?l' = "l\<lparr>p_off := of_nat ?e, prop_id := k + 1\<rparr>"
  have store: "update_M (dev_properties (ds ! i)) k (flat_prop names sb pos p) s1 =
      (Inr ((dev_properties (ds ! i))[k := flat_prop names sb pos p]), s1)"
    "set_device i ?d s1 = (Inr (), ?s)"
    using at1 assms(2-4) by (simp_all add: set_device_def at_state_def)
  then have "parse_step dtb os sb l s = (Inr (Some ?l'), ?s)"
    using prop_step [OF mem at, of dtb os] parse_prop_reads [OF at ok mem assms(7) bound] bound reg deref_recorded [OF at1 assms(2)]
    by (simp add: length_enc_prop del: of_nat_add)
  moreover have "at_state ?l' ?s ?e (opened @ [i]) (k + 1) (ds[i := ?d]) (hs @ handle_of names i p)"
    using at1 by (simp add: at_state_def take_update_swap)
  moreover have "dt_rest ?s = dt_rest s" using rest by (simp add: dt_rest_def)
  ultimately show ?thesis by blast
qed

section \<open>Whole trees\<close>

lemma loop_step:
  "parse_step dtb os sb l s = (Inr (Some l'), s') \<Longrightarrow> parse_loop dtb os sb l s = parse_loop dtb os sb l' s'"
  by (subst parse_loop.simps) simp

lemma le_fold_max: "a \<le> fold max xs a" "x \<in> set xs \<Longrightarrow> x \<le> fold max xs a" for a :: nat
proof -
  show *: "a \<le> fold max xs a" for a :: nat and xs
  proof (induction xs arbitrary: a)
    case (Cons x xs)
    have "a \<le> max x a" by simp
    also have "\<dots> \<le> fold max xs (max x a)" by (rule Cons)
    finally show ?case by simp
  qed simp
  show "x \<le> fold max xs a" if "x \<in> set xs" for x xs and a :: nat
    using that
  proof (induction xs arbitrary: a)
    case (Cons y ys)
    show ?case
    proof (cases "x = y")
      case True
      have "x \<le> max y a" using True by simp
      also have "\<dots> \<le> fold max ys (max y a)" by (rule *)
      finally show ?thesis by simp
    next
      case False
      then show ?thesis using Cons by simp
    qed
  qed simp
qed

lemma prop_handles_Cons: "prop_handles names i (p # ps) = handle_of names i p @ prop_handles names i ps"
  by (simp add: prop_handles_def handle_of_def)

lemma flat_props_Cons:
  "flat_props names sb pos (p # ps) = flat_prop names sb pos p # flat_props names sb (pos + length (enc_prop p)) ps"
  by (simp add: flat_prop_def)

declare flat_props.simps(2) [simp del]

lemma length_flat_props [simp]: "length (flat_props names sb pos ps) = length ps"
  by (induction ps arbitrary: pos) (simp_all add: flat_props_Cons)

lemma store_next_prop:
  assumes "length dn < MAX_PROPS"
  shows "(dn @ replicate (MAX_PROPS - length dn) Property_new)[length dn := p] =
    (dn @ [p]) @ replicate (MAX_PROPS - length (dn @ [p])) Property_new"
proof -
  have "MAX_PROPS - length dn = Suc (MAX_PROPS - length (dn @ [p]))" using assms by simp
  then show ?thesis by (simp only: list_update_append1 list_update_length replicate_Suc append.assoc append.simps)
qed

lemma next_prop_token:
  assumes at: "at_state l s pos (opened @ [length ds]) (length dn)
      (ds @ [D\<lparr>dev_properties := dn @ replicate (MAX_PROPS - length dn) Property_new\<rparr>]) hs"
    and lt: "length dn < MAX_PROPS" and ok: "prop_ok names (ram s) dtb os p"
    and mem: "holds_bytes (ram s) (sb + of_nat pos) (enc_prop p @ bs)" and pos: "pos mod 4 = 0"
    and bound: "unat sb + pos + length (enc_prop p) + 4 < 2 ^ 64"
    and room: "length (hs @ handle_of names (length ds) p) \<le> MAX_HANDLES"
  shows "\<exists>l' s'. parse_step dtb os sb l s = (Inr (Some l'), s') \<and> dt_rest s' = dt_rest s \<and>
    at_state l' s' (pos + length (enc_prop p)) (opened @ [length ds]) (length (dn @ [flat_prop names sb pos p]))
      (ds @ [D\<lparr>dev_properties := (dn @ [flat_prop names sb pos p]) @
         replicate (MAX_PROPS - length (dn @ [flat_prop names sb pos p])) Property_new\<rparr>])
      (hs @ handle_of names (length ds) p)"
proof -
  let ?dev = "\<lambda>dn. D\<lparr>dev_properties := dn @ replicate (MAX_PROPS - length dn) Property_new\<rparr>"
  let ?p = "flat_prop names sb pos p"
  have nth: "(ds @ [?dev dn]) ! length ds = ?dev dn" by simp
  have upd: "(ds @ [?dev dn])[length ds := (?dev dn)\<lparr>dev_properties := (dev_properties (?dev dn))[length dn := ?p]\<rparr>] =
      ds @ [?dev (dn @ [?p])]"
    using store_next_prop [OF lt, of ?p] by simp
  have "\<exists>l1 s1. parse_step dtb os sb l s = (Inr (Some l1), s1) \<and> dt_rest s1 = dt_rest s \<and>
    at_state l1 s1 (pos + length (enc_prop p)) (opened @ [length ds]) (length dn + 1)
      ((ds @ [?dev dn])[length ds := ((ds @ [?dev dn]) ! length ds)
         \<lparr>dev_properties := (dev_properties ((ds @ [?dev dn]) ! length ds))[length dn := ?p]\<rparr>])
      (hs @ handle_of names (length ds) p)"
    by (rule prop_token [OF at _ lt _ ok mem pos bound room]) (use lt in simp_all)
  then show ?thesis unfolding nth upd by auto
qed

lemma props_tokens:
  assumes "at_state l s pos (opened @ [length ds]) (length dn)
      (ds @ [D\<lparr>dev_properties := dn @ replicate (MAX_PROPS - length dn) Property_new\<rparr>]) hs"
    and "length dn + length ps \<le> MAX_PROPS" and "\<forall>p \<in> set ps. prop_ok names (ram s) dtb os p"
    and "holds_bytes (ram s) (sb + of_nat pos) (concat (map enc_prop ps) @ bs)" and "pos mod 4 = 0"
    and "unat sb + pos + length (concat (map enc_prop ps)) + 4 < 2 ^ 64"
    and "length (hs @ prop_handles names (length ds) ps) \<le> MAX_HANDLES"
  shows "\<exists>l' s'. parse_loop dtb os sb l s = parse_loop dtb os sb l' s' \<and> dt_rest s' = dt_rest s \<and>
    at_state l' s' (pos + length (concat (map enc_prop ps))) (opened @ [length ds]) (length dn + length ps)
      (ds @ [D\<lparr>dev_properties := (dn @ flat_props names sb pos ps) @ replicate (MAX_PROPS - (length dn + length ps)) Property_new\<rparr>])
      (hs @ prop_handles names (length ds) ps)"
  using assms
proof (induction ps arbitrary: l s pos dn hs)
  case Nil
  then show ?case by (intro exI [of _ l] exI [of _ s]) (simp add: prop_handles_def)
next
  case (Cons p ps)
  let ?dev = "\<lambda>dn. D\<lparr>dev_properties := dn @ replicate (MAX_PROPS - length dn) Property_new\<rparr>"
  let ?p = "flat_prop names sb pos p"
  have lt: "length dn < MAX_PROPS" using Cons.prems(2) by simp
  have mem: "holds_bytes (ram s) (sb + of_nat pos) (enc_prop p @ concat (map enc_prop ps) @ bs)"
    using Cons.prems(4) by simp
  obtain l1 s1 where step: "parse_step dtb os sb l s = (Inr (Some l1), s1)" "dt_rest s1 = dt_rest s"
    and at1: "at_state l1 s1 (pos + length (enc_prop p)) (opened @ [length ds]) (length (dn @ [?p]))
      (ds @ [?dev (dn @ [?p])]) (hs @ handle_of names (length ds) p)"
    using next_prop_token [OF Cons.prems(1) lt _ mem Cons.prems(5), of names dtb os] Cons.prems(3,6,7) by (auto simp: prop_handles_Cons)
  have "\<exists>l' s'. parse_loop dtb os sb l1 s1 = parse_loop dtb os sb l' s' \<and> dt_rest s' = dt_rest s1 \<and>
    at_state l' s' (pos + length (enc_prop p) + length (concat (map enc_prop ps))) (opened @ [length ds])
      (length (dn @ [?p]) + length ps)
      (ds @ [D\<lparr>dev_properties := ((dn @ [?p]) @ flat_props names sb (pos + length (enc_prop p)) ps) @
         replicate (MAX_PROPS - (length (dn @ [?p]) + length ps)) Property_new\<rparr>])
      ((hs @ handle_of names (length ds) p) @ prop_handles names (length ds) ps)"
  proof (rule Cons.IH [OF at1])
    show "holds_bytes (ram s1) (sb + of_nat (pos + length (enc_prop p))) (concat (map enc_prop ps) @ bs)"
      using mem unfolding holds_bytes_append by (simp add: dt_rest_ram [OF step(2)] add.assoc)
    show "(pos + length (enc_prop p)) mod 4 = 0"
      using Cons.prems(5) by (simp add: length_enc_prop) presburger
  qed (use Cons.prems(2,3,6,7) in \<open>simp_all add: dt_rest_ram [OF step(2)] prop_handles_Cons\<close>)
  then show ?case
    using loop_step [OF step(1)] step(2) by (simp add: prop_handles_Cons flat_props_Cons add.assoc)
qed

primrec node_ok :: "(u32 \<Rightarrow> string) \<Rightarrow> (u64 \<Rightarrow> u8 option) \<Rightarrow> usize \<Rightarrow> usize \<Rightarrow> dt_node \<Rightarrow> bool" where
  "node_ok names mem dtb os (Node n ps cs) \<longleftrightarrow>
     0 \<notin> set (str_bytes n) \<and> length ps \<le> MAX_PROPS \<and> (\<forall>p \<in> set ps. prop_ok names mem dtb os p) \<and>
     (\<forall>b \<in> set (map (node_ok names mem dtb os) cs). b)"

text \<open>The parse continues in a state with the given position and tables.\<close>

definition reaches :: "usize \<Rightarrow> usize \<Rightarrow> usize \<Rightarrow> parse_locals \<Rightarrow> ('h, 'm) dt_machine_scheme \<Rightarrow>
    nat \<Rightarrow> nat list \<Rightarrow> nat \<Rightarrow> platform_device list \<Rightarrow> (u32 \<times> nat) list \<Rightarrow> bool" where
  "reaches dtb os sb l s pos opened k ds hs \<longleftrightarrow>
     (\<exists>l' s'. parse_loop dtb os sb l s = parse_loop dtb os sb l' s' \<and> dt_rest s' = dt_rest s \<and>
        at_state l' s' pos opened k ds hs)"

lemma reaches_step:
  assumes "parse_step dtb os sb l s = (Inr (Some l1), s1)" and "dt_rest s1 = dt_rest s"
    and "reaches dtb os sb l1 s1 pos opened k ds hs"
  shows "reaches dtb os sb l s pos opened k ds hs"
  using assms loop_step [OF assms(1)] by (auto simp: reaches_def)

lemma reaches_trans:
  assumes "parse_loop dtb os sb l s = parse_loop dtb os sb l1 s1" and "dt_rest s1 = dt_rest s"
    and "reaches dtb os sb l1 s1 pos opened k ds hs"
  shows "reaches dtb os sb l s pos opened k ds hs"
  using assms by (auto simp: reaches_def)

text \<open>What a node needs to be parsed where the parser stands.\<close>

definition fits :: "(u32 \<Rightarrow> string) \<Rightarrow> usize \<Rightarrow> usize \<Rightarrow> usize \<Rightarrow> ('h, 'm) dt_machine_scheme \<Rightarrow>
    nat \<Rightarrow> nat list \<Rightarrow> nat \<Rightarrow> nat \<Rightarrow> dt_node \<Rightarrow> bool" where
  "fits names dtb os sb s pos opened i h c \<longleftrightarrow>
     node_ok names (ram s) dtb os c \<and> holds_bytes (ram s) (sb + of_nat pos) (enc_node c) \<and> pos mod 4 = 0 \<and>
     unat sb + pos + length (enc_node c) + 4 < 2 ^ 64 \<and> length opened + node_height c \<le> 10 \<and>
     i + node_count c \<le> MAX_DEVICES \<and> h + length (handles names i c) \<le> MAX_HANDLES \<and> (\<forall>j \<in> set opened. j < i)"

definition fits_all :: "(u32 \<Rightarrow> string) \<Rightarrow> usize \<Rightarrow> usize \<Rightarrow> usize \<Rightarrow> ('h, 'm) dt_machine_scheme \<Rightarrow>
    nat \<Rightarrow> nat list \<Rightarrow> nat \<Rightarrow> nat \<Rightarrow> dt_node list \<Rightarrow> bool" where
  "fits_all names dtb os sb s pos opened i h cs \<longleftrightarrow>
     (\<forall>c \<in> set cs. node_ok names (ram s) dtb os c \<and> length opened + node_height c \<le> 10) \<and>
     holds_bytes (ram s) (sb + of_nat pos) (concat (map enc_node cs)) \<and> pos mod 4 = 0 \<and>
     unat sb + pos + length (concat (map enc_node cs)) + 4 < 2 ^ 64 \<and>
     i + sum_list (map node_count cs) \<le> MAX_DEVICES \<and> h + length (handless names i cs) \<le> MAX_HANDLES \<and>
     (\<forall>j \<in> set opened. j < i)"

lemma fits_all_Cons:
  assumes "fits_all names dtb os sb s pos opened i h (c # cs)"
  shows "fits names dtb os sb s pos opened i h c"
    and "fits_all names dtb os sb s (pos + length (enc_node c)) opened (i + node_count c) (h + length (handles names i c)) cs"
proof -
  show "fits names dtb os sb s pos opened i h c"
    using assms by (simp add: fits_all_def fits_def holds_bytes_append)
  have "(pos + length (enc_node c)) mod 4 = 0"
    using assms length_enc_mod4(2) [of c] by (simp add: fits_all_def mod_add_eq [symmetric])
  then show "fits_all names dtb os sb s (pos + length (enc_node c)) opened (i + node_count c) (h + length (handles names i c)) cs"
    using assms by (auto simp: fits_all_def holds_bytes_append add.assoc)
qed

lemma fits_cong: "dt_rest s1 = dt_rest s \<Longrightarrow> fits_all names dtb os sb s1 = fits_all names dtb os sb s"
  by (simp add: fun_eq_iff fits_all_def dt_rest_ram [of s1 s])

lemma children_tokens:
  fixes s :: "('h, 'm) dt_machine_scheme"
  assumes IH: "\<And>c l (s :: ('h, 'm) dt_machine_scheme) pos k ds hs. c \<in> set cs \<Longrightarrow> at_state l s pos opened k ds hs \<Longrightarrow>
      fits names dtb os sb s pos opened (length ds) (length hs) c \<Longrightarrow>
      reaches dtb os sb l s (pos + length (enc_node c)) opened (last_props c)
        (ds @ flat names sb (parent_of opened) (length ds) pos c) (hs @ handles names (length ds) c)"
    and "at_state l s pos opened k ds hs" and "fits_all names dtb os sb s pos opened (length ds) (length hs) cs"
  shows "reaches dtb os sb l s (pos + length (concat (map enc_node cs))) opened
    (if cs = [] then k else last (map last_props cs))
    (ds @ flats names sb (parent_of opened) (length ds) pos cs) (hs @ handless names (length ds) cs)"
  using assms
proof (induction cs arbitrary: l s pos k ds hs)
  case Nil
  then show ?case by (auto simp: reaches_def)
next
  case (Cons c cs)
  note fit = fits_all_Cons [OF Cons.prems(3)]
  obtain l1 s1 where loop: "parse_loop dtb os sb l s = parse_loop dtb os sb l1 s1" "dt_rest s1 = dt_rest s"
    and at1: "at_state l1 s1 (pos + length (enc_node c)) opened (last_props c)
        (ds @ flat names sb (parent_of opened) (length ds) pos c) (hs @ handles names (length ds) c)"
    using Cons.prems(1) [OF _ Cons.prems(2) fit(1)] by (auto simp: reaches_def)
  have "reaches dtb os sb l1 s1 (pos + length (enc_node c) + length (concat (map enc_node cs))) opened
    (if cs = [] then last_props c else last (map last_props cs))
    ((ds @ flat names sb (parent_of opened) (length ds) pos c) @
       flats names sb (parent_of opened) (length (ds @ flat names sb (parent_of opened) (length ds) pos c)) (pos + length (enc_node c)) cs)
    ((hs @ handles names (length ds) c) @
       handless names (length (ds @ flat names sb (parent_of opened) (length ds) pos c)) cs)"
    using Cons.prems(1) fit(2) by (intro Cons.IH [OF _ at1]) (simp_all add: fits_cong [OF loop(2)] length_flat)
  then show ?case
    using reaches_trans [OF loop] by (simp add: length_flat add.assoc)
qed

lemma node_height_child: "c \<in> set cs \<Longrightarrow> Suc (node_height c) \<le> node_height (Node n ps cs)"
  using le_fold_max(2) [of "node_height c" "map node_height cs" 0] by simp

lemma fits_Node:
  assumes "fits names dtb os sb s pos opened i h (Node n ps cs)"
  shows "holds_bytes (ram s) (sb + of_nat pos) (enc_begin n @ concat (map enc_prop ps) @ concat (map enc_node cs) @ to_be_bytes (2 :: u32))"
    and "holds_bytes (ram s) (sb + of_nat (pos + length (enc_begin n)))
      (concat (map enc_prop ps) @ concat (map enc_node cs) @ to_be_bytes (2 :: u32))"
    and "holds_bytes (ram s) (sb + of_nat (props_end pos n ps + length (concat (map enc_node cs)))) (to_be_bytes (2 :: u32) @ [])"
    and "(pos + length (enc_begin n)) mod 4 = 0"
    and "fits_all names dtb os sb s (props_end pos n ps) (opened @ [i]) (Suc i) (h + length (prop_handles names i ps)) cs"
proof -
  note f = assms [unfolded fits_def]
  show mem: "holds_bytes (ram s) (sb + of_nat pos) (enc_begin n @ concat (map enc_prop ps) @ concat (map enc_node cs) @ to_be_bytes (2 :: u32))"
    using f by simp
  then show "holds_bytes (ram s) (sb + of_nat (pos + length (enc_begin n)))
      (concat (map enc_prop ps) @ concat (map enc_node cs) @ to_be_bytes (2 :: u32))"
    and "holds_bytes (ram s) (sb + of_nat (props_end pos n ps + length (concat (map enc_node cs)))) (to_be_bytes (2 :: u32) @ [])"
    unfolding holds_bytes_append by (simp_all add: props_end_def add.assoc)
  have "pos mod 4 = 0" using f by simp
  then show al: "(pos + length (enc_begin n)) mod 4 = 0" unfolding length_enc_begin by presburger
  then have "props_end pos n ps mod 4 = 0"
    using length_enc_mod4(1) [of ps] unfolding props_end_def by (metis add.right_neutral mod_add_eq mod_0)
  moreover have "length (opened @ [i]) + node_height c \<le> 10" if "c \<in> set cs" for c
    using node_height_child [OF that, of n ps] f by simp
  moreover have "holds_bytes (ram s) (sb + of_nat (props_end pos n ps)) (concat (map enc_node cs))"
    using mem unfolding holds_bytes_append by (simp add: props_end_def add.assoc)
  ultimately show "fits_all names dtb os sb s (props_end pos n ps) (opened @ [i]) (Suc i) (h + length (prop_handles names i ps)) cs"
    using f unfolding fits_all_def by (auto simp: props_end_def add.assoc)
qed

lemma node_tokens:
  "at_state l s pos opened k ds hs \<Longrightarrow> fits names dtb os sb s pos opened (length ds) (length hs) c \<Longrightarrow>
   reaches dtb os sb l s (pos + length (enc_node c)) opened (last_props c)
     (ds @ flat names sb (parent_of opened) (length ds) pos c) (hs @ handles names (length ds) c)"
proof (induction c arbitrary: l s pos opened k ds hs)
  case (Node n ps cs)
  let ?i = "length ds" and ?p1 = "pos + length (enc_begin n)" and ?p2 = "props_end pos n ps"
  let ?p3 = "props_end pos n ps + length (concat (map enc_node cs))" and ?k = "last_props (Node n ps cs)"
  let ?dev = "flat_device names sb (parent_of opened) pos n ps"
  let ?D = "\<lparr>dev_parent = parent_of opened, dev_name = n, dev_properties = replicate MAX_PROPS Property_new, prop_count = 0\<rparr>"
  note f = Node.prems(2) [unfolded fits_def] and fn = fits_Node [OF Node.prems(2)]
  have bounds: "unat sb + ?p1 + 4 < 2 ^ 64" "unat sb + ?p2 + 4 < 2 ^ 64" "unat sb + ?p3 + 4 < 2 ^ 64" "?p3 + 4 < 2 ^ 64"
    "length opened < 10" "?i < MAX_DEVICES" "length ps \<le> MAX_PROPS"
    using f by (simp_all add: props_end_def)
  obtain l1 s1 where step1: "parse_step dtb os sb l s = (Inr (Some l1), s1)" "dt_rest s1 = dt_rest s"
    and at1: "at_state l1 s1 ?p1 (opened @ [?i]) (length ([] :: property list))
      (ds @ [?D\<lparr>dev_properties := [] @ replicate (MAX_PROPS - length ([] :: property list)) Property_new\<rparr>]) hs"
    using begin_token [OF Node.prems(1) _ fn(1), of dtb os] f bounds by (auto simp: PlatformDevice_new_def)
  obtain l2 s2 where loop2: "parse_loop dtb os sb l1 s1 = parse_loop dtb os sb l2 s2" "dt_rest s2 = dt_rest s1"
    and at2: "at_state l2 s2 ?p2 (opened @ [?i]) (length ps) (ds @ [?dev 0]) (hs @ prop_handles names ?i ps)"
    using props_tokens [OF at1, of ps names dtb os sb "concat (map enc_node cs) @ to_be_bytes (2 :: u32)"] fn f bounds
    by (auto simp: dt_rest_ram [OF step1(2)] props_end_def flat_device_def)
  have rest: "dt_rest s2 = dt_rest s" using loop2(2) step1(2) by simp
  have "reaches dtb os sb l2 s2 ?p3 (opened @ [?i]) ?k
      ((ds @ [?dev 0]) @ flats names sb (parent_of (opened @ [?i])) (length (ds @ [?dev 0])) ?p2 cs)
      ((hs @ prop_handles names ?i ps) @ handless names (length (ds @ [?dev 0])) cs)"
    using children_tokens [OF Node.IH at2] fn(5) by (simp add: fits_cong [OF rest])
  then obtain l3 s3 where loop3: "parse_loop dtb os sb l2 s2 = parse_loop dtb os sb l3 s3" "dt_rest s3 = dt_rest s2"
    and at3: "at_state l3 s3 ?p3 (opened @ [?i]) ?k (ds @ ?dev 0 # flats names sb (Some ?i) (Suc ?i) ?p2 cs)
      (hs @ handles names ?i (Node n ps cs))"
    by (auto simp: reaches_def parent_of_def)
  obtain l4 s4 where step4: "parse_step dtb os sb l3 s3 = (Inr (Some l4), s4)" "dt_rest s4 = dt_rest s3"
    and at4: "at_state l4 s4 (?p3 + 4) opened ?k (ds @ ?dev ?k # flats names sb (Some ?i) (Suc ?i) ?p2 cs)
      (hs @ handles names ?i (Node n ps cs))"
    using end_token [OF at3 _ _ bounds(4), of sb "[]" dtb os] fn(3) rest loop3(2)
    by (auto simp: dt_rest_ram [of s3 s] flat_device_def list_update_append)
  have pos: "?p3 + 4 = pos + length (enc_node (Node n ps cs))" by (simp add: props_end_def)
  have ds: "ds @ ?dev ?k # flats names sb (Some ?i) (Suc ?i) ?p2 cs = ds @ flat names sb (parent_of opened) ?i pos (Node n ps cs)"
    by simp
  have "reaches dtb os sb l4 s4 (?p3 + 4) opened ?k (ds @ ?dev ?k # flats names sb (Some ?i) (Suc ?i) ?p2 cs)
      (hs @ handles names ?i (Node n ps cs))"
    unfolding reaches_def using at4 by blast
  then have "reaches dtb os sb l4 s4 (pos + length (enc_node (Node n ps cs))) opened ?k
      (ds @ flat names sb (parent_of opened) ?i pos (Node n ps cs)) (hs @ handles names ?i (Node n ps cs))"
    by (simp only: pos ds)
  then show ?case
    by (rule reaches_step [OF step1 reaches_trans [OF loop2 reaches_trans [OF loop3 reaches_step [OF step4]]]])
qed

section \<open>Whole blobs\<close>

text \<open>
  \<open>blob_ok\<close>: memory holds a blob at \<open>dtb\<close> whose header points to the encoding of the tree and to the strings of its
  property names, and the tree fits the parser's arrays: depth 10, 256 nodes, 16 properties per node, 32 phandles.
\<close>

definition blob_ok :: "(u32 \<Rightarrow> string) \<Rightarrow> (u64 \<Rightarrow> u8 option) \<Rightarrow> usize \<Rightarrow> u32 \<Rightarrow> u32 \<Rightarrow> dt_node \<Rightarrow> bool" where
  "blob_ok names mem dtb off_struct off_strings root \<longleftrightarrow>
     (\<exists>v1 v4 v5 v6 v7 v8 v9.
        holds_bytes mem dtb (cells_bytes [0xd00dfeed, v1, off_struct, off_strings, v4, v5, v6, v7, v8, v9])) \<and>
     holds_bytes mem (dtb + ucast off_struct) (enc_node root @ to_be_bytes (9 :: u32)) \<and>
     node_ok names mem dtb (ucast off_strings) root \<and>
     unat dtb + unat off_struct + length (enc_node root) + 8 < 2 ^ 64 \<and>
     node_height root \<le> 10 \<and> node_count root \<le> MAX_DEVICES \<and> length (handles names 0 root) \<le> MAX_HANDLES"

lemma parse_dtb_flat:
  assumes boot: "boot_tables s" and blob: "blob_ok names (ram s) dtb off_struct off_strings root"
  shows "\<exists>s'. parse_dtb dtb s = init_devices s' \<and> dt_rest s' = dt_rest s \<and> tables_ok s' \<and>
    devices s' = flat names (dtb + ucast off_struct) None 0 0 root \<and>
    take (PHANDLE_COUNT s') (PHANDLE_TABLE s') = handles names 0 root"
proof -
  let ?l = "\<lparr>p_off = 0, prop_id = 0, p_stack = replicate 10 0, stack_depth = 0\<rparr> :: parse_locals"
  let ?sb = "dtb + ucast off_struct" and ?os = "ucast off_strings :: u64"
  note b = blob [unfolded blob_ok_def]
  obtain v1 v4 v5 v6 v7 v8 v9 where
    "holds_bytes (ram s) dtb (cells_bytes [0xd00dfeed, v1, off_struct, off_strings, v4, v5, v6, v7, v8, v9])"
    using b by blast
  note hdr = header_read [OF this]
  have base: "checked_add dtb (ucast off_struct) s = (Inr ?sb, s)" using b by simp
  have sb: "unat ?sb = unat dtb + unat off_struct"
    using unat_add_fits [of dtb "ucast off_struct"] b by simp
  have at: "at_state ?l s 0 [] 0 [] []"
    using boot by (simp add: at_state_def boot_tables_def DEVICE_TABLE_init_def PHANDLE_TABLE_init_def)
  have "fits names dtb ?os ?sb s 0 [] (length ([] :: platform_device list)) (length ([] :: (u32 \<times> nat) list)) root"
    using b sb by (simp add: fits_def holds_bytes_append)
  from node_tokens [OF at this] obtain l1 s1 where
    loop: "parse_loop dtb ?os ?sb ?l s = parse_loop dtb ?os ?sb l1 s1" and rest: "dt_rest s1 = dt_rest s"
    and at1: "at_state l1 s1 (length (enc_node root)) [] (last_props root) (flat names ?sb None 0 0 root) (handles names 0 root)"
    by (auto simp: reaches_def parent_of_def)
  have "holds_bytes (ram s1) (?sb + of_nat (length (enc_node root))) (to_be_bytes (9 :: u32) @ [])"
    using b by (simp add: dt_rest_ram [OF rest] holds_bytes_append)
  then have "parse_step dtb ?os ?sb l1 s1 = (Inr None, s1)"
    using read_token [of s1 ?sb "length (enc_node root)" 9 "[]" l1 dtb ?os] at1 b sb
    by (simp add: fdt_tokens at_state_def)
  then have "parse_loop dtb ?os ?sb ?l s = (Inr (), s1)"
    unfolding loop by (subst parse_loop.simps) simp
  then have "parse_dtb dtb s = init_devices s1"
    using hdr base by (simp add: parse_dtb_def MAGIC_def)
  moreover have "tables_ok s1"
    using parse_loop_tables [OF boot_tables_ok [OF boot], of dtb ?os ?sb] \<open>parse_loop dtb ?os ?sb ?l s = (Inr (), s1)\<close> by simp
  moreover have "devices s1 = flat names ?sb None 0 0 root" "take (PHANDLE_COUNT s1) (PHANDLE_TABLE s1) = handles names 0 root"
    using at1 by (simp_all add: at_state_def devices_def)
  ultimately show ?thesis using rest by blast
qed

section \<open>The values in the table are those of the tree\<close>

primrec tree_props :: "dt_node \<Rightarrow> dt_prop list" where
  "tree_props (Node n ps cs) = ps @ concat (map tree_props cs)"

text \<open>A table entry stands for a property of the tree: its name, and its value in memory.\<close>

definition stands_for :: "(u32 \<Rightarrow> string) \<Rightarrow> (u64 \<Rightarrow> u8 option) \<Rightarrow> property \<Rightarrow> dt_prop \<Rightarrow> bool" where
  "stands_for names mem q p \<longleftrightarrow>
     prop_name q = names (fst p) \<and> prop_len q = of_nat (length (snd p)) \<and> holds_bytes mem (prop_value q) (snd p)"

lemma flat_props_stand:
  "holds_bytes mem (sb + of_nat pos) (concat (map enc_prop ps)) \<Longrightarrow> q \<in> set (flat_props names sb pos ps) \<Longrightarrow>
   \<exists>p \<in> set ps. stands_for names mem q p"
proof (induction ps arbitrary: pos)
  case (Cons p ps)
  have head: "holds_bytes mem (sb + of_nat pos) (enc_prop p)"
    and rest: "holds_bytes mem (sb + of_nat (pos + length (enc_prop p))) (concat (map enc_prop ps))"
    using Cons.prems(1) by (simp_all add: holds_bytes_append add.assoc)
  have "holds_bytes mem (sb + of_nat (pos + 12)) (snd p)"
    using head by (simp add: holds_bytes_append enc_prop_def pad4_def add.assoc)
  then show ?case
    using Cons.prems(2) Cons.IH [OF rest] by (auto simp: stands_for_def flat_props.simps)
qed simp

lemma flat_stands:
  "holds_bytes mem (sb + of_nat pos) (enc_node c) \<Longrightarrow> d \<in> set (flat names sb parent i pos c) \<Longrightarrow>
     q \<in> set (dev_properties d) \<Longrightarrow> q \<noteq> Property_new \<Longrightarrow> \<exists>p \<in> set (tree_props c). stands_for names mem q p"
  and flats_stand:
  "holds_bytes mem (sb + of_nat pos) (concat (map enc_node cs)) \<Longrightarrow> d \<in> set (flats names sb parent i pos cs) \<Longrightarrow>
     q \<in> set (dev_properties d) \<Longrightarrow> q \<noteq> Property_new \<Longrightarrow>
     \<exists>p \<in> set (concat (map tree_props cs)). stands_for names mem q p"
proof (induction names sb parent i pos c and names sb parent i pos cs rule: flat_flats.induct)
  case (1 names sb parent i pos n ps cs)
  have mem: "holds_bytes mem (sb + of_nat (pos + length (enc_begin n))) (concat (map enc_prop ps))"
    "holds_bytes mem (sb + of_nat (props_end pos n ps)) (concat (map enc_node cs))"
    using "1.prems"(1) by (simp_all add: holds_bytes_append props_end_def add.assoc)
  consider "d = flat_device names sb parent pos n ps (last_props (Node n ps cs))"
    | "d \<in> set (flats names sb (Some i) (Suc i) (props_end pos n ps) cs)" using "1.prems"(2) by auto
  then show ?case
  proof cases
    case 1
    then have "q \<in> set (flat_props names sb (pos + length (enc_begin n)) ps)"
      using "1.prems"(3,4) by (auto simp: flat_device_def split: if_splits)
    from flat_props_stand [OF mem(1) this] show ?thesis by auto
  next
    case 2
    from "1.IH" [OF mem(2) this "1.prems"(3,4)] show ?thesis by auto
  qed
next
  case (3 names sb parent i pos c cs)
  have mem: "holds_bytes mem (sb + of_nat pos) (enc_node c)"
    "holds_bytes mem (sb + of_nat (pos + length (enc_node c))) (concat (map enc_node cs))"
    using "3.prems"(1) by (simp_all add: holds_bytes_append add.assoc)
  show ?case
    using "3.prems"(2) "3.IH"(1) [OF mem(1) _ "3.prems"(3,4)] "3.IH"(2) [OF mem(2) _ "3.prems"(3,4)] by auto
qed simp

lemma tree_props_ok: "node_ok names mem dtb os c \<Longrightarrow> p \<in> set (tree_props c) \<Longrightarrow> prop_ok names mem dtb os p"
  by (induction c) auto

lemma blob_stands:
  assumes "blob_ok names mem dtb off_struct off_strings root"
    and "d \<in> set (flat names (dtb + ucast off_struct) None 0 0 root)" and "q \<in> set (dev_props d)" and "prop_name q \<noteq> []"
  shows "\<exists>p \<in> set (tree_props root). stands_for names mem q p \<and> length (snd p) < 2 ^ 32"
proof -
  have "holds_bytes mem (dtb + ucast off_struct + of_nat 0) (enc_node root)"
    using assms(1) by (simp add: blob_ok_def holds_bytes_append)
  moreover have "q \<in> set (dev_properties d)" using assms(3) by (auto simp: dev_props_def dest: in_set_takeD)
  moreover have "q \<noteq> Property_new" using assms(4) by (auto simp: Property_new_def)
  ultimately obtain p where p: "p \<in> set (tree_props root)" "stands_for names mem q p"
    using flat_stands assms(2) by blast
  then have "prop_ok names mem dtb (ucast off_strings) p"
    using assms(1) by (auto simp: blob_ok_def intro: tree_props_ok)
  with p show ?thesis by (auto simp: prop_ok_def)
qed

text \<open>The strings that a property's bytes in memory consist of.\<close>

definition stored_strings :: "(u64 \<Rightarrow> u8 option) \<Rightarrow> property \<Rightarrow> string list" where
  "stored_strings mem p =
     map bytes_str (split_nul (map (\<lambda>i. the (mem (prop_value p + of_nat i))) [0..<unat (prop_len p)]))"

lemma stands_for_compat_ok:
  assumes "stands_for names mem q p" and "length (snd p) < 2 ^ 32"
  shows "compat_ok (stored_strings mem) mem q"
proof -
  have len: "unat (prop_len q) = length (snd p)"
    using assms by (simp add: stands_for_def unat_of_nat)
  have "map (\<lambda>i. the (mem (prop_value q + of_nat i))) [0..<length (snd p)] = snd p"
    using assms(1) by (intro nth_equalityI) (simp_all add: stands_for_def holds_bytes_nth)
  with assms len show ?thesis
    by (auto simp: compat_ok_def stored_strings_def stands_for_def)
qed

text \<open>A state whose tables are those of a tree, with memory \<open>mem\<close>.\<close>

definition tree_state :: "(u32 \<Rightarrow> string) \<Rightarrow> (u64 \<Rightarrow> u8 option) \<Rightarrow> u64 \<Rightarrow> dt_node \<Rightarrow> ('h, 'm) dt_machine_scheme \<Rightarrow> bool" where
  "tree_state names mem sb root s \<longleftrightarrow>
     tables_ok s \<and> ram s = mem \<and> devices s = flat names sb None 0 0 root \<and>
     take (PHANDLE_COUNT s) (PHANDLE_TABLE s) = handles names 0 root"

lemma parse_runs_drivers:
  fixes s :: "('h, 'm) kernel_scheme"
  assumes "boot_tables s" and "blob_ok names (ram s) dtb off_struct off_strings root"
  shows "\<exists>s'. dt_rest s' = dt_rest s \<and> tree_state names (ram s) (dtb + ucast off_struct) root s' \<and>
    (let strs = compat_strings (stored_strings (ram s)) in
     parse_dtb dtb s =
       for_M (filter (\<lambda>d. ''arm,gic-v3'' \<in> set (strs d)) (devices s') @ filter (\<lambda>d. ''arm,gic-v3'' \<notin> set (strs d)) (devices s'))
         (\<lambda>d. if ''arm,gic-v3'' \<in> set (strs d) then gic_setup d
              else if ''arm,pl011'' \<in> set (strs d) then uart_setup d
              else if ''arm,armv7-timer'' \<in> set (strs d) then timer_setup d
              else return_M ()) s')"
proof -
  obtain s' where s': "parse_dtb dtb s = init_devices s'" "dt_rest s' = dt_rest s" "tables_ok s'"
    "devices s' = flat names (dtb + ucast off_struct) None 0 0 root"
    "take (PHANDLE_COUNT s') (PHANDLE_TABLE s') = handles names 0 root"
    using parse_dtb_flat [OF assms] by blast
  have ram: "ram s' = ram s" by (rule dt_rest_ram [OF s'(2)])
  have "compat_ok (stored_strings (ram s)) (ram s') q" if "d \<in> set (devices s')" "compat_prop_of d = Some q" for d q
  proof -
    have "q \<in> set (dev_props d)" "prop_name q = ''compatible''"
      using that(2) by (auto simp: compat_prop_of_def find_Some_iff)
    with blob_stands [OF assms(2), of d q] that(1) s'(4) show ?thesis
      unfolding ram by (auto intro: stands_for_compat_ok)
  qed
  moreover have "DEVICE_COUNT s' \<le> length (DEVICE_TABLE s')" "\<forall>d \<in> set (devices s'). prop_count d \<le> length (dev_properties d)"
    using s'(3) by (auto simp: tables_ok_def dev_ok_def devices_def in_set_conv_nth)
  ultimately have "compat_wf (stored_strings (ram s)) s'" by (simp add: compat_wf_def)
  from init_devices_order [OF this] s' ram show ?thesis by (auto simp: Let_def tree_state_def)
qed

section \<open>Properties\<close>

text \<open>
  C4. The parser implements the flattening of the tree. For every blob that encodes a tree within the parser's limits,
  the parse succeeds, and when the devices are initialised the device table holds exactly the nodes in
  preorder, each with its name, the index of its parent, its properties with their names, addresses and lengths,
  and a property count; the phandle table lists the phandles in order, and nothing else in the machine has changed.
\<close>

theorem parse_dtb_refines_tree:
  assumes "boot_tables s" and "blob_ok names (ram s) dtb off_struct off_strings root"
  shows "\<exists>s'. parse_dtb dtb s = init_devices s' \<and> dt_rest s' = dt_rest s \<and> tables_ok s' \<and>
    devices s' = flat names (dtb + ucast off_struct) None 0 0 root \<and>
    take (PHANDLE_COUNT s') (PHANDLE_TABLE s') = handles names 0 root"
  using assms by (rule parse_dtb_flat)

text \<open>
  C15. The values in the table are those of the tree. When the devices are initialised, the table is that of the tree, and every named property that a device in
  the table counts stands for a property of the tree: same name, same length, and the bytes at its address are the bytes of the value.
  In particular no device ever sees a value that is not in the tree, whatever its property count.
\<close>

theorem parsed_values_from_tree:
  assumes "boot_tables s" and "blob_ok names (ram s) dtb off_struct off_strings root"
  shows "\<exists>s'. parse_dtb dtb s = init_devices s' \<and> ram s' = ram s \<and>
    devices s' = flat names (dtb + ucast off_struct) None 0 0 root \<and>
    (\<forall>d \<in> set (devices s'). \<forall>q \<in> set (dev_props d). prop_name q \<noteq> [] \<longrightarrow>
       (\<exists>p \<in> set (tree_props root). prop_name q = names (fst p) \<and> unat (prop_len q) = length (snd p) \<and>
          holds_bytes (ram s') (prop_value q) (snd p)))"
proof -
  obtain s' where s': "parse_dtb dtb s = init_devices s'" "dt_rest s' = dt_rest s"
    "devices s' = flat names (dtb + ucast off_struct) None 0 0 root"
    using parse_dtb_flat [OF assms] by blast
  have "\<exists>p \<in> set (tree_props root). prop_name q = names (fst p) \<and> unat (prop_len q) = length (snd p) \<and>
      holds_bytes (ram s') (prop_value q) (snd p)"
    if "d \<in> set (devices s')" "q \<in> set (dev_props d)" "prop_name q \<noteq> []" for d q
    using blob_stands [OF assms(2), of d q] that s'(3) dt_rest_ram [OF s'(2)]
    by (auto simp: stands_for_def unat_of_nat)
  with s'(1,3) dt_rest_ram [OF s'(2)] show ?thesis by blast
qed

text \<open>
  C14. From the tree to the drivers. Parsing a blob that encodes a tree is exactly this: build the table of the tree, then call
  the setup functions of all nodes whose \<open>compatible\<close> strings, as they are in memory, name the interrupt controller, in
  preorder, and then those of all other nodes, in preorder, each with its first match in the driver table; nothing else is
  done, and if all setups return, so does \<open>parse_dtb\<close>.
\<close>

theorem boot_runs_drivers:
  fixes s :: "('h, 'm) kernel_scheme"
  assumes "boot_tables s" and "blob_ok names (ram s) dtb off_struct off_strings root"
  shows "\<exists>s'. dt_rest s' = dt_rest s \<and> devices s' = flat names (dtb + ucast off_struct) None 0 0 root \<and>
    (let strs = compat_strings (stored_strings (ram s)) in
     parse_dtb dtb s =
       for_M (filter (\<lambda>d. ''arm,gic-v3'' \<in> set (strs d)) (devices s') @ filter (\<lambda>d. ''arm,gic-v3'' \<notin> set (strs d)) (devices s'))
         (\<lambda>d. if ''arm,gic-v3'' \<in> set (strs d) then gic_setup d
              else if ''arm,pl011'' \<in> set (strs d) then uart_setup d
              else if ''arm,armv7-timer'' \<in> set (strs d) then timer_setup d
              else return_M ()) s')"
proof -
  obtain s' where "dt_rest s' = dt_rest s" "tree_state names (ram s) (dtb + ucast off_struct) root s'"
    "let strs = compat_strings (stored_strings (ram s)) in
     parse_dtb dtb s =
       for_M (filter (\<lambda>d. ''arm,gic-v3'' \<in> set (strs d)) (devices s') @ filter (\<lambda>d. ''arm,gic-v3'' \<notin> set (strs d)) (devices s'))
         (\<lambda>d. if ''arm,gic-v3'' \<in> set (strs d) then gic_setup d
              else if ''arm,pl011'' \<in> set (strs d) then uart_setup d
              else if ''arm,armv7-timer'' \<in> set (strs d) then timer_setup d
              else return_M ()) s'"
    using parse_runs_drivers [OF assms] by blast
  then show ?thesis unfolding tree_state_def by blast
qed

text \<open>
  C33. The property count of a node with children is not its own. \<open>END_NODE\<close> stores the count of the node begun last:
  when the last node below the root has no properties, the root is recorded with zero properties, so that no
  property of the root is ever found and its children see the default \<open>(2, 1)\<close> for the cells, whatever
  \<open>#address-cells\<close> and \<open>#size-cells\<close> the tree gives. A node without children has its own count.
\<close>

theorem root_properties_lost:
  assumes "boot_tables s" and "blob_ok names (ram s) dtb off_struct off_strings (Node n ps cs)"
    and "last_props (Node n ps cs) = 0"
  shows "\<exists>s'. parse_dtb dtb s = init_devices s' \<and>
    (\<forall>name. find_property (DEVICE_TABLE s' ! 0) name s' = (Inr None, s')) \<and>
    (\<forall>d. dev_parent d = Some 0 \<longrightarrow> get_parent_cells d s' = (Inr (2, 1), s')) \<and>
    (\<forall>n' ps'. last_props (Node n' ps' []) = length ps')"
proof -
  obtain s' where s': "parse_dtb dtb s = init_devices s'" "tables_ok s'"
    "devices s' = flat names (dtb + ucast off_struct) None 0 0 (Node n ps cs)"
    using parse_dtb_flat [OF assms(1,2)] by blast
  have len: "0 < length (devices s')" unfolding s'(3) by simp
  then have "DEVICE_TABLE s' ! 0 = devices s' ! 0" by (simp add: devices_def)
  also have "\<dots> = flat_device names (dtb + ucast off_struct) None 0 n ps 0"
    unfolding s'(3) using assms(3) by (simp del: last_props.simps)
  finally have "prop_count (DEVICE_TABLE s' ! 0) = 0" by (simp add: flat_device_def)
  moreover have "deref_device 0 s' = (Inr (DEVICE_TABLE s' ! 0), s')"
    using len by (simp add: deref_device_def devices_def)
  ultimately show ?thesis using s'(1)
    by (intro exI [of _ s']) (simp add: find_property_def get_parent_cells_def)
qed

text \<open>A root and a child, one with a cell property and the other without, as a blob at \<open>0x4000\<close>.\<close>

definition tree_example :: dt_node where
  "tree_example = Node [] [(0, to_be_bytes (1 :: u32))] [Node ''cpus'' [] []]"

definition tree_example_leaf :: dt_node where
  "tree_example_leaf = Node [] [] [Node ''cpus'' [(0, to_be_bytes (1 :: u32))] []]"

definition tree_example_names :: "u32 \<Rightarrow> string" where
  "tree_example_names off = ''#address-cells''"

definition tree_blob :: "dt_node \<Rightarrow> u8 list" where
  "tree_blob t =
     cells_bytes [0xd00dfeed, 103, 40, 88, 0, 17, 16, 0, 15, 48] @
     (enc_node t @ to_be_bytes (9 :: u32)) @ (str_bytes ''#address-cells'' @ [0])"

definition tree_boot :: "dt_node \<Rightarrow> store_hw kernel" where
  "tree_boot t = uart_example
     \<lparr>ram := mem_at 0x4000 (tree_blob t), DEVICE_TABLE := DEVICE_TABLE_init, PHANDLE_TABLE := PHANDLE_TABLE_init\<rparr>"

lemma tree_boot_tables: "boot_tables (tree_boot t)"
  by (simp add: boot_tables_def tree_boot_def uart_example_def)

lemma tree_boot_blob_ok:
  assumes t: "t = tree_example \<or> t = tree_example_leaf"
  shows "blob_ok tree_example_names (ram (tree_boot t)) 0x4000 40 88 t"
proof -
  have len: "length (enc_node t) = 44"
    using t by (auto simp: tree_example_def tree_example_leaf_def length_enc_begin length_enc_prop)
  then have "length (tree_blob t) = 103" by (simp add: tree_blob_def)
  then have "holds_bytes (ram (tree_boot t)) 0x4000 (tree_blob t)"
    using holds_bytes_mem_at [of "tree_blob t" "0x4000"] by (simp add: tree_boot_def)
  then have mem: "holds_bytes (ram (tree_boot t)) 0x4000 (cells_bytes [0xd00dfeed, 103, 40, 88, 0, 17, 16, 0, 15, 48])"
    "holds_bytes (ram (tree_boot t)) 0x4028 (enc_node t @ to_be_bytes (9 :: u32))"
    "holds_bytes (ram (tree_boot t)) 0x4058 (str_bytes ''#address-cells'' @ [0])"
    unfolding tree_blob_def holds_bytes_append by (simp_all add: len)
  show ?thesis
    unfolding blob_ok_def
  proof (intro conjI)
    show "\<exists>v1 v4 v5 v6 v7 v8 v9. holds_bytes (ram (tree_boot t)) 0x4000
        (cells_bytes [0xd00dfeed, v1, 40, 88, v4, v5, v6, v7, v8, v9])"
      using mem(1) by blast
    show "node_ok tree_example_names (ram (tree_boot t)) 0x4000 (ucast (88 :: u32)) t"
      using mem(3) t by (auto simp: tree_example_def tree_example_leaf_def prop_ok_def tree_example_names_def MAX_PROPS_def)
  qed (use mem(2) in \<open>simp_all add: len\<close>, use t in \<open>auto simp: tree_example_def tree_example_leaf_def prop_handles_def
      tree_example_names_def MAX_DEVICES_def\<close>)
qed

lemmas tree_example_blob_ok = tree_boot_blob_ok [OF disjI1, OF refl]

theorem parse_dtb_refines_tree_witness:
  "\<exists>s'. parse_dtb 0x4000 (tree_boot tree_example) = init_devices s' \<and> map dev_name (devices s') = [[], ''cpus''] \<and>
     map dev_parent (devices s') = [None, Some 0] \<and> map prop_count (devices s') = [0, 0]"
proof -
  have "map dev_name (flat tree_example_names sb None 0 0 tree_example) = [[], ''cpus''] \<and>
      map dev_parent (flat tree_example_names sb None 0 0 tree_example) = [None, Some 0] \<and>
      map prop_count (flat tree_example_names sb None 0 0 tree_example) = [0, 0]" for sb
    by (simp add: tree_example_def flat_device_def)
  then show ?thesis
    using parse_dtb_refines_tree [OF tree_boot_tables tree_example_blob_ok] by metis
qed

theorem root_properties_lost_witness:
  "\<exists>s'. parse_dtb 0x4000 (tree_boot tree_example) = init_devices s' \<and>
     find_property (DEVICE_TABLE s' ! 0) ''#address-cells'' s' = (Inr None, s')"
  using root_properties_lost [OF tree_boot_tables tree_example_blob_ok [unfolded tree_example_def]] unfolding tree_example_def by auto

theorem parsed_values_from_tree_witness:
  "\<exists>s' d q. parse_dtb 0x4000 (tree_boot tree_example_leaf) = init_devices s' \<and> d \<in> set (devices s') \<and> q \<in> set (dev_props d) \<and>
     prop_name q = ''#address-cells'' \<and> unat (prop_len q) = 4 \<and> holds_bytes (ram s') (prop_value q) (to_be_bytes (1 :: u32))"
proof -
  let ?sb = "0x4000 + ucast (40 :: u32) :: u64"
  let ?leaf = "flat_device tree_example_names ?sb (Some 0) 8 ''cpus'' [(0, to_be_bytes (1 :: u32))] 1"
  obtain s' where s': "parse_dtb 0x4000 (tree_boot tree_example_leaf) = init_devices s'"
    "devices s' = flat tree_example_names ?sb None 0 0 tree_example_leaf"
    "\<forall>d \<in> set (devices s'). \<forall>q \<in> set (dev_props d). prop_name q \<noteq> [] \<longrightarrow>
       (\<exists>p \<in> set (tree_props tree_example_leaf). prop_name q = tree_example_names (fst p) \<and> unat (prop_len q) = length (snd p) \<and>
          holds_bytes (ram s') (prop_value q) (snd p))"
    using parsed_values_from_tree [OF tree_boot_tables tree_boot_blob_ok [OF disjI2, OF refl]] by blast
  have "?leaf \<in> set (devices s')"
    unfolding s'(2) by (simp add: tree_example_leaf_def length_enc_begin props_end_def)
  moreover have "\<exists>q. dev_props ?leaf = [q] \<and> prop_name q = ''#address-cells''"
    by (simp add: dev_props_def flat_device_def flat_props.simps tree_example_names_def)
  then obtain q where "dev_props ?leaf = [q]" "prop_name q = ''#address-cells''" by blast
  moreover have "tree_props tree_example_leaf = [(0, to_be_bytes (1 :: u32))]" by (simp add: tree_example_leaf_def)
  ultimately show ?thesis using s'(1,3) by fastforce
qed

theorem boot_runs_drivers_witness:
  "\<exists>s'. parse_dtb 0x4000 (tree_boot tree_example) = (Inr (), s') \<and> map dev_name (devices s') = [[], ''cpus''] \<and>
     hw s' = hw (tree_boot tree_example)"
proof -
  let ?strs = "compat_strings (stored_strings (ram (tree_boot tree_example)))"
  obtain s' where s': "dt_rest s' = dt_rest (tree_boot tree_example)"
    "devices s' = flat tree_example_names (0x4000 + ucast (40 :: u32)) None 0 0 tree_example"
    "parse_dtb 0x4000 (tree_boot tree_example) =
       for_M (filter (\<lambda>d. ''arm,gic-v3'' \<in> set (?strs d)) (devices s') @ filter (\<lambda>d. ''arm,gic-v3'' \<notin> set (?strs d)) (devices s'))
         (\<lambda>d. if ''arm,gic-v3'' \<in> set (?strs d) then gic_setup d
              else if ''arm,pl011'' \<in> set (?strs d) then uart_setup d
              else if ''arm,armv7-timer'' \<in> set (?strs d) then timer_setup d
              else return_M ()) s'"
    using boot_runs_drivers [OF tree_boot_tables tree_example_blob_ok] unfolding Let_def by blast
  have "?strs (flat_device nm sb par pos n ps 0) = []" for nm sb par pos n ps
    by (simp add: compat_strings_def compat_prop_of_def dev_props_def flat_device_def)
  then have "parse_dtb 0x4000 (tree_boot tree_example) = (Inr (), s')"
    unfolding s'(3) by (simp add: s'(2) tree_example_def)
  moreover have "map dev_name (devices s') = [[], ''cpus'']"
    by (simp add: s'(2) tree_example_def flat_device_def)
  ultimately show ?thesis using s'(1) by (auto simp: dt_rest_def)
qed

end
