(* ===== verification/Irq.thy ===== *)
theory Irq
  imports Dtb_Tree
begin

text \<open>
  \<^verbatim>\<open>src/kernel/irq.rs\<close>: the saved registers, the diagnostics, and the handlers that the exception vectors
  call. A handler of type \<open>!\<close> ends in a panic, so its result type is arbitrary.
\<close>

section \<open>Saved registers\<close>

record regs =
  r_spsr :: u64
  r_elr :: u64
  r_esr :: u64
  r_xzr :: u64
  r_x0 :: u64
  r_x1 :: u64
  r_x2 :: u64
  r_x3 :: u64
  r_x4 :: u64
  r_x5 :: u64
  r_x6 :: u64
  r_x7 :: u64
  r_x8 :: u64
  r_x9 :: u64
  r_x10 :: u64
  r_x11 :: u64
  r_x12 :: u64
  r_x13 :: u64
  r_x14 :: u64
  r_x15 :: u64
  r_x16 :: u64
  r_x17 :: u64
  r_x18 :: u64
  r_x19 :: u64
  r_x20 :: u64
  r_x21 :: u64
  r_x22 :: u64
  r_x23 :: u64
  r_x24 :: u64
  r_x25 :: u64
  r_x26 :: u64
  r_x27 :: u64
  r_x28 :: u64
  r_x29 :: u64
  r_x30 :: u64

definition Regs_NAMES :: "string list" where
  "Regs_NAMES =
     [''x0 '', ''x1 '', ''x2 '', ''x3 '', ''x4 '', ''x5 '', ''x6 '', ''x7 '', ''x8 '', ''x9 '', ''x10'',
      ''x11'', ''x12'', ''x13'', ''x14'', ''x15'', ''x16'', ''x17'', ''x18'', ''x19'', ''x20'', ''x21'',
      ''x22'', ''x23'', ''x24'', ''x25'', ''x26'', ''x27'', ''x28'', ''x29'', ''x30'', ''esr'', ''elr'',
      ''spsr'']"

definition Regs_as_array :: "regs \<Rightarrow> u64 list" where
  "Regs_as_array r =
     [r_x0 r, r_x1 r, r_x2 r, r_x3 r, r_x4 r, r_x5 r, r_x6 r, r_x7 r, r_x8 r, r_x9 r, r_x10 r, r_x11 r,
      r_x12 r, r_x13 r, r_x14 r, r_x15 r, r_x16 r, r_x17 r, r_x18 r, r_x19 r, r_x20 r, r_x21 r, r_x22 r,
      r_x23 r, r_x24 r, r_x25 r, r_x26 r, r_x27 r, r_x28 r, r_x29 r, r_x30 r, r_esr r, r_elr r, r_spsr r]"

definition Regs_iter :: "regs \<Rightarrow> (string \<times> u64) list" where
  "Regs_iter r = map (\<lambda>(v, name). (name, v)) (zip (Regs_as_array r) Regs_NAMES)"

definition Regs_print :: "regs \<Rightarrow> (('h, 'm) kernel_scheme, unit) M" where
  "Regs_print r =
     seq_M (println ''\<newline>Registers:'')
           (for_M (Regs_iter r) (\<lambda>(name, value). println (name @ '': 0x'' @ fmt_016x value)))"

section \<open>Diagnostics and handlers\<close>

definition print_faulting_byte :: "u32 \<Rightarrow> nat \<Rightarrow> (('h, 'm) kernel_scheme, unit) M" where
  "print_faulting_byte opcode i =
     (let byte = ucast (drop_bit (i * 8) opcode) :: u8 in
      block_M [if i = 0 then print (''['' @ fmt_02X byte @ '']'') else print (fmt_02X byte),
               if i < 3 then print '' '' else return_M ()])"

definition print_faulting_instr :: "u64 \<Rightarrow> (('h, 'm) kernel_scheme, unit) M" where
  "print_faulting_instr elr =
     bind_M (load_bytes 4 (elr AND NOT 3)) (\<lambda>bs.
     block_M [print (''Faulting instruction at 0x'' @ fmt_016x elr @ '': ''),
              for_M [0..<4] (print_faulting_byte (le_word bs)),
              println []])"

definition print_regs :: "regs \<Rightarrow> (('h, 'm) kernel_scheme, unit) M" where
  "print_regs r = Regs_print r"

definition do_bad_sync :: "regs \<Rightarrow> (('h, 'm) kernel_scheme, 'a) M" where
  "do_bad_sync r =
     seq_M (block_M [println ''Bad mode in Synchronous Exception handler'', print_faulting_instr (r_elr r), print_regs r])
       (fail_M Panic)"

definition do_bad_irq :: "regs \<Rightarrow> (('h, 'm) kernel_scheme, 'a) M" where
  "do_bad_irq r =
     seq_M (block_M [println ''Bad mode in IRQ handler'', print_faulting_instr (r_elr r), print_regs r]) (fail_M Panic)"

definition do_bad_fiq :: "regs \<Rightarrow> (('h, 'm) kernel_scheme, 'a) M" where
  "do_bad_fiq r =
     seq_M (block_M [println ''Bad mode in FIQ handler'', print_faulting_instr (r_elr r), print_regs r]) (fail_M Panic)"

definition do_bad_serror :: "regs \<Rightarrow> (('h, 'm) kernel_scheme, 'a) M" where
  "do_bad_serror r =
     seq_M (block_M [println ''Bad mode in SError handler'', print_faulting_instr (r_elr r), print_regs r]) (fail_M Panic)"

definition do_sync :: "u32 \<Rightarrow> (('h, 'm) kernel_scheme, u64) M" where
  "do_sync nr = seq_M (println (''Requested syscall: '' @ fmt_dec nr)) (return_M 0)"

definition do_irq :: "u32 \<Rightarrow> (('h, 'm) kernel_scheme, u32) M" where
  "do_irq intid =
     seq_M
       (if intid = 30
        then seq_M (println ''Timer interrupt!'') (bind_M get_frequency (\<lambda>f. rearm (ucast f)))
        else if intid = 33
        then bind_M get_base_addr (\<lambda>base.
             seq_M (lock_irqsafe RX_BUFFER RX_put (\<lambda>rx.
                      bind_M (read_mmio32 base 0) (\<lambda>ch.
                      bind_M (push rx (ucast ch)) (\<lambda>(_, rx').
                      return_M ((), rx')))))
                   (write_mmio32 base ICR_OFF ICR_RXIC))
        else println (''Unhandled IRQ: '' @ fmt_dec intid))
       (return_M intid)"

definition exception_kind :: "u32 \<Rightarrow> string" where
  "exception_kind ec =
     (if ec = 1 then ''Trapped WF''
      else if ec = 3 then ''Trapped MCR (coproc==0b1111). EC value 0b000000''
      else if ec = 4 then ''Trapped MCRR or MRRC (coproc=0b1111). EC value 0b000000''
      else if ec = 5 then ''Trapped MCR (coproc==0b1110)''
      else if ec = 6 then ''Trapped LDC''
      else if ec = 7 then ''SIMD not implemented. EC value 0b000000''
      else if ec = 10 then ''Trapped execution of any instruction not covered by other EC values''
      else if ec = 12 then ''Trapped MRRC (coproc=0b1110)''
      else if ec = 13 then ''Branch Target Exception''
      else if ec = 14 then ''Illegal Execution State''
      else if ec = 17 then ''SVC in AArch32 state''
      else if ec = 20 then ''Trapped MSRR, MRRS or System instruction execution in AArch64 state. EC value 0b000000''
      else if ec = 21 then ''SVC in AArch64 state''
      else if ec = 24 then ''Trapped MSRR, MRRS or System instruction execution in AArch64 state. EC values 0b000000, 0b000001, 0b000111''
      else if ec = 25 then ''Access to SVE functionality. EC value 0b000000''
      else if ec = 27 then ''TSTART instruction at EL0''
      else if ec = 28 then ''PAC fail''
      else if ec = 29 then ''Access to SME functionality. EC value 0b000000''
      else if ec = 32 then ''Instruction abort from lower EL''
      else if ec = 33 then ''Instruction abort taken without a change in EL''
      else if ec = 34 then ''PC alignement fault''
      else if ec = 36 then ''Data abort from lower EL''
      else if ec = 37 then ''Data abort taken without a change in EL''
      else if ec = 38 then ''SP alignement fault''
      else if ec = 39 then ''Memory operation exception''
      else if ec = 40 then ''FPE from AArch32 state''
      else if ec = 44 then ''FPE from AArch64 state''
      else if ec = 45 then ''GCS exception''
      else if ec = 47 then ''SError exception''
      else if ec = 48 then ''Breakpoint exception from a lower EL''
      else if ec = 49 then ''Breakpoint exception taken without a change in EL''
      else if ec = 50 then ''Software step exception from a lower EL''
      else if ec = 51 then ''Software step exception exception taken without a change in EL''
      else if ec = 52 then ''Watchpoint exception from a lower EL''
      else if ec = 53 then ''Watchpoint exception exception taken without a change in EL''
      else if ec = 56 then ''BKPT instruction in AArch32 state''
      else if ec = 60 then ''BRK instruction in AArch64 state''
      else if ec = 61 then ''Profiling exception''
      else ''Unknown reason'')"

definition unimplemented_sync :: "u32 \<Rightarrow> (('h, 'm) kernel_scheme, unit) M" where
  "unimplemented_sync exception_class =
     println (''Unimplemented synchronous exception: '' @ exception_kind exception_class)"

definition do_fiq :: "regs \<Rightarrow> (('h, 'm) kernel_scheme, 'a) M" where
  "do_fiq r =
     seq_M (block_M [println ''FIQ handler'', print_faulting_instr (r_elr r), print_regs r]) (fail_M Panic)"

definition do_serror :: "regs \<Rightarrow> (('h, 'm) kernel_scheme, 'a) M" where
  "do_serror r =
     seq_M (block_M [println ''SError handler'', print_faulting_instr (r_elr r), print_regs r]) (fail_M Panic)"

section \<open>Reception\<close>

text \<open>The byte that the data register delivers to the handler, which has masked interrupts and taken the lock.\<close>

definition received_byte :: "('h, 'm) kernel_scheme \<Rightarrow> u8" where
  "received_byte s = ucast (peek32 (rx_locked s) (base_addr (UART s)))"

definition rx_irq_program :: "('h, 'm) kernel_scheme \<Rightarrow> regop list" where
  "rx_irq_program s =
     [Mrs DAIF, Msr DAIFSet 2, Read32 (base_addr (UART s)), Msr DAIF (peek_sys s DAIF),
      Write32 (base_addr (UART s) + 0x44) 16]"

lemma do_irq_rx:
  assumes "rx_ok s" and "0 < spin s"
  shows "\<exists>q. do_irq 33 s = (Inr 33, with_rx q (effect (rx_irq_program s) s)) \<and> ring_inv q \<and>
    ring_list q = (if length (rx_bytes s) < 255 then rx_bytes s @ [received_byte s] else rx_bytes s)"
proof -
  let ?q = "mutex_data (RX_BUFFER s)" and ?base = "base_addr (UART s)" and ?b = "received_byte s"
  let ?f = "\<lambda>rx. bind_M (read_mmio32 ?base 0) (\<lambda>ch. bind_M (push rx (ucast ch)) (\<lambda>(_, rx'). return_M ((), rx')))"
  have inv: "ring_inv ?q" using assms(1) by (simp add: rx_ok_def)
  obtain ok q where push: "push ?q ?b (effect [Read32 ?base] (rx_locked s)) = (Inr (ok, q), effect [Read32 ?base] (rx_locked s))"
    and q: "ring_inv q" "spec_step 255 (Push ?b) (ring_list ?q) = (Pushed ok, ring_list q)"
    using rx_queue.push_refines [OF inv, of ?b "effect [Read32 ?base] (rx_locked s)"] by blast
  have "?f ?q (rx_locked s) = (Inr ((), q), effect [Read32 ?base] (rx_locked s))"
    using push by (simp add: read_mmio32_effect received_byte_def)
  from lock_rx [OF assms, of ?f "()" q "[Read32 ?base]", OF this]
  have "do_irq 33 s = (Inr 33, with_rx q (effect (rx_irq_program s) s))"
    by (simp add: do_irq_def get_base_addr_def write_mmio32_effect uart_consts rx_irq_program_def)
  moreover have "ring_list q = (if length (ring_list ?q) < 255 then ring_list ?q @ [?b] else ring_list ?q)"
    using q(2) by (auto split: if_splits simp del: length_ring_list)
  ultimately show ?thesis using q(1) by (auto simp: rx_bytes_def simp del: length_ring_list)
qed

text \<open>What happens to the receive buffer over time: interrupts of the UART, and reads by the main loop.\<close>

datatype rx_event = Rx_Interrupt | Read_Char

fun run_rx_events :: "rx_event list \<Rightarrow> (('h, 'm) kernel_scheme, u8 option list) M" where
  "run_rx_events [] = return_M []"
| "run_rx_events (Rx_Interrupt # evs) = bind_M (do_irq 33) (\<lambda>_. run_rx_events evs)"
| "run_rx_events (Read_Char # evs) = bind_M getchar (\<lambda>c. bind_M (run_rx_events evs) (\<lambda>cs. return_M (c # cs)))"

fun popped :: "queue_out list \<Rightarrow> u8 option list" where
  "popped [] = []"
| "popped (Pushed ok # outs) = popped outs"
| "popped (Popped c # outs) = c # popped outs"

text \<open>The queue operation that an event amounts to: an interrupt pushes the byte that the data register delivers to it.\<close>

fun rx_trace :: "rx_event list \<Rightarrow> ('h, 'm) kernel_scheme \<Rightarrow> queue_op list" where
  "rx_trace [] s = []"
| "rx_trace (Rx_Interrupt # evs) s = Push (received_byte s) # rx_trace evs (snd (do_irq 33 s))"
| "rx_trace (Read_Char # evs) s = Pop # rx_trace evs (snd (getchar s))"

lemma rx_events_fifo:
  "rx_ok s \<Longrightarrow> 0 < spin s \<Longrightarrow>
   \<exists>cs t. run_rx_events evs s = (Inr cs, t) \<and> rx_ok t \<and>
     popped (fst (spec_run 255 (rx_trace evs s) (rx_bytes s))) = cs \<and>
     snd (spec_run 255 (rx_trace evs s) (rx_bytes s)) = rx_bytes t"
proof (induction evs arbitrary: s rule: run_rx_events.induct)
  case 1
  then show ?case by simp
next
  case (2 evs)
  obtain q where q: "do_irq 33 s = (Inr 33, with_rx q (effect (rx_irq_program s) s))" "ring_inv q"
    "ring_list q = (if length (rx_bytes s) < 255 then rx_bytes s @ [received_byte s] else rx_bytes s)"
    using do_irq_rx [OF "2.prems"] by blast
  have step: "spec_step 255 (Push (received_byte s)) (rx_bytes s) =
      (Pushed (length (rx_bytes s) < 255), ring_list q)" by (simp add: q(3))
  show ?case
    using "2.IH" [of "with_rx q (effect (rx_irq_program s) s)"] "2.prems" q(1,2) step
    by (auto simp del: spec_step.simps split: prod.splits)
next
  case (3 evs)
  let ?t = "effect [Mrs DAIF, Msr DAIFSet 2, Msr DAIF (peek_sys s DAIF)] s"
  obtain q where q: "getchar s = (Inr (case rx_bytes s of [] \<Rightarrow> None | b # bs \<Rightarrow> Some b), with_rx q ?t)"
    "ring_inv q" "ring_list q = tl (rx_bytes s)"
    using getchar_program [OF "3.prems"] by blast
  have step: "spec_step 255 Pop (rx_bytes s) =
      (Popped (case rx_bytes s of [] \<Rightarrow> None | b # bs \<Rightarrow> Some b), ring_list q)"
    by (simp add: q(3) split: list.splits)
  show ?case
    using "3.IH" [of "with_rx q ?t"] "3.prems" q(1,2) step
    by (auto simp del: spec_step.simps split: prod.splits)
qed

section \<open>Diagnostics\<close>

definition regs_dump :: "regs \<Rightarrow> string" where
  "regs_dump r = ''\<newline>Registers:\<newline>'' @
     concat (map (\<lambda>(name, v). name @ '': 0x'' @ fmt_016x v @ ''\<newline>'') (Regs_iter r))"

lemma for_println_sent:
  "tx_ready s \<Longrightarrow> for_M xs (\<lambda>x. println (f x)) s = (Inr (), sent (str_bytes (concat (map (\<lambda>x. f x @ ''\<newline>'') xs))) s)"
  by (induction xs arbitrary: s) (simp_all add: println_sent)

lemma Regs_print_sent:
  assumes "tx_ready s"
  shows "Regs_print r s = (Inr (), sent (str_bytes (regs_dump r)) s)"
proof -
  have split: "(\<lambda>(name, v). println (name @ '': 0x'' @ fmt_016x v)) =
      (\<lambda>x. println (fst x @ '': 0x'' @ fmt_016x (snd x)))" by (simp add: fun_eq_iff split: prod.splits)
  have dump: "(\<lambda>(name, v). name @ '': 0x'' @ fmt_016x v @ ''\<newline>'') =
      (\<lambda>x. (fst x @ '': 0x'' @ fmt_016x (snd x)) @ ''\<newline>'')" by (simp add: fun_eq_iff split: prod.splits)
  show ?thesis
    unfolding Regs_print_def regs_dump_def split dump
    using assms by (simp add: println_sent for_println_sent)
qed

lemma byte_of_le_word:
  fixes b0 b1 b2 b3 :: u8
  shows "(ucast (le_word [b0, b1, b2, b3] :: u32) :: u8) = b0" "(ucast (drop_bit 8 (le_word [b0, b1, b2, b3] :: u32)) :: u8) = b1"
    "(ucast (drop_bit 16 (le_word [b0, b1, b2, b3] :: u32)) :: u8) = b2" "(ucast (drop_bit 24 (le_word [b0, b1, b2, b3] :: u32)) :: u8) = b3"
  by (rule bit_word_eqI, auto simp: bit_simps dest: bit_imp_le_length)+

lemma print_faulting_instr_sent:
  assumes "tx_ready s" and "holds_bytes (ram s) (elr AND NOT 3) [b0, b1, b2, b3]"
  shows "print_faulting_instr elr s = (Inr (), sent (str_bytes (''Faulting instruction at 0x'' @ fmt_016x elr @ '': ['' @ fmt_02X b0 @
    ''] '' @ fmt_02X b1 @ '' '' @ fmt_02X b2 @ '' '' @ fmt_02X b3 @ ''\<newline>'')) s)"
proof -
  have upt: "[0..<4] = [0, 1, 2, 3 :: nat]" by code_simp
  have len: "length [b0, b1, b2, b3] = 4" by simp
  note load = load_bytes_holds [OF assms(2), unfolded len]
  show ?thesis
    using assms(1) unfolding print_faulting_instr_def upt
    by (simp add: load [simplified] print_faulting_byte_def Let_def byte_of_le_word print_sent println_sent del: le_word.simps)
qed

lemma never_returns:
  "fst (seq_M m (fail_M Panic) s) \<noteq> Inr x"
  by (simp add: seq_M_def bind_M_def split: prod.splits sum.splits)

lemma length_fmt_016x: "length (fmt_016x v) = 16" and read_fmt_016x: "read_radix 16 (fmt_016x v) = unat v"
proof -
  have "length (fmt_radix 16 False (unat v)) \<le> 16"
    using unat_bound_u64 [of v] by (intro length_fmt_radix) simp_all
  then show "length (fmt_016x v) = 16" by (simp add: fmt_016x_def pad_zero_def)
  show "read_radix 16 (fmt_016x v) = unat v" by (simp add: fmt_016x_def read_radix_pad_zero read_fmt_radix)
qed

section \<open>Properties\<close>

text \<open>
  The receive interrupt. With the lock free, interrupt 33 masks interrupts, reads the data register once, appends the
  byte to the received bytes (or drops it when 255 are waiting), restores the mask it found, and then clears the
  interrupt in the UART; it returns 33 for the acknowledgement and changes nothing else.
\<close>

lemma rx_interrupt_stores_byte:
  assumes "rx_ok s" and "0 < spin s"
  shows "\<exists>q. do_irq 33 s = (Inr 33, with_rx q (effect
      [Mrs DAIF, Msr DAIFSet 2, Read32 (base_addr (UART s)), Msr DAIF (peek_sys s DAIF),
       Write32 (base_addr (UART s) + 0x44) 16] s)) \<and> ring_inv q \<and>
    ring_list q = (if length (rx_bytes s) < 255 then rx_bytes s @ [received_byte s] else rx_bytes s)"
  using do_irq_rx [OF assms] unfolding rx_irq_program_def .

lemma rx_interrupt_stores_byte_witness:
  "\<exists>t. do_irq 33 uart_example = (Inr 33, t) \<and> rx_bytes t = [0]"
proof -
  have "received_byte uart_example = 0"
    by (simp add: received_byte_def rx_locked_def peek32_def hw_effect run_regops_def)
      (simp add: store_bus_def store_hw0_def)
  then show ?thesis
    using rx_interrupt_stores_byte [OF rx_ok_example] rx_bytes_example by fastforce
qed

text \<open>
  C11. Typed characters come out in order. Take any interleaving of receive interrupts and calls of \<open>getchar\<close>, whatever
  the hardware delivers: nothing fails, and the characters returned are exactly those of a first-in-first-out
  queue of capacity 255 in which each interrupt pushes the byte that it read from the data register.
\<close>

theorem rx_path_is_fifo:
  assumes "rx_ok s" and "0 < spin s"
  shows "\<exists>cs t. run_rx_events evs s = (Inr cs, t) \<and> rx_ok t \<and>
     popped (fst (spec_run 255 (rx_trace evs s) (rx_bytes s))) = cs \<and>
     snd (spec_run 255 (rx_trace evs s) (rx_bytes s)) = rx_bytes t"
  using assms by (rule rx_events_fifo)

theorem rx_path_is_fifo_witness:
  "\<exists>t. run_rx_events [Rx_Interrupt, Read_Char, Read_Char] uart_example = (Inr [Some (received_byte uart_example), None], t)"
  using rx_path_is_fifo [OF rx_ok_example, of "[Rx_Interrupt, Read_Char, Read_Char]"] by (auto simp: rx_bytes_example)

text \<open>
  The timer interrupt and the others. On a UART that drains, interrupt 30 prints its message and reloads the timer with
  the low 32 bits of the counter frequency, without touching the control register; any other number but 33 only
  prints that it is unhandled. Both return the number they were given.
\<close>

lemma timer_and_unknown_interrupts:
  assumes "tx_ready s" and "n \<noteq> 30" and "n \<noteq> 33"
  shows "\<exists>f. do_irq 30 s = (Inr 30, effect [Mrs CNTFRQ_EL0, Msr CNTP_TVAL_EL0 (ucast (ucast f :: u32))]
        (sent (str_bytes ''Timer interrupt!\<newline>'') s)) \<and>
      f = peek_sys (sent (str_bytes ''Timer interrupt!\<newline>'') s) CNTFRQ_EL0 \<and>
    do_irq n s = (Inr n, sent (str_bytes (''Unhandled IRQ: '' @ fmt_dec n @ ''\<newline>'')) s)"
  using assms
  by (simp add: do_irq_def println_sent timer_defs mmio_effects)

text \<open>
  C40. The first interval and the later ones. On a machine whose counter frequency is the constant \<open>f\<close> and whose transmitter drains, \<open>arm_ms(1000)\<close>
  of the boot code programs \<open>f - f mod 1000\<close> ticks and switches the timer on; each timer interrupt prints its line, reads the frequency again and
  reloads the timer with \<open>f\<close> ticks, without touching the control register. Both values are cut to the 32 bits of the timer value. They are the
  same exactly if the frequency is a multiple of 1000.
\<close>

theorem rearm_matches_arm_ms:
  assumes freq: "\<forall>h. fst (cpu_mrs (bus s) CNTFRQ_EL0 h) = f" and ready: "tx_ready s"
  shows "arm_ms 1000 s = (Inr (), effect
      [Mrs CNTFRQ_EL0, Msr CNTP_TVAL_EL0 (take_bit 32 (f - f mod 1000)), Msr CNTP_CTL_EL0 1, Fence ISB_SY] s) \<and>
    (\<exists>tx. do_irq 30 s = (Inr 30, effect (tx @ [Mrs CNTFRQ_EL0, Msr CNTP_TVAL_EL0 (take_bit 32 f)]) s) \<and>
       transmits (putchar_base (UART s)) (str_bytes ''Timer interrupt!\<newline>'') tx) \<and>
    (take_bit 32 (f - f mod 1000) = take_bit 32 f \<longleftrightarrow> unat f mod 1000 = 0)"
proof (intro conjI)
  have peek: "peek_sys t CNTFRQ_EL0 = f" if "bus t = bus s" for t :: "('a, 'b) kernel_scheme" using freq that by (simp add: peek_sys_def)
  have "f mod 1000 \<le> f" by (simp add: word_le_nat_alt unat_mod_distrib)
  then have sub: "unat (f - f mod 1000) = unat f - unat f mod 1000" by (simp add: unat_sub unat_mod_distrib)
  have ticks: "ms_ticks f 1000 = unat f - unat f mod 1000" by (simp add: ms_ticks_def minus_mod_eq_div_mult)
  have "unat (take_bit 32 (f - f mod 1000)) = ms_ticks f 1000 mod 2 ^ 32"
    unfolding unsigned_take_bit_eq sub ticks by (simp only: take_bit_eq_mod)
  then have "take_bit 32 (f - f mod 1000) = of_nat (ms_ticks f 1000 mod 2 ^ 32)" by (metis of_nat_unat ucast_id)
  moreover have "ms_ticks f 1000 < 2 ^ 64" using unat_bound_u64 [of f] unfolding ticks by simp
  ultimately show "arm_ms 1000 s = (Inr (), effect
      [Mrs CNTFRQ_EL0, Msr CNTP_TVAL_EL0 (take_bit 32 (f - f mod 1000)), Msr CNTP_CTL_EL0 1, Fence ISB_SY] s)"
    using arm_ms_program [of 1000 s] by (simp add: peek)
  obtain tx where tx: "sent (str_bytes ''Timer interrupt!\<newline>'') s = effect tx s"
    "transmits (putchar_base (UART s)) (str_bytes ''Timer interrupt!\<newline>'') tx" using sent_transmits by blast
  have "do_irq 30 s = (Inr 30, effect [Mrs CNTFRQ_EL0, Msr CNTP_TVAL_EL0 (ucast (ucast f :: u32))] (effect tx s))"
    using timer_and_unknown_interrupts [OF ready, of 0] peek [of "effect tx s"] unfolding tx(1) by auto
  moreover have "(ucast (ucast f :: u32) :: u64) = take_bit 32 f" by (rule bit_word_eqI) (simp add: bit_simps)
  ultimately have "do_irq 30 s = (Inr 30, effect (tx @ [Mrs CNTFRQ_EL0, Msr CNTP_TVAL_EL0 (take_bit 32 f)]) s)" by simp
  with tx(2) show "\<exists>tx. do_irq 30 s = (Inr 30, effect (tx @ [Mrs CNTFRQ_EL0, Msr CNTP_TVAL_EL0 (take_bit 32 f)]) s) \<and>
      transmits (putchar_base (UART s)) (str_bytes ''Timer interrupt!\<newline>'') tx" by blast
  have "take_bit 32 (f - f mod 1000) = take_bit 32 f \<longleftrightarrow> (unat f - unat f mod 1000) mod 2 ^ 32 = unat f mod 2 ^ 32"
    unfolding word_unat_eq_iff unsigned_take_bit_eq sub by (simp only: take_bit_eq_mod)
  also have "\<dots> \<longleftrightarrow> 2 ^ 32 dvd unat f mod 1000"
    using mod_eq_dvd_iff_nat [of "unat f - unat f mod 1000" "unat f" "2 ^ 32"] by (auto simp: eq_commute)
  also have "\<dots> \<longleftrightarrow> unat f mod 1000 = 0" using mod_less_divisor [of 1000 "unat f"] by (auto dest: dvd_imp_le)
  finally show "take_bit 32 (f - f mod 1000) = take_bit 32 f \<longleftrightarrow> unat f mod 1000 = 0" .
qed

definition timer_example_tx :: "u64 \<Rightarrow> store_hw kernel" where
  "timer_example_tx f = uart_example_tx\<lparr>bus := slow_bus\<lparr>cpu_mrs := (\<lambda>r h. (if r = CNTFRQ_EL0 then f else sh_sys h r, h))\<rparr>\<rparr>"

theorem rearm_matches_arm_ms_witness:
  "arm_ms 1000 (timer_example_tx 24000001) = (Inr (), effect
     [Mrs CNTFRQ_EL0, Msr CNTP_TVAL_EL0 24000000, Msr CNTP_CTL_EL0 1, Fence ISB_SY] (timer_example_tx 24000001)) \<and>
   (\<exists>tx. do_irq 30 (timer_example_tx 24000001) =
     (Inr 30, effect (tx @ [Mrs CNTFRQ_EL0, Msr CNTP_TVAL_EL0 24000001]) (timer_example_tx 24000001)))"
proof -
  let ?s = "timer_example_tx 24000001"
  have "tx_polls (bus ?s) 0x9000000 n h = tx_polls slow_bus 0x9000000 n h" for n h
    by (induction n arbitrary: h) (simp_all add: timer_example_tx_def split: prod.splits)
  then have "tx_ready ?s" using tx_drains_slow by (simp add: tx_ready_def tx_drains_def timer_example_tx_def putchar_base_def)
  moreover have "\<forall>h. fst (cpu_mrs (bus ?s) CNTFRQ_EL0 h) = 24000001" by (simp add: timer_example_tx_def)
  moreover have "take_bit 32 (24000001 - 24000001 mod 1000) = (24000000 :: u64)" "take_bit 32 (24000001 :: u64) = 24000001" by simp_all
  ultimately show ?thesis
    using rearm_matches_arm_ms [of ?s 24000001] by metis
qed

text \<open>
  The fatal handlers never return. Whatever the state of the machine and the saved registers, none of the six
  handlers for unexpected exceptions comes back to the vector that called it.
\<close>

lemma fatal_handlers_never_return:
  "fst (do_bad_sync r s) \<noteq> Inr x \<and> fst (do_bad_irq r s) \<noteq> Inr x \<and> fst (do_bad_fiq r s) \<noteq> Inr x \<and>
   fst (do_bad_serror r s) \<noteq> Inr x \<and> fst (do_fiq r s) \<noteq> Inr x \<and> fst (do_serror r s) \<noteq> Inr x"
  unfolding do_bad_sync_def do_bad_irq_def do_bad_fiq_def do_bad_serror_def do_fiq_def do_serror_def
  by (intro conjI never_returns)

end
