(* ===== verification/Mm.thy ===== *)
theory Mm
  imports Irq
begin

text \<open>
  \<^verbatim>\<open>src/kernel/mm\<close>: descriptor helpers (\<^verbatim>\<open>pgtable.rs\<close>), attribute constants (\<^verbatim>\<open>bits.rs\<close>), memory attributes
  (\<^verbatim>\<open>mair.rs\<close>) and the identity mapping (\<^verbatim>\<open>identity.rs\<close>). Descriptors are 64-bit little-endian words
  in memory. The addresses of the linker symbols are a parameter. The translation of an address by the
  hardware walk (4 KiB granule, 48-bit addresses) is the specification.
\<close>

section \<open>bits.rs\<close>

definition SZ_1G :: usize where "SZ_1G = push_bit 30 1"
definition SCTLR_ELX_MMU :: u64 where "SCTLR_ELX_MMU = 1"
definition DESC_UXN :: u64 where "DESC_UXN = push_bit 54 1"
definition DESC_PXN :: u64 where "DESC_PXN = push_bit 53 1"
definition DESC_CONTIGUOUS :: u64 where "DESC_CONTIGUOUS = push_bit 52 1"
definition DESC_DBM :: u64 where "DESC_DBM = push_bit 51 1"
definition DESC_AF :: u64 where "DESC_AF = push_bit 10 1"
definition DESC_SH_INNER :: u64 where "DESC_SH_INNER = push_bit 8 3"
definition DESC_SH_OUTER :: u64 where "DESC_SH_OUTER = push_bit 8 2"
definition DESC_SH_NONE :: u64 where "DESC_SH_NONE = push_bit 8 0"
definition DESC_AP_RW_EL1 :: u64 where "DESC_AP_RW_EL1 = push_bit 6 0"
definition DESC_AP_RW_ALL :: u64 where "DESC_AP_RW_ALL = push_bit 6 1"
definition DESC_AP_RO_EL1 :: u64 where "DESC_AP_RO_EL1 = push_bit 6 2"
definition DESC_AP_RO_ALL :: u64 where "DESC_AP_RO_ALL = push_bit 6 3"
definition DESC_NS :: u64 where "DESC_NS = push_bit 5 1"
definition DESC_NG :: u64 where "DESC_NG = push_bit 11 1"
definition MAIR_DEVICE_NGNRNE :: u64 where "MAIR_DEVICE_NGNRNE = 0x00"
definition MAIR_NORMAL_NC :: u64 where "MAIR_NORMAL_NC = 0x44"
definition MAIR_NORMAL_WB :: u64 where "MAIR_NORMAL_WB = 0xFF"
definition MAIR_IDX_DEVICE :: nat where "MAIR_IDX_DEVICE = 0"
definition MAIR_IDX_NORMAL_NC :: nat where "MAIR_IDX_NORMAL_NC = 1"
definition MAIR_IDX_NORMAL_WB :: nat where "MAIR_IDX_NORMAL_WB = 2"
definition TABLE_NSTABLE :: u64 where "TABLE_NSTABLE = push_bit 63 1"
definition TABLE_APTABLE1 :: u64 where "TABLE_APTABLE1 = push_bit 62 1"
definition TABLE_APTABLE0 :: u64 where "TABLE_APTABLE0 = push_bit 61 1"
definition TABLE_UXNTABLE :: u64 where "TABLE_UXNTABLE = push_bit 60 1"
definition TABLE_PXNTABLE :: u64 where "TABLE_PXNTABLE = push_bit 59 1"

lemmas mm_bits = SZ_1G_def SCTLR_ELX_MMU_def DESC_UXN_def DESC_PXN_def DESC_AF_def DESC_SH_INNER_def DESC_SH_NONE_def
  DESC_AP_RW_EL1_def MAIR_DEVICE_NGNRNE_def MAIR_NORMAL_NC_def MAIR_NORMAL_WB_def MAIR_IDX_DEVICE_def
  MAIR_IDX_NORMAL_NC_def MAIR_IDX_NORMAL_WB_def TABLE_APTABLE0_def TABLE_UXNTABLE_def

text \<open>
  The fields of a descriptor do not overlap: the two type bits, the attribute index (bits 2 to 4), the flags, the shareability and
  access fields, the output address (bits 12 to 47) and the hierarchical attributes of tables are pairwise disjoint.
\<close>

definition desc_fields :: "u64 list" where
  "desc_fields =
     [3, push_bit 2 7, DESC_NS, DESC_AP_RO_ALL, DESC_SH_INNER, DESC_AF, DESC_NG, push_bit 12 (mask 36), DESC_DBM, DESC_CONTIGUOUS,
      DESC_PXN, DESC_UXN, TABLE_PXNTABLE, TABLE_UXNTABLE, TABLE_APTABLE0, TABLE_APTABLE1, TABLE_NSTABLE]"

lemma desc_fields_disjoint: "sorted_wrt (\<lambda>a b. a AND b = 0) desc_fields"
  unfolding desc_fields_def mm_bits DESC_NS_def DESC_AP_RO_ALL_def DESC_NG_def DESC_DBM_def DESC_CONTIGUOUS_def
    TABLE_PXNTABLE_def TABLE_APTABLE1_def TABLE_NSTABLE_def
  by (simp add: mask_eq_exp_minus_1)

lemma desc_field_values:
  "DESC_SH_OUTER AND DESC_SH_INNER = DESC_SH_OUTER" "DESC_AP_RW_ALL OR DESC_AP_RO_EL1 = DESC_AP_RO_ALL"
  "DESC_AP_RW_ALL AND DESC_AP_RO_EL1 = DESC_AP_RW_EL1"
  by (simp_all add: DESC_SH_OUTER_def DESC_SH_INNER_def DESC_AP_RW_ALL_def DESC_AP_RO_EL1_def DESC_AP_RO_ALL_def DESC_AP_RW_EL1_def)

section \<open>pgtable.rs\<close>

definition PAGE_SHIFT :: nat where "PAGE_SHIFT = 12"
definition PAGE_SIZE :: usize where "PAGE_SIZE = push_bit PAGE_SHIFT 1"
definition PAGE_MASK :: usize where "PAGE_MASK = NOT (PAGE_SIZE - 1)"
definition L1_SIZE_PER_ENTRY :: usize where "L1_SIZE_PER_ENTRY = push_bit 30 1"
definition ATTR_IDX_SHIFT :: nat where "ATTR_IDX_SHIFT = 2"

definition read_pte :: "u64 \<Rightarrow> (('h, 'm) machine_scheme, u64) M" where
  "read_pte desc = bind_M (load_bytes 8 desc) (\<lambda>bs. return_M (le_word bs))"

definition write_pte :: "u64 \<Rightarrow> u64 \<Rightarrow> (('h, 'm) machine_scheme, unit) M" where
  "write_pte desc v = store_bytes (to_le_bytes v) desc"

text \<open>\<open>*desc |= bits\<close>\<close>

definition or_pte :: "u64 \<Rightarrow> u64 \<Rightarrow> (('h, 'm) machine_scheme, unit) M" where
  "or_pte desc bits = bind_M (read_pte desc) (\<lambda>v. write_pte desc (v OR bits))"

definition mark_page_desc :: "u64 \<Rightarrow> (('h, 'm) machine_scheme, unit) M" where
  "mark_page_desc desc = or_pte desc 0x03"

abbreviation mark_table_desc :: "u64 \<Rightarrow> (('h, 'm) machine_scheme, unit) M" where
  "mark_table_desc \<equiv> mark_page_desc"

definition mark_block_desc :: "u64 \<Rightarrow> (('h, 'm) machine_scheme, unit) M" where
  "mark_block_desc desc = or_pte desc 0x01"

definition set_mair_range :: "u64 \<Rightarrow> u64 \<Rightarrow> (('h, 'm) machine_scheme, unit) M" where
  "set_mair_range desc idx = or_pte desc (push_bit ATTR_IDX_SHIFT (idx AND 0x7))"

definition set_table_attrs :: "u64 \<Rightarrow> u64 \<Rightarrow> (('h, 'm) machine_scheme, unit) M" where
  "set_table_attrs desc attrs = or_pte desc attrs"

abbreviation set_block_attrs :: "u64 \<Rightarrow> u64 \<Rightarrow> (('h, 'm) machine_scheme, unit) M" where
  "set_block_attrs \<equiv> set_table_attrs"

definition set_next_lvl_table_addr :: "u64 \<Rightarrow> u64 \<Rightarrow> (('h, 'm) machine_scheme, unit) M" where
  "set_next_lvl_table_addr desc addr = or_pte desc (addr AND PAGE_MASK)"

section \<open>mair.rs\<close>

definition configure_mair_range :: "u64 \<Rightarrow> nat \<Rightarrow> (('h, 'm) machine_scheme, unit) M" where
  "configure_mair_range conf rng =
     bind_M (checked_shl conf (rng * 8)) (\<lambda>conf_shifted.
     bind_M (mrs MAIR_EL1) (\<lambda>tmp.
     seq_M (msr MAIR_EL1 (tmp OR conf_shifted)) (barrier ISB_SY)))"

definition setup_mair_ranges :: "(('h, 'm) machine_scheme, unit) M" where
  "setup_mair_ranges =
     block_M [configure_mair_range MAIR_DEVICE_NGNRNE MAIR_IDX_DEVICE,
              configure_mair_range MAIR_NORMAL_WB MAIR_IDX_NORMAL_WB,
              configure_mair_range MAIR_NORMAL_NC MAIR_IDX_NORMAL_NC]"

section \<open>identity.rs\<close>

record linker_symbols =
  kernel_start :: u64
  ls_stack_top :: u64
  idmap_l0 :: u64
  idmap_l1 :: u64

definition load_ttbr0 :: "u64 \<Rightarrow> (('h, 'm) machine_scheme, unit) M" where
  "load_ttbr0 base =
     block_M [msr TTBR0_EL1 base, barrier ISB_SY, barrier TLBI_VMALLE1, barrier DSB_NSH, barrier ISB_SY]"

definition configure_tcr :: "(('h, 'm) machine_scheme, unit) M" where
  "configure_tcr =
     (let x0 = 0x10; x1 = 0x1; x2 = 0x3; x3 = 0x10;
          x0 = x0 OR push_bit 8 x1;
          x0 = x0 OR push_bit 10 x1;
          x0 = x0 OR push_bit 12 x2;
          x0 = x0 OR push_bit 16 x3;
          x0 = x0 OR push_bit 23 x1;
          x0 = x0 OR push_bit 31 x1;
          x0 = x0 OR push_bit 34 x1
      in block_M [msr TCR_EL1 x0, barrier ISB_SY])"

definition enable_mmu :: "(('h, 'm) machine_scheme, unit) M" where
  "enable_mmu =
     seq_M configure_tcr
       (bind_M (mrs SCTLR_EL1) (\<lambda>tmp. block_M [msr SCTLR_EL1 (tmp OR SCTLR_ELX_MMU), barrier ISB_SY]))"

text \<open>One iteration of the loop over the first-level entries; \<open>j\<close> is the index into \<open>ranges\<close>.\<close>

definition map_block :: "linker_symbols \<Rightarrow> nat \<Rightarrow> nat \<Rightarrow> (('h, 'm) machine_scheme, nat) M" where
  "map_block syms i j =
     (let off = idmap_l1 syms + 8 * of_nat i in
      seq_M (write_pte off 0)
     (seq_M (mark_block_desc off)
     (bind_M (index_M [of_nat MAIR_IDX_DEVICE, of_nat MAIR_IDX_NORMAL_WB] j) (\<lambda>rng.
      seq_M (set_mair_range off rng)
     (seq_M (if j = 0
             then set_block_attrs off (DESC_UXN OR DESC_PXN OR DESC_AF OR DESC_SH_NONE OR DESC_AP_RW_EL1)
             else set_block_attrs off (DESC_UXN OR DESC_AF OR DESC_SH_INNER OR DESC_AP_RW_EL1))
     (bind_M (checked_mul (of_nat i) SZ_1G) (\<lambda>addr.
      seq_M (set_next_lvl_table_addr off addr)
     (return_M (if j < 1 then j + 1 else j)))))))))"

definition setup_identity_mapping :: "linker_symbols \<Rightarrow> (('h, 'm) kernel_scheme, unit) M" where
  "setup_identity_mapping syms =
     bind_M (checked_sub (ls_stack_top syms) (kernel_start syms)) (\<lambda>kernel_addr_range.
     bind_M (checked_sub 0x09000000 0x08000000) (\<lambda>mmio_addr_range.
     bind_M (checked_add kernel_addr_range mmio_addr_range) (\<lambda>total.
     bind_M (checked_div total L1_SIZE_PER_ENTRY) (\<lambda>pages.
     block_M [println (''idmap_l0 addr '' @ fmt_pointer (idmap_l0 syms)),
              mark_table_desc (idmap_l0 syms),
              set_table_attrs (idmap_l0 syms) (TABLE_UXNTABLE OR TABLE_APTABLE0),
              println (''idmap_l1 addr '' @ fmt_pointer (idmap_l1 syms)),
              set_next_lvl_table_addr (idmap_l0 syms) (idmap_l1 syms),
              bind_M (fold_M (map_block syms) [0..<unat (max pages 2)] 0) (\<lambda>_. return_M ()),
              load_ttbr0 (idmap_l0 syms),
              enable_mmu]))))"

section \<open>Memory cells\<close>

text \<open>Overwriting part of memory.\<close>

definition ram_store :: "(u64 \<Rightarrow> u8 option) \<Rightarrow> u64 \<Rightarrow> u8 list \<Rightarrow> u64 \<Rightarrow> u8 option" where
  "ram_store m p bs a = (if unat (a - p) < length bs then Some (bs ! unat (a - p)) else m a)"

lemma ram_store_Nil: "ram_store m p [] = m"
  by (simp add: ram_store_def fun_eq_iff)

lemma unat_minus_one_offset:
  "a \<noteq> p \<Longrightarrow> unat (a - p) = Suc (unat (a - (p + 1)))" for a p :: u64
proof -
  assume "a \<noteq> p"
  then have "a - p \<noteq> 0" by simp
  then have "unat (a - p) = Suc (unat (a - p - 1))"
    by (metis Suc_pred' unat_gt_0 unat_minus_one)
  then show ?thesis by (simp add: diff_diff_eq)
qed

lemma ram_store_Cons:
  "Suc (length bs) \<le> 2 ^ 64 \<Longrightarrow> ram_store m p (b # bs) = ram_store (m(p \<mapsto> b)) (p + 1) bs"
proof (rule ext)
  fix a assume len: "Suc (length bs) \<le> 2 ^ 64"
  show "ram_store m p (b # bs) a = ram_store (m(p \<mapsto> b)) (p + 1) bs a"
  proof (cases "a = p")
    case True
    have "unat (p - (p + 1) :: u64) = 2 ^ 64 - 1" by (simp add: unsigned_minus_1_eq_mask mask_eq_exp_minus_1)
    with True len show ?thesis by (simp add: ram_store_def)
  next
    case False
    then show ?thesis by (simp add: ram_store_def unat_minus_one_offset)
  qed
qed

lemma store_bytes_eq:
  "\<forall>i < length bs. ram s (p + of_nat i) \<noteq> None \<Longrightarrow> length bs \<le> 2 ^ 64 \<Longrightarrow>
   store_bytes bs p s = (Inr (), s\<lparr>ram := ram_store (ram s) p bs\<rparr>)"
proof (induction bs arbitrary: p s)
  case Nil
  then show ?case by (simp add: ram_store_Nil)
next
  case (Cons b bs)
  let ?s = "s\<lparr>ram := (ram s)(p \<mapsto> b)\<rparr>"
  obtain b' where "ram s p = Some b'" using Cons.prems(1) by fastforce
  then have "store_u8 p b s = (Inr (), ?s)" by (simp add: store_u8_def)
  moreover have "\<forall>i < length bs. ram ?s (p + 1 + of_nat i) \<noteq> None"
    using Cons.prems(1) by (auto simp: all_less_Suc_split add.assoc)
  then have "store_bytes bs (p + 1) ?s = (Inr (), ?s\<lparr>ram := ram_store (ram ?s) (p + 1) bs\<rparr>)"
    using Cons.prems(2) by (intro Cons.IH) simp_all
  moreover have "ram_store (ram s) p (b # bs) = ram_store (ram ?s) (p + 1) bs"
    using Cons.prems(2) by (simp add: ram_store_Cons)
  ultimately show ?case by simp
qed

lemma ram_store_twice: "length bs = length cs \<Longrightarrow> ram_store (ram_store m p bs) p cs = ram_store m p cs"
  by (simp add: ram_store_def fun_eq_iff)

text \<open>A descriptor in memory.\<close>

definition pte_at :: "(u64 \<Rightarrow> u8 option) \<Rightarrow> u64 \<Rightarrow> u64 \<Rightarrow> bool" where
  "pte_at m p v \<longleftrightarrow> holds_bytes m p (to_le_bytes v)"

definition set_pte :: "u64 \<Rightarrow> u64 \<Rightarrow> ('h, 'm) machine_scheme \<Rightarrow> ('h, 'm) machine_scheme" where
  "set_pte p v s = s\<lparr>ram := ram_store (ram s) p (to_le_bytes v)\<rparr>"

lemma set_pte_twice [simp]: "set_pte p w (set_pte p v s) = set_pte p w s"
  by (simp add: set_pte_def ram_store_twice)

lemma pte_at_set_same [simp]: "pte_at (ram (set_pte p v s)) p v"
  by (simp add: pte_at_def set_pte_def holds_bytes_nth ram_store_def unat_of_nat)

definition apart :: "u64 \<Rightarrow> u64 \<Rightarrow> bool" where
  "apart p q \<longleftrightarrow> 8 \<le> unat (q - p) \<and> 8 \<le> unat (p - q)"

lemma unat_add_neg: "x \<noteq> 0 \<Longrightarrow> unat x + unat (- x) = 2 ^ 64" for x :: u64
proof -
  assume "x \<noteq> 0"
  have "(unat x + unat (- x)) mod 2 ^ 64 = 0" using unat_word_ariths(1) [of x "- x"] by simp
  then obtain k where k: "unat x + unat (- x) = 2 ^ 64 * k" by (auto simp: mod_eq_0_iff_dvd elim: dvdE)
  have "0 < unat x" "unat x < 2 ^ 64" "unat (- x) < 2 ^ 64"
    using \<open>x \<noteq> 0\<close> unat_bound_u64 [of x] unat_bound_u64 [of "- x"] by (simp_all add: unat_gt_0)
  with k have "0 < k" "2 ^ 64 * k < 2 ^ 64 * (2 :: nat)" by (auto intro: Nat.gr0I)
  then have "k = 1" by simp
  with k show ?thesis by simp
qed

lemma apart_iff: "apart p q \<longleftrightarrow> 8 \<le> unat (q - p) \<and> unat (q - p) + 8 \<le> 2 ^ 64"
proof (cases "q - p = 0")
  case False
  then have "unat (q - p) + unat (p - q) = 2 ^ 64" using unat_add_neg [of "q - p"] by simp
  then show ?thesis unfolding apart_def by linarith
qed (simp add: apart_def)

lemma apart_offset:
  assumes "apart p q" and "i < 8"
  shows "\<not> unat (q + of_nat i - p) < 8"
proof -
  have far: "8 \<le> unat (q - p)" "unat (q - p) + 8 \<le> 2 ^ 64" using assms(1) by (simp_all add: apart_iff)
  then have "unat (q - p + of_nat i) = unat (q - p) + i"
    using assms(2) by (subst unat_add_lem [THEN iffD1]) (simp_all add: unat_of_nat)
  moreover have eq: "q + of_nat i - p = q - p + of_nat i" by simp
  ultimately show ?thesis unfolding eq using far(1) by linarith
qed

lemma pte_at_set_other [simp]: "apart p q \<Longrightarrow> pte_at (ram (set_pte p v s)) q w \<longleftrightarrow> pte_at (ram s) q w"
  by (simp add: pte_at_def set_pte_def holds_bytes_nth ram_store_def apart_offset)

lemma read_pte_at: "pte_at (ram s) p v \<Longrightarrow> read_pte p s = (Inr v, s)"
  using le64.reader [of s p v] by (simp add: read_pte_def pte_at_def)

lemma write_pte_at: "pte_at (ram s) p v \<Longrightarrow> write_pte p w s = (Inr (), set_pte p w s)"
  unfolding write_pte_def set_pte_def by (rule store_bytes_eq) (auto simp: pte_at_def holds_bytes_nth)

text \<open>
  The interface of a store of cells, as the descriptor helpers and the table walk use it: reading returns
  what was last written to the cell, and cells that lie apart do not affect each other.
\<close>

locale cell_store =
  fixes get :: "u64 \<Rightarrow> ('s, u64) M" and put :: "u64 \<Rightarrow> u64 \<Rightarrow> ('s, unit) M"
    and holds :: "'s \<Rightarrow> u64 \<Rightarrow> u64 \<Rightarrow> bool" and upd :: "u64 \<Rightarrow> u64 \<Rightarrow> 's \<Rightarrow> 's"
  assumes get_holds: "holds s p v \<Longrightarrow> get p s = (Inr v, s)"
    and put_holds: "holds s p v \<Longrightarrow> put p w s = (Inr (), upd p w s)"
    and holds_upd: "holds (upd p w s) p w"
    and upd_upd: "upd p w (upd p v s) = upd p w s"
begin

lemma or_cell:
  "holds s p v \<Longrightarrow> bind_M (get p) (\<lambda>v. put p (v OR bits)) s = (Inr (), upd p (v OR bits) s)"
  by (simp add: get_holds put_holds)

lemma or_cell_upd:
  "bind_M (get p) (\<lambda>v. put p (v OR bits)) (upd p v s) = (Inr (), upd p (v OR bits) s)"
  using or_cell [OF holds_upd] by (simp add: upd_upd)

end

interpretation pte: cell_store read_pte write_pte "\<lambda>s. pte_at (ram s)" set_pte
  by unfold_locales (simp_all add: read_pte_at write_pte_at)

lemmas or_pte_at = pte.or_cell [folded or_pte_def] and or_pte_upd = pte.or_cell_upd [folded or_pte_def]

section \<open>The first-level table\<close>

text \<open>The block descriptor that an iteration builds.\<close>

definition block_desc :: "nat \<Rightarrow> nat \<Rightarrow> u64" where
  "block_desc i j =
     (((1 OR push_bit 2 (if j = 0 then 0 else 2)) OR
       (if j = 0 then DESC_UXN OR DESC_PXN OR DESC_AF OR DESC_SH_NONE OR DESC_AP_RW_EL1
        else DESC_UXN OR DESC_AF OR DESC_SH_INNER OR DESC_AP_RW_EL1)) OR (push_bit 30 (of_nat i) AND PAGE_MASK))"

abbreviation l1_entry :: "linker_symbols \<Rightarrow> nat \<Rightarrow> u64" where
  "l1_entry syms i \<equiv> idmap_l1 syms + 8 * of_nat i"

lemma map_block_eq:
  assumes "pte_at (ram s) (l1_entry syms i) v" and "j < 2" and "i < 2 ^ 34"
  shows "map_block syms i j s = (Inr 1, set_pte (l1_entry syms i) (block_desc i j) s)"
proof -
  have "unat (of_nat i :: u64) * unat SZ_1G < 2 ^ 64"
    using assms(3) by (simp add: SZ_1G_def unat_of_nat)
  moreover have "of_nat i * SZ_1G = push_bit 30 (of_nat i :: u64)" by (simp add: SZ_1G_def push_bit_eq_mult)
  ultimately have mul: "checked_mul (of_nat i) SZ_1G s' = (Inr (push_bit 30 (of_nat i)), s')" for s' :: "('a, 'b) machine_scheme"
    by simp
  have "j = 0 \<or> j = 1" using assms(2) by auto
  then show ?thesis
    using write_pte_at [OF assms(1), of 0] mul
    by (elim disjE) (simp_all add: map_block_def Let_def mark_block_desc_def set_mair_range_def set_table_attrs_def
        set_next_lvl_table_addr_def or_pte_upd block_desc_def MAIR_IDX_DEVICE_def MAIR_IDX_NORMAL_WB_def ATTR_IDX_SHIFT_def)
qed

text \<open>The entries written so far: descriptors from entry \<open>k\<close> on.\<close>

definition with_blocks :: "linker_symbols \<Rightarrow> nat list \<Rightarrow> ('h, 'm) machine_scheme \<Rightarrow> ('h, 'm) machine_scheme" where
  "with_blocks syms is s = fold (\<lambda>i. set_pte (l1_entry syms i) (block_desc i (min i 1))) is s"

lemma with_blocks_keeps [simp]:
  "bus (with_blocks syms is s) = bus s" "hw (with_blocks syms is s) = hw s" "spin (with_blocks syms is s) = spin s"
  "machine.more (with_blocks syms is s) = machine.more s"
  unfolding with_blocks_def by (induction "is" arbitrary: s) (simp_all add: set_pte_def)

text \<open>The entries of the table do not overlap.\<close>

lemma entries_apart:
  assumes "unat base + 8 * n \<le> 2 ^ 64" and "i < n" and "j < n" and "i \<noteq> j"
  shows "apart (base + 8 * of_nat i) (base + 8 * of_nat j)"
proof -
  have *: "apart (base + 8 * of_nat a) (base + 8 * of_nat b)" if "a < b" "b < n" for a b
  proof -
    have d: "8 \<le> 8 * (b - a)" "8 * (b - a) + 8 \<le> 2 ^ 64" using that assms(1) by auto
    have "(of_nat b :: u64) = of_nat a + of_nat (b - a)" using that by (simp flip: of_nat_add)
    then have "base + 8 * of_nat b - (base + 8 * of_nat a) = (of_nat (8 * (b - a)) :: u64)"
      by (simp add: distrib_left del: diff_mult_distrib2)
    moreover have "unat (of_nat (8 * (b - a)) :: u64) = 8 * (b - a)"
      unfolding unat_of_nat using d by (intro mod_less) simp
    ultimately show ?thesis unfolding apart_iff using d by simp
  qed
  show ?thesis using *[of i j] *[of j i] assms by (cases "i < j") (auto simp: apart_def)
qed

lemma map_blocks_eq:
  assumes "unat (idmap_l1 syms) + 8 * n \<le> 2 ^ 64" and "k \<le> n" and "n < 2 ^ 34" and "j = min k 1"
    and "\<forall>i < n. \<exists>v. pte_at (ram s) (l1_entry syms i) v"
  shows "\<exists>j'. fold_M (map_block syms) [k..<n] j s = (Inr j', with_blocks syms [k..<n] s)"
  using assms(2,4,5)
proof (induction "n - k" arbitrary: k j s)
  case 0
  then show ?case by (simp add: with_blocks_def)
next
  case (Suc d)
  then have k: "k < n" by simp
  let ?s = "set_pte (l1_entry syms k) (block_desc k j) s"
  obtain v where "pte_at (ram s) (l1_entry syms k) v" using Suc.prems(3) k by blast
  then have step: "map_block syms k j s = (Inr 1, ?s)"
    using Suc.prems(2) k assms(3) by (intro map_block_eq) simp_all
  have "\<exists>v. pte_at (ram ?s) (l1_entry syms i) v" if "i < n" for i
  proof (cases "i = k")
    case True
    then show ?thesis using pte_at_set_same by blast
  next
    case False
    then have "apart (l1_entry syms k) (l1_entry syms i)" using entries_apart [OF assms(1) k that] by simp
    then show ?thesis using Suc.prems(3) that by simp
  qed
  then obtain j' where "fold_M (map_block syms) [Suc k..<n] 1 ?s = (Inr j', with_blocks syms [Suc k..<n] ?s)"
    using Suc.hyps(1) [of "Suc k" 1 ?s] Suc.hyps(2) k by fastforce
  moreover have "with_blocks syms [k..<n] s = with_blocks syms [Suc k..<n] ?s"
    using k Suc.prems(2) by (simp add: with_blocks_def upt_conv_Cons)
  ultimately show ?case using step k by (simp add: upt_conv_Cons)
qed

lemma with_blocks_other:
  "\<forall>i \<in> set is. apart (l1_entry syms i) q \<Longrightarrow> pte_at (ram (with_blocks syms is s)) q v = pte_at (ram s) q v"
  unfolding with_blocks_def by (induction "is" arbitrary: s) simp_all

lemma with_blocks_entry:
  assumes "i \<in> set is" and "distinct is" and "\<forall>a \<in> set is. \<forall>b \<in> set is. a \<noteq> b \<longrightarrow> apart (l1_entry syms a) (l1_entry syms b)"
  shows "pte_at (ram (with_blocks syms is s)) (l1_entry syms i) (block_desc i (min i 1))"
  using assms
proof (induction "is" arbitrary: s)
  case (Cons a "is")
  let ?s = "set_pte (l1_entry syms a) (block_desc a (min a 1)) s"
  have fold: "with_blocks syms (a # is) s = with_blocks syms is ?s" by (simp add: with_blocks_def)
  show ?case
  proof (cases "i = a")
    case True
    have "\<forall>b \<in> set is. apart (l1_entry syms b) (l1_entry syms a)" using Cons.prems(2,3) by auto
    with True show ?thesis unfolding fold by (simp add: with_blocks_other)
  next
    case False
    then show ?thesis unfolding fold using Cons by simp
  qed
qed simp

section \<open>The walk of the hardware\<close>

text \<open>
  The stage 1 translation of a 48-bit address with a 4 KiB granule, as far as first-level blocks: the result is the
  physical address and the block descriptor.
\<close>

definition fetch_desc :: "(u64 \<Rightarrow> u8 option) \<Rightarrow> u64 \<Rightarrow> u64 option" where
  "fetch_desc m p =
     (if \<forall>i \<in> {0..<8}. m (p + of_nat i) \<noteq> None then Some (le_word (map (\<lambda>i. the (m (p + of_nat i))) [0..<8])) else None)"

definition translate :: "(u64 \<Rightarrow> u8 option) \<Rightarrow> u64 \<Rightarrow> u64 \<Rightarrow> (u64 \<times> u64) option" where
  "translate m ttbr va =
     (if drop_bit 48 va \<noteq> 0 then None
      else case fetch_desc m (ttbr + 8 * take_bit 9 (drop_bit 39 va)) of
        None \<Rightarrow> None
      | Some d0 \<Rightarrow>
          if take_bit 2 d0 \<noteq> 3 then None
          else case fetch_desc m (push_bit 12 (take_bit 36 (drop_bit 12 d0)) + 8 * take_bit 9 (drop_bit 30 va)) of
            None \<Rightarrow> None
          | Some d1 \<Rightarrow>
              if take_bit 2 d1 \<noteq> 1 then None
              else Some (push_bit 30 (take_bit 18 (drop_bit 30 d1)) OR take_bit 30 va, d1))"

lemma fetch_pte_at: "pte_at m p v \<Longrightarrow> fetch_desc m p = Some v"
proof -
  assume "pte_at m p v"
  then have "m (p + of_nat i) = Some (to_le_bytes v ! i)" if "i < 8" for i
    using that by (simp add: pte_at_def holds_bytes_nth)
  moreover then have "map (\<lambda>i. the (m (p + of_nat i))) [0..<8] = to_le_bytes v"
    by (intro nth_equalityI) simp_all
  ultimately show ?thesis by (simp add: fetch_desc_def le_word_to_le_bytes)
qed

text \<open>The level 0 descriptor.\<close>

definition table_desc :: "u64 \<Rightarrow> u64" where
  "table_desc l1 = ((0 OR 3) OR (TABLE_UXNTABLE OR TABLE_APTABLE0)) OR (l1 AND PAGE_MASK)"

lemma bit_PAGE_MASK: "bit PAGE_MASK n \<longleftrightarrow> 12 \<le> n \<and> n < 64"
proof -
  have "PAGE_SIZE - 1 = mask 12" by (simp add: PAGE_SIZE_def PAGE_SHIFT_def mask_eq_exp_minus_1)
  then show ?thesis by (auto simp: PAGE_MASK_def bit_not_iff bit_mask_iff)
qed

lemma bit_word_3: "bit (3 :: u64) n \<longleftrightarrow> n < 2"
  using bit_int_masks(2) [of n] by (auto simp: bit_numeral_word_iff dest: bit_imp_le_length)

lemma bit_desc_consts:
  "bit DESC_UXN n \<longleftrightarrow> n = 54" "bit DESC_PXN n \<longleftrightarrow> n = 53" "bit DESC_AF n \<longleftrightarrow> n = 10" "bit TABLE_UXNTABLE n \<longleftrightarrow> n = 60"
  "bit TABLE_APTABLE0 n \<longleftrightarrow> n = 61" "bit DESC_SH_INNER n \<longleftrightarrow> n = 8 \<or> n = 9"
  unfolding DESC_UXN_def DESC_PXN_def DESC_AF_def TABLE_UXNTABLE_def TABLE_APTABLE0_def DESC_SH_INNER_def
    bit_push_bit_iff bit_1_iff bit_word_3 by auto

lemma zero_desc_consts: "DESC_SH_NONE = 0" "DESC_AP_RW_EL1 = 0"
  by (simp_all add: mm_bits)

lemmas desc_bits = bit_or_iff bit_and_iff bit_take_bit_iff bit_drop_bit_eq bit_push_bit_iff bit_1_iff bit_PAGE_MASK bit_word_3
  bit_desc_consts zero_desc_consts

lemma table_desc_fields:
  assumes "take_bit 12 l1 = 0" and "drop_bit 48 l1 = 0"
  shows "take_bit 2 (table_desc l1) = 3" and "push_bit 12 (take_bit 36 (drop_bit 12 (table_desc l1))) = l1"
proof -
  have range: "12 \<le> n \<and> n < 48" if "bit l1 n" for n
  proof (rule ccontr)
    assume "\<not> (12 \<le> n \<and> n < 48)"
    then show False
      using arg_cong [OF assms(1), of "\<lambda>w. bit w n"] arg_cong [OF assms(2), of "\<lambda>w. bit w (n - 48)"] that
      by (auto simp: bit_simps not_le not_less)
  qed
  show "take_bit 2 (table_desc l1) = 3"
    by (rule bit_word_eqI) (auto simp: table_desc_def desc_bits)
  show "push_bit 12 (take_bit 36 (drop_bit 12 (table_desc l1))) = l1"
  proof (rule bit_word_eqI)
    fix n assume "n < LENGTH(64)"
    then show "bit (push_bit 12 (take_bit 36 (drop_bit 12 (table_desc l1)))) n = bit l1 n"
      using range [of n] by (cases "12 \<le> n") (auto simp: table_desc_def desc_bits)
  qed
qed

lemma bit_of_nat_512: "i < 512 \<Longrightarrow> bit (of_nat i :: u64) n \<Longrightarrow> n < 9"
proof -
  assume "i < 512" and bit: "bit (of_nat i :: u64) n"
  then have "take_bit 9 i = i" by (simp add: take_bit_nat_eq_self_iff)
  moreover have "bit i n" using bit by (simp add: bit_simps)
  ultimately have "bit (take_bit 9 i) n" by simp
  then show "n < 9" by (simp add: bit_take_bit_iff)
qed

lemma bit_word_2: "bit (2 :: u64) n \<longleftrightarrow> n = 1"
  using bit_int_masks(3) [of n] by (auto simp: bit_numeral_word_iff dest: bit_imp_le_length)

lemma bit_int_9: "bit (9 :: int) n \<longleftrightarrow> n = 0 \<or> n = 3"
proof -
  have "(9 :: int) = 1 OR push_bit 3 1" by simp
  then show ?thesis by (simp only: bit_or_iff bit_push_bit_iff bit_1_iff possible_bit_int) auto
qed

lemma block_desc_fields:
  assumes "i < 512"
  shows "take_bit 2 (block_desc i j) = 1"
    and "push_bit 30 (take_bit 18 (drop_bit 30 (block_desc i j))) = push_bit 30 (of_nat i)"
    and "take_bit 3 (drop_bit 2 (block_desc i j)) = (if j = 0 then 0 else 2)"
    and "bit (block_desc i j) 54" and "bit (block_desc i j) 53 = (j = 0)" and "bit (block_desc i j) 10"
    and "take_bit 2 (drop_bit 8 (block_desc i j)) = (if j = 0 then 0 else 3)"
    and "take_bit 2 (drop_bit 6 (block_desc i j)) = 0"
proof -
  have addr: "n < 9" if "bit (of_nat i :: u64) n" for n using bit_of_nat_512 [OF assms that] .
  have bits: "bit (block_desc i j) n \<longleftrightarrow>
      n = 0 \<or> j \<noteq> 0 \<and> n = 3 \<or> n = 54 \<or> j = 0 \<and> n = 53 \<or> n = 10 \<or> j \<noteq> 0 \<and> (n = 8 \<or> n = 9) \<or>
      30 \<le> n \<and> n < 39 \<and> bit (of_nat i :: u64) (n - 30)" for n
    using addr [of "n - 30"]
    by (cases "j = 0") (auto simp: block_desc_def desc_bits bit_int_9 simp del: bit_of_nat_iff)
  show "take_bit 2 (block_desc i j) = 1"
    by (rule bit_word_eqI) (auto simp: bit_simps bits)
  show "push_bit 30 (take_bit 18 (drop_bit 30 (block_desc i j))) = push_bit 30 (of_nat i)"
  proof (rule bit_word_eqI)
    fix n assume "n < LENGTH(64)"
    then show "bit (push_bit 30 (take_bit 18 (drop_bit 30 (block_desc i j)))) n = bit (push_bit 30 (of_nat i :: u64)) n"
      using addr [of "n - 30"]
      by (auto simp: bit_take_bit_iff bit_drop_bit_eq bit_push_bit_iff bits simp del: bit_of_nat_iff)
  qed
  show "take_bit 3 (drop_bit 2 (block_desc i j)) = (if j = 0 then 0 else 2)"
    by (rule bit_word_eqI) (auto simp: bit_simps bits bit_word_2)
  show "bit (block_desc i j) 54" "bit (block_desc i j) 53 = (j = 0)" "bit (block_desc i j) 10"
    using addr [of 24] addr [of 23] by (auto simp: bits)
  show "take_bit 2 (drop_bit 8 (block_desc i j)) = (if j = 0 then 0 else 3)"
    by (rule bit_word_eqI) (auto simp: bit_simps bits bit_int_masks)
  show "take_bit 2 (drop_bit 6 (block_desc i j)) = 0"
    by (rule bit_word_eqI) (auto simp: bit_simps bits)
qed

lemma translate_identity:
  assumes "pte_at m l0 (table_desc l1)" and "take_bit 12 l1 = 0" and "drop_bit 48 l1 = 0" and "n \<le> 512"
    and "\<forall>i < n. pte_at m (l1 + 8 * of_nat i) (block_desc i (min i 1))" and "unat va < n * 2 ^ 30"
  shows "translate m l0 va = Some (va, block_desc (unat va div 2 ^ 30) (min (unat va div 2 ^ 30) 1))"
proof -
  let ?i = "unat va div 2 ^ 30"
  have i: "?i < n" "?i < 512" using assms(4,6) by (simp_all add: less_mult_imp_div_less)
  have va: "unat va < 2 ^ 39" using assms(4,6) by simp
  have "unat (drop_bit 48 va) = 0" "unat (drop_bit 39 va) = 0" unfolding unat_drop_bit using va by simp_all
  then have hi: "drop_bit 48 va = 0" "drop_bit 39 va = 0" by (simp_all only: unat_eq_zero)
  have idx: "drop_bit 30 va = of_nat ?i" by (metis of_nat_unat unat_drop_bit ucast_id)
  have "unat (of_nat ?i :: u64) = ?i" unfolding unat_of_nat using i(2) by (intro mod_less) simp
  then have "unat (take_bit 9 (of_nat ?i :: u64)) = ?i"
    unfolding unsigned_take_bit_eq using i(2) by (simp add: take_bit_nat_eq_self_iff)
  then have idx9: "take_bit 9 (drop_bit 30 va) = of_nat ?i" unfolding idx by (metis of_nat_unat ucast_id)
  have "fetch_desc m (l1 + 8 * of_nat ?i) = Some (block_desc ?i (min ?i 1))"
    using assms(5) i(1) by (intro fetch_pte_at) simp
  moreover have "push_bit 30 (of_nat ?i) OR take_bit 30 va = va"
    unfolding idx [symmetric] by (rule bit_word_eqI) (auto simp: bit_simps)
  ultimately show ?thesis
    using fetch_pte_at [OF assms(1)] table_desc_fields [OF assms(2,3)] block_desc_fields(1,2) [OF i(2)]
    by (simp only: translate_def hi idx9) simp
qed

text \<open>The size of the mapping and the table after the call.\<close>

definition mapped_gib :: "linker_symbols \<Rightarrow> nat" where
  "mapped_gib syms = max ((unat (ls_stack_top syms) - unat (kernel_start syms) + 0x1000000) div 2 ^ 30) 2"

definition idmap_ready :: "linker_symbols \<Rightarrow> ('h, 'm) machine_scheme \<Rightarrow> bool" where
  "idmap_ready syms s \<longleftrightarrow>
     kernel_start syms \<le> ls_stack_top syms \<and> mapped_gib syms \<le> 512 \<and>
     take_bit 12 (idmap_l1 syms) = 0 \<and> unat (idmap_l1 syms) + 4096 \<le> 2 ^ 48 \<and>
     pte_at (ram s) (idmap_l0 syms) 0 \<and>
     (\<forall>i < mapped_gib syms. (\<exists>v. pte_at (ram s) (l1_entry syms i) v) \<and> apart (l1_entry syms i) (idmap_l0 syms))"

lemma effect_set_pte: "effect ops (set_pte p v s) = set_pte p v (effect ops s)"
  by (simp add: effect_def set_pte_def)

lemma set_pte_keeps [simp]:
  "bus (set_pte p v s) = bus s" "spin (set_pte p v s) = spin s" "UART (set_pte p v k) = UART k"
  by (simp_all add: set_pte_def)

lemma sent_set_pte: "sent bytes (set_pte p v s) = set_pte p v (sent bytes s)"
  by (simp add: sent_def effect_def set_pte_def)

lemma tx_ready_set_pte [simp]: "tx_ready (set_pte p v s) = tx_ready s"
  by (simp add: tx_ready_def)

lemma sent_with_blocks: "sent bytes (with_blocks syms is s) = with_blocks syms is (sent bytes s)"
  unfolding with_blocks_def by (induction "is" arbitrary: s) (simp_all add: sent_set_pte)

lemma effect_with_blocks: "effect ops (with_blocks syms is s) = with_blocks syms is (effect ops s)"
  unfolding with_blocks_def by (induction "is" arbitrary: s) (simp_all add: effect_set_pte)

definition mmu_program :: "linker_symbols \<Rightarrow> regop list" where
  "mmu_program syms =
     [Msr TTBR0_EL1 (idmap_l0 syms), Fence ISB_SY, Fence TLBI_VMALLE1, Fence DSB_NSH, Fence ISB_SY,
      Msr TCR_EL1 0x480903510, Fence ISB_SY, ModifySys SCTLR_EL1 (set_bit 0), Fence ISB_SY]"

lemma mmu_program_eq: "seq_M (load_ttbr0 (idmap_l0 syms)) enable_mmu s = (Inr (), effect (mmu_program syms) s)"
proof -
  have set: "(\<lambda>v :: u64. v OR 1) = set_bit 0" by (simp add: set_bit_eq_or fun_eq_iff)
  let ?t = "effect [Msr TTBR0_EL1 (idmap_l0 syms), Fence ISB_SY, Fence TLBI_VMALLE1, Fence DSB_NSH, Fence ISB_SY,
      Msr TCR_EL1 0x480903510, Fence ISB_SY] s"
  have "bind_M (mrs SCTLR_EL1) (\<lambda>tmp. seq_M (msr SCTLR_EL1 (tmp OR 1)) (barrier ISB_SY)) ?t =
      (Inr (), effect [ModifySys SCTLR_EL1 (set_bit 0), Fence ISB_SY] ?t)"
    using modify_sys_program [of SCTLR_EL1 "\<lambda>v. v OR 1" ISB_SY ?t] unfolding set .
  then show ?thesis
    by (simp add: load_ttbr0_def enable_mmu_def configure_tcr_def Let_def SCTLR_ELX_MMU_def mmu_program_def
        msr_effect barrier_effect)
qed

definition idmap_text :: "linker_symbols \<Rightarrow> string" where
  "idmap_text syms = (''idmap_l0 addr '' @ fmt_pointer (idmap_l0 syms) @ ''\<newline>'') @
     (''idmap_l1 addr '' @ fmt_pointer (idmap_l1 syms) @ ''\<newline>'')"

lemma max_pages:
  assumes "kernel_start syms \<le> ls_stack_top syms" and "mapped_gib syms \<le> 512"
  shows "unat (ls_stack_top syms - kernel_start syms) + unat (0x1000000 :: u64) < 2 ^ LENGTH(64)"
    and "unat (max ((ls_stack_top syms - kernel_start syms + 0x1000000) div L1_SIZE_PER_ENTRY) 2) = mapped_gib syms"
proof -
  let ?r = "ls_stack_top syms - kernel_start syms"
  have r: "unat ?r = unat (ls_stack_top syms) - unat (kernel_start syms)"
    using assms(1) by (simp add: unat_sub word_le_nat_alt)
  have "(unat ?r + 0x1000000) div 2 ^ 30 < 513" using assms(2) by (simp add: mapped_gib_def r)
  then have small: "unat ?r + 0x1000000 < 2 ^ 40" unfolding div_less_iff_less_mult [OF zero_less_power [OF zero_less_numeral]] by simp
  then show fits: "unat ?r + unat (0x1000000 :: u64) < 2 ^ LENGTH(64)" by simp
  then have sum: "unat (?r + 0x1000000) = unat ?r + 0x1000000" using unat_add_lem [of ?r "0x1000000"] by simp
  have max: "unat (max a b) = max (unat a) (unat b)" for a b :: u64
    by (simp add: max_def word_le_nat_alt)
  show "unat (max ((?r + 0x1000000) div L1_SIZE_PER_ENTRY) 2) = mapped_gib syms"
    unfolding max unat_div_distrib sum by (simp add: L1_SIZE_PER_ENTRY_def mapped_gib_def r)
qed

lemma setup_identity_mapping_eq:
  assumes ready: "idmap_ready syms s" and tx: "tx_ready s"
  shows "setup_identity_mapping syms s =
    (Inr (), effect (mmu_program syms) (sent (str_bytes (idmap_text syms))
       (with_blocks syms [0..<mapped_gib syms] (set_pte (idmap_l0 syms) (table_desc (idmap_l1 syms)) s))))"
proof -
  let ?l0 = "idmap_l0 syms" and ?n = "mapped_gib syms"
  let ?s0 = "sent (str_bytes (''idmap_l0 addr '' @ fmt_pointer ?l0 @ ''\<newline>'')) s"
  let ?s1 = "sent (str_bytes (idmap_text syms)) s"
  note r = ready [unfolded idmap_ready_def]
  have l0: "pte_at (ram ?s0) ?l0 0" using r by simp
  have or0: "or_pte ?l0 3 ?s0 = (Inr (), set_pte ?l0 (0 OR 3) ?s0)" by (rule or_pte_at [OF l0])
  let ?s2 = "set_pte ?l0 (table_desc (idmap_l1 syms)) ?s1"
  have "unat (idmap_l1 syms) + 8 * ?n \<le> 2 ^ 64" using r by simp
  moreover have "\<forall>i < ?n. \<exists>v. pte_at (ram ?s2) (l1_entry syms i) v"
  proof (intro allI impI)
    fix i assume "i < ?n"
    then have "apart ?l0 (l1_entry syms i)" using r by (auto simp: apart_def)
    then show "\<exists>v. pte_at (ram ?s2) (l1_entry syms i) v" using r \<open>i < ?n\<close> by simp
  qed
  ultimately obtain j where loop: "fold_M (map_block syms) [0..<?n] 0 ?s2 = (Inr j, with_blocks syms [0..<?n] ?s2)"
    using map_blocks_eq [of syms ?n 0 0 ?s2] r by auto
  have l0_steps: "block_M [println (''idmap_l0 addr '' @ fmt_pointer ?l0), mark_table_desc ?l0,
      set_table_attrs ?l0 (TABLE_UXNTABLE OR TABLE_APTABLE0), println (''idmap_l1 addr '' @ fmt_pointer (idmap_l1 syms)),
      set_next_lvl_table_addr ?l0 (idmap_l1 syms)] s = (Inr (), ?s2)"
    using or0 tx by (simp add: println_sent mark_page_desc_def set_table_attrs_def set_next_lvl_table_addr_def
        or_pte_upd sent_set_pte idmap_text_def table_desc_def or.assoc)
  have rest: "block_M [bind_M (fold_M (map_block syms) [0..<?n] 0) (\<lambda>_. return_M ()), load_ttbr0 ?l0, enable_mmu] ?s2 =
      (Inr (), effect (mmu_program syms) (with_blocks syms [0..<?n] ?s2))"
    using loop mmu_program_eq [of syms "with_blocks syms [0..<?n] ?s2"] by simp
  have sub: "checked_sub (0x09000000 :: u64) 0x08000000 = (return_M 0x1000000 :: (('a, 'b) kernel_scheme, u64) M)"
    by simp
  have "L1_SIZE_PER_ENTRY \<noteq> 0" by (simp add: L1_SIZE_PER_ENTRY_def)
  then have "setup_identity_mapping syms s =
      seq_M (block_M [println (''idmap_l0 addr '' @ fmt_pointer ?l0), mark_table_desc ?l0,
        set_table_attrs ?l0 (TABLE_UXNTABLE OR TABLE_APTABLE0), println (''idmap_l1 addr '' @ fmt_pointer (idmap_l1 syms)),
        set_next_lvl_table_addr ?l0 (idmap_l1 syms)])
       (block_M [bind_M (fold_M (map_block syms) [0..<?n] 0) (\<lambda>_. return_M ()), load_ttbr0 ?l0, enable_mmu]) s"
    using r max_pages [of syms]
    by (simp add: setup_identity_mapping_def sub seq_M_assoc)
  also have "\<dots> = (Inr (), effect (mmu_program syms) (with_blocks syms [0..<?n] ?s2))"
    using l0_steps rest by (simp del: block_M.simps)
  finally show ?thesis by (simp add: sent_with_blocks sent_set_pte)
qed

text \<open>The attributes of a block descriptor: device memory below 1 GiB, normal memory above.\<close>

definition block_attrs :: "u64 \<Rightarrow> u64 \<Rightarrow> bool" where
  "block_attrs va d \<longleftrightarrow>
     take_bit 3 (drop_bit 2 d) = (if unat va < 2 ^ 30 then 0 else 2) \<and>
     bit d 54 \<and> bit d 53 = (unat va < 2 ^ 30) \<and> bit d 10 \<and>
     take_bit 2 (drop_bit 8 d) = (if unat va < 2 ^ 30 then 0 else 3) \<and> take_bit 2 (drop_bit 6 d) = 0"

lemma identity_walk:
  assumes "idmap_ready syms s" and va: "unat va < mapped_gib syms * 2 ^ 30"
    and t: "ram t = ram (with_blocks syms [0..<mapped_gib syms] (set_pte (idmap_l0 syms) (table_desc (idmap_l1 syms)) s))"
  shows "\<exists>d. translate (ram t) (idmap_l0 syms) va = Some (va, d) \<and> block_attrs va d"
proof (intro exI conjI)
  let ?n = "mapped_gib syms" and ?l1 = "idmap_l1 syms" and ?i = "unat va div 2 ^ 30"
  let ?d = "block_desc ?i (min ?i 1)"
  note r = assms(1) [unfolded idmap_ready_def]
  have bound: "unat ?l1 + 8 * ?n \<le> 2 ^ 64" using r by simp
  have l0: "pte_at (ram t) (idmap_l0 syms) (table_desc ?l1)" unfolding t using r by (subst with_blocks_other) simp_all
  have l1: "\<forall>i < ?n. pte_at (ram t) (?l1 + 8 * of_nat i) (block_desc i (min i 1))"
    unfolding t using entries_apart [OF bound] by (intro allI impI with_blocks_entry) simp_all
  have "unat (drop_bit 48 ?l1) = 0" unfolding unat_drop_bit using r by simp
  then have hi: "drop_bit 48 ?l1 = 0" by (simp only: unat_eq_zero)
  show "translate (ram t) (idmap_l0 syms) va = Some (va, ?d)"
    using r by (intro translate_identity [OF l0 _ hi _ l1 va]) simp_all
  have i: "?i < 512" using va r by (simp add: div_less_iff_less_mult)
  have "min ?i 1 = 0 \<longleftrightarrow> ?i = 0" by linarith
  also have "\<dots> \<longleftrightarrow> unat va < 2 ^ 30" by (simp add: div_eq_0_iff)
  finally have first: "min ?i 1 = 0 \<longleftrightarrow> unat va < 2 ^ 30" .
  show "block_attrs va ?d"
    using block_desc_fields [OF i, of "min ?i 1"] unfolding first block_attrs_def by simp
qed

lemma UART_with_blocks: "UART (with_blocks syms is s) = UART s"
  unfolding with_blocks_def by (induction "is" arbitrary: s) simp_all

section \<open>Properties\<close>

text \<open>
  C9. The identity mapping maps every address to itself. If the level 0 entry is clear, the tables are in memory and the
  level 1 table is page-aligned and does not overlap the level 0 entry, \<open>setup_identity_mapping\<close> returns with the MMU
  on, and under the tables it has built the hardware translates every address below \<open>n\<close> GiB to itself, where \<open>n\<close> is
  at least 2. Below 1 GiB the memory is device memory that cannot be executed; above, it is normal
  cacheable memory that only EL1 can execute, inner shareable. All of it is accessible from EL1 only and has its access flag set.
\<close>

theorem identity_mapping_translates:
  assumes "idmap_ready syms s" and "tx_ready s"
  shows "\<exists>t tx. setup_identity_mapping syms s = (Inr (), effect (tx @
      [Msr TTBR0_EL1 (idmap_l0 syms), Fence ISB_SY, Fence TLBI_VMALLE1, Fence DSB_NSH, Fence ISB_SY,
       Msr TCR_EL1 0x480903510, Fence ISB_SY, ModifySys SCTLR_EL1 (set_bit 0), Fence ISB_SY]) t) \<and>
    transmits (putchar_base (UART s)) (str_bytes (idmap_text syms)) tx \<and>
    2 \<le> mapped_gib syms \<and>
    (\<forall>va. unat va < mapped_gib syms * 2 ^ 30 \<longrightarrow>
       (\<exists>d. translate (ram t) (idmap_l0 syms) va = Some (va, d) \<and>
          take_bit 3 (drop_bit 2 d) = (if unat va < 2 ^ 30 then 0 else 2) \<and>
          bit d 54 \<and> bit d 53 = (unat va < 2 ^ 30) \<and> bit d 10 \<and>
          take_bit 2 (drop_bit 8 d) = (if unat va < 2 ^ 30 then 0 else 3) \<and> take_bit 2 (drop_bit 6 d) = 0))"
proof -
  let ?t = "with_blocks syms [0..<mapped_gib syms] (set_pte (idmap_l0 syms) (table_desc (idmap_l1 syms)) s)"
  have "UART ?t = UART s" by (simp add: UART_with_blocks)
  then obtain tx where tx: "sent (str_bytes (idmap_text syms)) ?t = effect tx ?t"
    "transmits (putchar_base (UART s)) (str_bytes (idmap_text syms)) tx"
    using sent_transmits [of "str_bytes (idmap_text syms)" ?t] by auto
  have run: "setup_identity_mapping syms s = (Inr (), effect (tx @
      [Msr TTBR0_EL1 (idmap_l0 syms), Fence ISB_SY, Fence TLBI_VMALLE1, Fence DSB_NSH, Fence ISB_SY,
       Msr TCR_EL1 0x480903510, Fence ISB_SY, ModifySys SCTLR_EL1 (set_bit 0), Fence ISB_SY]) ?t)"
    using setup_identity_mapping_eq [OF assms] unfolding mmu_program_def tx(1) by simp
  have "2 \<le> mapped_gib syms" by (simp add: mapped_gib_def)
  with run tx(2) identity_walk [OF assms(1) _ refl] show ?thesis
    unfolding block_attrs_def by (intro exI [of _ ?t] exI [of _ tx]) blast
qed

definition idmap_example_syms :: linker_symbols where
  "idmap_example_syms =
     \<lparr>kernel_start = 0x50000000, ls_stack_top = 0x50100000, idmap_l0 = 0x50101000, idmap_l1 = 0x50102000\<rparr>"

definition idmap_example :: "store_hw kernel" where
  "idmap_example = uart_example_tx\<lparr>ram := (\<lambda>a. if 0x50101000 \<le> a \<and> a < 0x50103000 then Some 0 else None)\<rparr>"

lemma idmap_example_gib: "mapped_gib idmap_example_syms = 2"
  by (simp add: mapped_gib_def idmap_example_syms_def)

lemma idmap_example_ready: "idmap_ready idmap_example_syms idmap_example"
proof -
  have zero: "to_le_bytes (0 :: u64) = [0, 0, 0, 0, 0, 0, 0, 0]" by (simp add: to_le_bytes_def upt_rec)
  have "pte_at (ram idmap_example) 0x50101000 0" "pte_at (ram idmap_example) 0x50102000 0" "pte_at (ram idmap_example) 0x50102008 0"
    by (simp_all add: pte_at_def zero idmap_example_def)
  moreover have "apart 0x50102000 0x50101000" "apart 0x50102008 0x50101000" by (simp_all add: apart_def)
  ultimately show ?thesis
    unfolding idmap_ready_def idmap_example_gib
    by (auto simp: idmap_example_syms_def less_2_cases_iff)
qed

theorem identity_mapping_translates_witness:
  "\<exists>t d. setup_identity_mapping idmap_example_syms idmap_example = (Inr (), t) \<and>
     translate (ram t) 0x50101000 0x9000000 = Some (0x9000000, d) \<and> bit d 53"
proof -
  have pre: "tx_ready idmap_example"
    using tx_ready_example by (simp add: idmap_example_def tx_ready_def)
  obtain ops t where run: "setup_identity_mapping idmap_example_syms idmap_example = (Inr (), effect ops t)"
    and walk: "\<forall>va. unat va < mapped_gib idmap_example_syms * 2 ^ 30 \<longrightarrow>
       (\<exists>d. translate (ram t) (idmap_l0 idmap_example_syms) va = Some (va, d) \<and> bit d 53 = (unat va < 2 ^ 30))"
    using identity_mapping_translates [OF idmap_example_ready pre] by (metis (no_types, lifting))
  have "\<exists>d. translate (ram t) 0x50101000 0x9000000 = Some (0x9000000, d) \<and> bit d 53"
    using walk [rule_format, of "0x9000000"] by (simp add: idmap_example_gib) (simp add: idmap_example_syms_def)
  with run show ?thesis by auto
qed

definition mair_program :: "regop list" where
  "mair_program =
     [ModifySys MAIR_EL1 (\<lambda>v. v OR 0), Fence ISB_SY, ModifySys MAIR_EL1 (\<lambda>v. v OR 0xFF0000), Fence ISB_SY,
      ModifySys MAIR_EL1 (\<lambda>v. v OR 0x4400), Fence ISB_SY]"

lemma setup_mair_ranges_eq: "setup_mair_ranges s = (Inr (), effect mair_program s)"
proof -
  have conf: "configure_mair_range conf k s = (Inr (), effect [ModifySys MAIR_EL1 (\<lambda>v. v OR push_bit (k * 8) conf), Fence ISB_SY] s)"
    if "k * 8 < 64" for conf k and s :: "('a, 'b) machine_scheme"
    using modify_sys_program [of MAIR_EL1 "\<lambda>v. v OR push_bit (k * 8) conf" ISB_SY s] that
    by (simp add: configure_mair_range_def)
  show ?thesis by (simp add: setup_mair_ranges_def conf mm_bits mair_program_def)
qed

text \<open>
  The memory attributes. The three calls of \<open>setup_mair_ranges\<close> read and write the attribute register three times, each followed
  by a barrier; starting from a clear register they leave device memory in slot 0, non-cacheable memory in
  slot 1 and write-back memory in slot 2, the slots that the descriptors of the identity mapping refer to.
\<close>

lemma mair_slots:
  "setup_mair_ranges s = (Inr (), effect
     [ModifySys MAIR_EL1 (\<lambda>v. v OR 0), Fence ISB_SY, ModifySys MAIR_EL1 (\<lambda>v. v OR 0xFF0000), Fence ISB_SY,
      ModifySys MAIR_EL1 (\<lambda>v. v OR 0x4400), Fence ISB_SY] s) \<and>
   to_le_bytes (((0 OR 0) OR 0xFF0000) OR 0x4400 :: u64) = [0x00, 0x44, 0xFF, 0, 0, 0, 0, 0]"
  by (simp add: setup_mair_ranges_eq mair_program_def) (simp add: to_le_bytes_def upt_rec)

text \<open>
  The translation control word. The value written selects 48-bit addresses for both halves (T0SZ = T1SZ = 16), a 4 KiB
  granule, inner-shareable write-back table walks, no walks through TTBR1, and a 44-bit physical address space (IPS = 4).
\<close>

lemma tcr_fields:
  "\<exists>tcr. configure_tcr s = (Inr (), effect [Msr TCR_EL1 tcr, Fence ISB_SY] s) \<and>
     take_bit 6 tcr = 16 \<and> take_bit 2 (drop_bit 8 tcr) = 1 \<and> take_bit 2 (drop_bit 10 tcr) = 1 \<and>
     take_bit 2 (drop_bit 12 tcr) = 3 \<and> take_bit 2 (drop_bit 14 tcr) = 0 \<and> take_bit 6 (drop_bit 16 tcr) = 16 \<and>
     bit tcr 23 \<and> take_bit 2 (drop_bit 30 tcr) = 2 \<and> take_bit 3 (drop_bit 32 tcr) = 4"
  by (rule exI [of _ "0x480903510"]) (simp add: configure_tcr_def msr_effect barrier_effect)

end
