(* ===== verification/Vectors.thy ===== *)
theory Vectors
  imports Mm
begin

text \<open>
  The entry code that calls the handlers of \<^verbatim>\<open>irq.rs\<close>: \<^verbatim>\<open>src/asm/vectors.S\<close> with the macros of
  \<^verbatim>\<open>include/asm/macro.h\<close>. A frame is the list of the saved 64-bit words from the final stack pointer upwards.
  It is read by \<^verbatim>\<open>irq.rs\<close> through a pointer to \<open>Regs\<close>.
\<close>

section \<open>The saved frame\<close>

text \<open>\<open>stp a, b, [sp, #-16]!\<close>\<close>

definition stp_push :: "u64 \<times> u64 \<Rightarrow> u64 list \<Rightarrow> u64 list" where
  "stp_push p stk = fst p # snd p # stk"

text \<open>The pairs that the vector and \<open>save_gpr_regs_on_exc\<close> push, in order, for registers \<open>x\<close> (\<open>x ! n\<close> is \<open>xn\<close>).\<close>

definition gpr_pairs :: "u64 list \<Rightarrow> (u64 \<times> u64) list" where
  "gpr_pairs x =
     [(x ! 29, x ! 30), (x ! 27, x ! 28), (x ! 25, x ! 26), (x ! 23, x ! 24), (x ! 21, x ! 22),
      (x ! 19, x ! 20), (x ! 17, x ! 18), (x ! 15, x ! 16), (x ! 13, x ! 14), (x ! 11, x ! 12),
      (x ! 9, x ! 10), (x ! 7, x ! 8), (x ! 5, x ! 6), (x ! 3, x ! 4), (x ! 1, x ! 2), (x ! 0, 0)]"

definition save_regs :: "u64 list \<Rightarrow> u64 \<Rightarrow> u64 \<Rightarrow> u64 \<Rightarrow> u64 list \<Rightarrow> u64 list" where
  "save_regs x esr elr spsr stk =
     stp_push (elr, spsr) (stp_push (esr, 0) (fold stp_push (gpr_pairs x) stk))"

text \<open>What a handler sees through its \<open>&Regs\<close>: the fields of the \<open>repr(C)\<close> structure, eight bytes apart.\<close>

definition regs_of_frame :: "u64 list \<Rightarrow> regs" where
  "regs_of_frame f =
     \<lparr>r_spsr = f ! 0, r_elr = f ! 1, r_esr = f ! 2, r_xzr = f ! 3, r_x0 = f ! 4, r_x1 = f ! 5,
      r_x2 = f ! 6, r_x3 = f ! 7, r_x4 = f ! 8, r_x5 = f ! 9, r_x6 = f ! 10, r_x7 = f ! 11, r_x8 = f ! 12,
      r_x9 = f ! 13, r_x10 = f ! 14, r_x11 = f ! 15, r_x12 = f ! 16, r_x13 = f ! 17, r_x14 = f ! 18,
      r_x15 = f ! 19, r_x16 = f ! 20, r_x17 = f ! 21, r_x18 = f ! 22, r_x19 = f ! 23, r_x20 = f ! 24,
      r_x21 = f ! 25, r_x22 = f ! 26, r_x23 = f ! 27, r_x24 = f ! 28, r_x25 = f ! 29, r_x26 = f ! 30,
      r_x27 = f ! 31, r_x28 = f ! 32, r_x29 = f ! 33, r_x30 = f ! 34\<rparr>"

section \<open>Dispatch\<close>

definition IS_SVC_MASK :: u32 where "IS_SVC_MASK = 0x15"

text \<open>
  \<open>sync_handler\<close>: \<open>x1\<close> holds the syndrome. The value in \<open>x0\<close> at the end is the result of the call.
\<close>

definition sync_handler :: "u64 list \<Rightarrow> u64 \<Rightarrow> (('h, 'm) kernel_scheme, u64 option) M" where
  "sync_handler frame esr =
     (let w1 = (ucast (drop_bit 26 esr) :: u32) AND IS_SVC_MASK in
      if w1 = 0 then bind_M (unimplemented_sync w1) (\<lambda>_. return_M None)
      else bind_M (do_sync (ucast (frame ! (104 div 8)))) (\<lambda>r. return_M (Some r)))"

definition irq_handler :: "(('h, 'm) kernel_scheme, unit) M" where
  "irq_handler =
     bind_M (mrs ICC_IAR1_EL1) (\<lambda>x0.
     bind_M (do_irq (ucast x0)) (\<lambda>intid.
     msr ICC_EOIR1_EL1 (ucast intid)))"

text \<open>The vector table: which handler an exception reaches, by where it comes from and its kind, with a pointer to the saved frame.\<close>

datatype vector =
    SP0_Sync | SP0_IRQ | SP0_FIQ | SP0_SError
  | SPx_Sync | SPx_IRQ | SPx_FIQ | SPx_SError

fun evt :: "vector \<Rightarrow> u64 list \<Rightarrow> u64 \<Rightarrow> (('h, 'm) kernel_scheme, u64 option) M" where
  "evt SP0_Sync frame esr = do_bad_sync (regs_of_frame frame)"
| "evt SP0_IRQ frame esr = do_bad_irq (regs_of_frame frame)"
| "evt SP0_FIQ frame esr = do_bad_fiq (regs_of_frame frame)"
| "evt SP0_SError frame esr = do_bad_serror (regs_of_frame frame)"
| "evt SPx_Sync frame esr = sync_handler frame esr"
| "evt SPx_IRQ frame esr = seq_M irq_handler (return_M None)"
| "evt SPx_FIQ frame esr = do_fiq (regs_of_frame frame)"
| "evt SPx_SError frame esr = do_serror (regs_of_frame frame)"

text \<open>
  Leaving: \<open>ldp a, b, [sp], #16\<close> loads two registers, where no number stands for \<open>xzr\<close>. The registers on entry to the
  exit code are \<open>y\<close>; the result is the registers, \<open>elr\<close>, \<open>spsr\<close> and the stack at the \<open>eret\<close>. Both exits drop two words with
  \<open>ldp xzr, xzr\<close>, which the architecture leaves constrained unpredictable because the two targets are the same; the model
  takes the outcome that the code counts on.
\<close>

definition load_reg :: "nat option \<Rightarrow> u64 \<Rightarrow> u64 list \<Rightarrow> u64 list" where
  "load_reg r v x = (case r of None \<Rightarrow> x | Some n \<Rightarrow> x[n := v])"

definition ldp_pop :: "nat option \<times> nat option \<Rightarrow> u64 list \<times> u64 list \<Rightarrow> u64 list \<times> u64 list" where
  "ldp_pop p c = (load_reg (snd p) (snd c ! 1) (load_reg (fst p) (snd c ! 0) (fst c)), drop 2 (snd c))"

definition restore_pairs :: "(nat option \<times> nat option) list" where
  "restore_pairs =
     [(Some 1, Some 2), (Some 3, Some 4), (Some 5, Some 6), (Some 7, Some 8), (Some 9, Some 10),
      (Some 11, Some 12), (Some 13, Some 14), (Some 15, Some 16), (Some 17, Some 18), (Some 19, Some 20),
      (Some 21, Some 22), (Some 23, Some 24), (Some 25, Some 26), (Some 27, Some 28), (Some 29, Some 30)]"

definition leave_frame :: "nat option \<Rightarrow> u64 list \<Rightarrow> u64 list \<Rightarrow> u64 list \<times> u64 \<times> u64 \<times> u64 list" where
  "leave_frame x0 y stk =
     (let c = fold ldp_pop [(Some 3, Some 2), (None, None)] (y, stk);
          d = fold ldp_pop ((x0, None) # restore_pairs) c
      in (fst d, fst c ! 3, fst c ! 2, snd d))"

definition exception_exit :: "u64 list \<Rightarrow> u64 list \<Rightarrow> u64 list \<times> u64 \<times> u64 \<times> u64 list" where
  "exception_exit y stk = leave_frame (Some 0) y stk"

definition sync_exit :: "u64 list \<Rightarrow> u64 list \<Rightarrow> u64 list \<times> u64 \<times> u64 \<times> u64 list" where
  "sync_exit y stk = leave_frame None y stk"

section \<open>Properties\<close>

lemma save_regs_layout:
  "save_regs x esr elr spsr stk =
     [elr, spsr, esr, 0, x ! 0, 0, x ! 1, x ! 2, x ! 3, x ! 4, x ! 5, x ! 6, x ! 7, x ! 8, x ! 9, x ! 10,
      x ! 11, x ! 12, x ! 13, x ! 14, x ! 15, x ! 16, x ! 17, x ! 18, x ! 19, x ! 20, x ! 21, x ! 22,
      x ! 23, x ! 24, x ! 25, x ! 26, x ! 27, x ! 28, x ! 29, x ! 30] @ stk"
  by (simp add: save_regs_def gpr_pairs_def stp_push_def)

text \<open>Only the synchronous and the interrupt vector of the kernel's own stack ever come back.\<close>

lemma evt_returns: "evt v frame esr s = (Inr r, t) \<Longrightarrow> v = SPx_Sync \<or> v = SPx_IRQ"
proof -
  assume "evt v frame esr s = (Inr r, t)"
  then have "fst (evt v frame esr s) = Inr r" by simp
  then show ?thesis
    by (cases v) (simp_all add: do_bad_sync_def do_bad_irq_def do_bad_fiq_def do_bad_serror_def do_fiq_def do_serror_def
        never_returns)
qed

lemma registers_listed:
  assumes "length x = 31"
  shows "x = [x ! 0, x ! 1, x ! 2, x ! 3, x ! 4, x ! 5, x ! 6, x ! 7, x ! 8, x ! 9, x ! 10,
      x ! 11, x ! 12, x ! 13, x ! 14, x ! 15, x ! 16, x ! 17, x ! 18, x ! 19, x ! 20, x ! 21, x ! 22,
      x ! 23, x ! 24, x ! 25, x ! 26, x ! 27, x ! 28, x ! 29, x ! 30]"
proof -
  have upt: "[0..<31] = [0, 1, 2, 3, 4, 5, 6, 7, 8, 9, 10, 11, 12, 13, 14, 15, 16, 17, 18, 19, 20, 21, 22,
      23, 24, 25, 26, 27, 28, 29, 30 :: nat]" by code_simp
  have "x = map (nth x) [0..<31]" by (simp add: map_nth flip: assms)
  then show ?thesis unfolding upt list.map .
qed

text \<open>
  C36. The handlers see the registers in the wrong places. The entry code saves \<open>elr\<close> below \<open>spsr\<close> and pads \<open>x0\<close> with a zero
  word; the structure \<open>Regs\<close> expects \<open>spsr\<close> first and no padding. So the fields \<open>spsr\<close> and \<open>elr\<close>
  are swapped, \<open>x1\<close> reads as zero, and every \<open>xn\<close> from \<open>x2\<close> on shows the value of \<open>x(n-1)\<close>; the
  faulting instruction is looked up at the address in \<open>spsr\<close>. Only \<open>esr\<close> and \<open>x0\<close> are right.
\<close>

theorem saved_frame_misread:
  "\<exists>r. r = regs_of_frame (save_regs x esr elr spsr stk) \<and>
     r_spsr r = elr \<and> r_elr r = spsr \<and> r_esr r = esr \<and> r_x0 r = x ! 0 \<and> r_x1 r = 0 \<and>
     [r_x2 r, r_x3 r, r_x4 r, r_x5 r, r_x6 r, r_x7 r, r_x8 r, r_x9 r, r_x10 r, r_x11 r, r_x12 r, r_x13 r, r_x14 r,
      r_x15 r, r_x16 r, r_x17 r, r_x18 r, r_x19 r, r_x20 r, r_x21 r, r_x22 r, r_x23 r, r_x24 r, r_x25 r, r_x26 r,
      r_x27 r, r_x28 r, r_x29 r, r_x30 r] =
     [x ! 1, x ! 2, x ! 3, x ! 4, x ! 5, x ! 6, x ! 7, x ! 8, x ! 9, x ! 10, x ! 11, x ! 12, x ! 13, x ! 14,
      x ! 15, x ! 16, x ! 17, x ! 18, x ! 19, x ! 20, x ! 21, x ! 22, x ! 23, x ! 24, x ! 25, x ! 26, x ! 27,
      x ! 28, x ! 29]"
  by (simp add: save_regs_layout regs_of_frame_def)

text \<open>
  C21. Saving and restoring are inverse. Whatever the registers hold when the handler is done, leaving an exception puts back all 31
  registers, \<open>elr\<close>, \<open>spsr\<close> and the stack as they were on entry. The exit of a synchronous exception does the same except for
  \<open>x0\<close>, which keeps what the handler left in it: the result of the system call, but also, for an exception that was reported as
  unimplemented, whatever the reporting code happened to leave there.
\<close>

theorem exception_exit_inverts_save:
  assumes "length x = 31" and "length y = 31"
  shows "exception_exit y (save_regs x esr elr spsr stk) = (x, elr, spsr, stk) \<and>
    sync_exit y (save_regs x esr elr spsr stk) = (x[0 := y ! 0], elr, spsr, stk)"
proof -
  have leave: "leave_frame r y (save_regs x esr elr spsr stk) = (load_reg r (x ! 0) (x[0 := y ! 0]), elr, spsr, stk)"
    if "r = Some 0 \<or> r = None" for r
    using that
    by (subst (3) registers_listed [OF assms(1)], subst registers_listed [OF assms(2)])
      (auto simp: save_regs_layout leave_frame_def ldp_pop_def load_reg_def restore_pairs_def)
  show ?thesis
    using assms(1) by (simp add: exception_exit_def sync_exit_def leave load_reg_def)
qed

theorem exception_exit_inverts_save_witness:
  "exception_exit (replicate 31 9) (save_regs (map of_nat [0..<31]) 2 0x40000000 0x3c5 [77]) =
     (map of_nat [0..<31], 0x40000000, 0x3c5, [77])"
  using exception_exit_inverts_save [of "map of_nat [0..<31]" "replicate 31 9" 2 "0x40000000" "0x3c5" "[77]"] by simp

text \<open>The exception classes without the bits 0, 2 and 4.\<close>

lemma svc_mask_classes:
  fixes w :: u64
  shows "w AND 0x15 = 0 \<longleftrightarrow> unat (take_bit 6 w) \<in> {0x00, 0x02, 0x08, 0x0A, 0x20, 0x22, 0x28, 0x2A}"
proof -
  have table: "\<forall>k \<in> set [0..<64]. (k AND (21 :: nat) = 0) = (k \<in> {0x00, 0x02, 0x08, 0x0A, 0x20, 0x22, 0x28, 0x2A})" by code_simp
  have "w AND 0x15 = take_bit 6 w AND 0x15" by (simp add: take_bit_eq_mask mask_eq_exp_minus_1 and.assoc)
  then have "unat (w AND 0x15) = unat (take_bit 6 w) AND 21" by (simp only: unsigned_and_eq) simp
  moreover have "unat (take_bit 6 w) < 64" unfolding unsigned_take_bit_eq by (simp add: take_bit_eq_mod)
  ultimately show ?thesis using table by (simp only: unat_eq_zero [symmetric] set_upt) force
qed

text \<open>
  C37. Which synchronous exceptions are taken for system calls. The test is a bitwise mask, not a comparison with the class of SVC
  (\<open>0x15\<close>). Only the eight classes that have none of the mask's bits are reported as unimplemented: \<open>0x00\<close>, \<open>0x02\<close>, \<open>0x08\<close>, \<open>0x0A\<close>, \<open>0x20\<close> (an
  instruction abort from a lower level), \<open>0x22\<close> (a misaligned program counter), \<open>0x28\<close> and \<open>0x2A\<close>; whichever of them it was, the handler is given class 0 and reports
  an unknown reason. All the other 56 classes, such as data and instruction aborts of the kernel itself (\<open>0x25\<close>, \<open>0x21\<close>), an illegal state
  (\<open>0x0E\<close>) or a \<open>BRK\<close> (\<open>0x3C\<close>), are treated as a system call: \<open>do_sync\<close> prints the low word of \<open>x8\<close> as its number and returns 0.
\<close>

theorem sync_dispatch:
  "sync_handler (save_regs x esr elr spsr stk) esr s =
     (if unat (take_bit 6 (drop_bit 26 esr)) \<in> {0x00, 0x02, 0x08, 0x0A, 0x20, 0x22, 0x28, 0x2A}
      then seq_M (println ''Unimplemented synchronous exception: Unknown reason'') (return_M None)
      else seq_M (println (''Requested syscall: '' @ fmt_dec (ucast (x ! 8) :: u32))) (return_M (Some 0))) s"
proof -
  have frame: "save_regs x esr elr spsr stk ! 13 = x ! 8" by (simp add: save_regs_layout)
  have "(ucast (drop_bit 26 esr) :: u32) AND 0x15 = ucast (drop_bit 26 esr AND 0x15)" by (simp add: unsigned_and_eq)
  moreover have "unat (drop_bit 26 esr AND 0x15) < 2 ^ 32"
    using word_and_le1 [of "drop_bit 26 esr" "0x15"] by (simp add: word_le_nat_alt)
  ultimately have "(ucast (drop_bit 26 esr) :: u32) AND 0x15 = 0 \<longleftrightarrow> drop_bit 26 esr AND 0x15 = 0"
    by (simp add: word_unat_eq_iff unsigned_ucast_eq take_bit_nat_eq_self)
  note mask = this [unfolded svc_mask_classes]
  have none: "bind_M (unimplemented_sync 0) (\<lambda>_. return_M None) =
      seq_M (println ''Unimplemented synchronous exception: Unknown reason'') (return_M None)"
    by (simp add: unimplemented_sync_def exception_kind_def seq_M_def)
  have call: "bind_M (do_sync n) (\<lambda>r. return_M (Some r)) =
      seq_M (println (''Requested syscall: '' @ fmt_dec n)) (return_M (Some 0))" for n
    unfolding do_sync_def seq_M_def by (simp add: fun_eq_iff bind_M_def split: prod.splits sum.splits)
  show ?thesis
  proof (cases "(ucast (drop_bit 26 esr) :: u32) AND 0x15 = 0")
    case True
    then have "sync_handler (save_regs x esr elr spsr stk) esr s = bind_M (unimplemented_sync 0) (\<lambda>_. return_M None) s"
      by (simp only: sync_handler_def IS_SVC_MASK_def Let_def simp_thms if_True)
    with True show ?thesis unfolding mask none by (simp only: if_True)
  next
    case False
    then have "sync_handler (save_regs x esr elr spsr stk) esr s = bind_M (do_sync (ucast (x ! 8))) (\<lambda>r. return_M (Some r)) s"
      by (simp add: sync_handler_def IS_SVC_MASK_def Let_def frame)
    with False show ?thesis unfolding mask call by (simp only: if_False)
  qed
qed

text \<open>What is printed of a frame: its words 4 to 34 as \<open>x0\<close> to \<open>x30\<close>, then the words 2, 1 and 0.\<close>

definition frame_dump :: "u64 list \<Rightarrow> string" where
  "frame_dump f = ''\<newline>Registers:\<newline>'' @
     concat (map (\<lambda>n. take 3 (''x'' @ fmt_radix 10 False n @ '' '') @ '': 0x'' @ fmt_016x (f ! (4 + n)) @ ''\<newline>'') [0..<31]) @
     ''esr: 0x'' @ fmt_016x (f ! 2) @ ''\<newline>'' @ ''elr: 0x'' @ fmt_016x (f ! 1) @ ''\<newline>'' @
     ''spsr: 0x'' @ fmt_016x (f ! 0) @ ''\<newline>''"

lemma regs_dump_frame: "regs_dump (regs_of_frame f) = frame_dump f"
proof -
  have upt: "[0..<31] = [0, 1, 2, 3, 4, 5, 6, 7, 8, 9, 10, 11, 12, 13, 14, 15, 16, 17, 18, 19, 20, 21, 22,
      23, 24, 25, 26, 27, 28, 29, 30 :: nat]" by code_simp
  have "\<forall>n \<in> set [0..<31]. take 3 (''x'' @ fmt_radix 10 False n @ '' '') = Regs_NAMES ! n" by code_simp
  then have names: "map (\<lambda>n. take 3 (''x'' @ fmt_radix 10 False n @ '' '') @ g n) [0..<31] = map (\<lambda>n. Regs_NAMES ! n @ g n) [0..<31]"
    for g by (intro map_cong refl) (simp only:)
  show ?thesis
    unfolding regs_dump_def frame_dump_def names unfolding upt
    by (simp add: Regs_iter_def Regs_as_array_def Regs_NAMES_def regs_of_frame_def)
qed

text \<open>
  C39. The register dump. On a UART that drains, printing the registers of a saved frame sends a heading and then one line for each of
  34 registers: for \<open>n\<close> from 0 to 30 the name \<open>xn\<close>, padded to three characters, with the word at offset \<open>32 + 8 * n\<close> of the frame, then
  \<open>esr\<close>, \<open>elr\<close> and \<open>spsr\<close> with the words at the offsets 16, 8 and 0. Each value has sixteen hexadecimal digits, and they read back as the word.
\<close>

theorem register_dump_faithful:
  assumes "tx_ready s"
  shows "(\<exists>ops. print_regs (regs_of_frame f) s = (Inr (), effect ops s) \<and> transmits (putchar_base (UART s)) (str_bytes (''\<newline>Registers:\<newline>'' @
      concat (map (\<lambda>n. take 3 (''x'' @ fmt_radix 10 False n @ '' '') @ '': 0x'' @ fmt_016x (f ! (4 + n)) @ ''\<newline>'') [0..<31]) @
      ''esr: 0x'' @ fmt_016x (f ! 2) @ ''\<newline>'' @ ''elr: 0x'' @ fmt_016x (f ! 1) @ ''\<newline>'' @
      ''spsr: 0x'' @ fmt_016x (f ! 0) @ ''\<newline>'')) ops) \<and>
    (\<forall>v. length (fmt_016x v) = 16 \<and> read_radix 16 (fmt_016x v) = unat v)"
  using Regs_print_sent [OF assms, of "regs_of_frame f"] sent_transmits [of "str_bytes (frame_dump f)" s]
  unfolding print_regs_def regs_dump_frame frame_dump_def [symmetric] by (simp add: length_fmt_016x read_fmt_016x)

theorem register_dump_faithful_witness:
  "\<exists>ops. print_regs (regs_of_frame (map of_nat [0..<36])) uart_example_tx = (Inr (), effect ops uart_example_tx) \<and>
     transmits 0x9000000 (str_bytes (frame_dump (map of_nat [0..<36]))) ops"
  using register_dump_faithful [OF tx_ready_example, of "map of_nat [0..<36]", THEN conjunct1]
  unfolding frame_dump_def [symmetric] uart_example_tx_simps .

lemma do_irq_returns_id: "do_irq n s = (Inr r, t) \<Longrightarrow> r = n"
  unfolding do_irq_def by (auto elim!: seq_M_Inr_E)

text \<open>
  Every interrupt is acknowledged. If the handler returns, the interrupt controller is asked once for the pending interrupt, and the
  last thing written is its number, to the end-of-interrupt register: whichever branch was taken, the number is the one that was read.
\<close>

lemma irq_acknowledged:
  assumes "irq_handler s = (Inr (), t)"
  shows "\<exists>u. do_irq (ucast (peek_sys s ICC_IAR1_EL1)) (effect [Mrs ICC_IAR1_EL1] s) = (Inr (ucast (peek_sys s ICC_IAR1_EL1)), u) \<and>
    t = effect [Msr ICC_EOIR1_EL1 (ucast (ucast (peek_sys s ICC_IAR1_EL1) :: u32))] u"
  using assms unfolding irq_handler_def
  by (auto elim!: bind_M_Inr_E simp: mrs_effect msr_effect dest: do_irq_returns_id)

definition irq_example :: "store_hw kernel" where
  "irq_example = uart_example\<lparr>hw := store_hw0\<lparr>sh_sys := (\<lambda>_. 0)(ICC_IAR1_EL1 := 33)\<rparr>\<rparr>"

lemma irq_acknowledged_witness:
  "\<exists>t. irq_handler irq_example = (Inr (), t) \<and> sh_sys (hw t) ICC_EOIR1_EL1 = 33"
proof -
  let ?s = "effect [Mrs ICC_IAR1_EL1] irq_example"
  have iar: "peek_sys irq_example ICC_IAR1_EL1 = 33"
    by (simp add: irq_example_def peek_sys_def store_bus_def)
  have "rx_ok ?s" "0 < spin ?s" and bus: "bus irq_example = store_bus"
    using rx_ok_example by (simp_all add: irq_example_def rx_ok_def)
  then obtain q where "do_irq 33 ?s = (Inr 33, with_rx q (effect (rx_irq_program ?s) ?s))"
    using do_irq_rx by blast
  then have run: "\<exists>t. irq_handler irq_example = (Inr (), t)"
    by (simp add: irq_handler_def mrs_effect msr_effect iar)
  then obtain t where t: "irq_handler irq_example = (Inr (), t)" by blast
  show ?thesis
    using irq_acknowledged [OF t] iar t \<open>do_irq 33 ?s = _\<close>
    by (auto simp: with_rx_def hw_effect run_regops_def bus store_bus_def)
qed

end
