(* ===== verification/Kmain.thy ===== *)
theory Kmain
  imports Vectors
begin

text \<open>
  The entry point and the panic handler of \<^verbatim>\<open>lib.rs\<close>, and the kernel at run time: the endless loop of \<open>kmain\<close>
  interleaved with interrupts that come in through the vector of \<^verbatim>\<open>vectors.S\<close>. The endless loop is given by
  the number of turns it has taken.
\<close>

section \<open>lib.rs\<close>

definition main_loop_body :: "(('h, 'm) kernel_scheme, unit) M" where
  "main_loop_body =
     bind_M getchar (\<lambda>c. case c of
       None \<Rightarrow> return_M ()
     | Some ch \<Rightarrow> println (''You typed: '' @ fmt_char ch))"

definition main_loop :: "nat \<Rightarrow> (('h, 'm) kernel_scheme, unit) M" where
  "main_loop turns = for_M (replicate turns ()) (\<lambda>_. main_loop_body)"

definition kmain :: "linker_symbols \<Rightarrow> nat \<Rightarrow> usize \<Rightarrow> (('h, 'm) kernel_scheme, unit) M" where
  "kmain syms turns dtb_addr =
     block_M [parse_dtb dtb_addr,
              setup_mair_ranges,
              setup_identity_mapping syms,
              println ''Hello, from Rust'',
              println ''Arming the timer (1000ms)'',
              arm_ms 1000,
              main_loop turns]"

text \<open>The panic handler prints where the panic was, if that is known, and then loops for ever.\<close>

definition panic_handler :: "(string \<times> u32) option \<Rightarrow> (('h, 'm) kernel_scheme, 'a) M" where
  "panic_handler location =
     seq_M (case location of
              Some (file, line) \<Rightarrow> println (''Panic at '' @ file @ '':'' @ fmt_dec line)
            | None \<Rightarrow> println ''Panic!'')
           (fail_M Hang)"

text \<open>
  A panic anywhere in the kernel runs the handler, with the location of the panic, in the state in which it happened. The other
  theories stop at the panic itself; this is the code with its handler.
\<close>

definition with_panic_handler :: "(string \<times> u32) option \<Rightarrow> (('h, 'm) kernel_scheme, 'a) M \<Rightarrow> (('h, 'm) kernel_scheme, 'a) M" where
  "with_panic_handler location m = (\<lambda>s. case m s of (Inl Panic, t) \<Rightarrow> panic_handler location t | r \<Rightarrow> r)"

section \<open>Simulation of runs\<close>

text \<open>
  A system that runs a sequence of events, each of which is explained by a stimulus of an abstract machine: if every event
  does what the abstract machine does on its stimulus, then so does every run.
\<close>

locale event_simulation =
  fixes step :: "'e \<Rightarrow> ('s, unit) M"
    and stimulus :: "'e \<Rightarrow> 's \<Rightarrow> 'i"
    and good :: "'s \<Rightarrow> bool"
    and abs :: "'s \<Rightarrow> 'q"
    and spec :: "'i \<Rightarrow> 'q \<Rightarrow> 'o list \<times> 'q"
    and emits :: "'s \<Rightarrow> 's \<Rightarrow> 'o list \<Rightarrow> bool"
  assumes step_simulates: "good s \<Longrightarrow>
      \<exists>t. step e s = (Inr (), t) \<and> good t \<and> emits s t (fst (spec (stimulus e s) (abs s))) \<and>
        abs t = snd (spec (stimulus e s) (abs s))"
    and emits_none: "emits s s []"
    and emits_more: "emits s t xs \<Longrightarrow> emits t u ys \<Longrightarrow> emits s u (xs @ ys)"

primrec stimuli :: "('e \<Rightarrow> ('s, unit) M) \<Rightarrow> ('e \<Rightarrow> 's \<Rightarrow> 'i) \<Rightarrow> 'e list \<Rightarrow> 's \<Rightarrow> 'i list" where
  "stimuli step st [] s = []"
| "stimuli step st (e # es) s = st e s # stimuli step st es (snd (step e s))"

primrec spec_runs :: "('i \<Rightarrow> 'q \<Rightarrow> 'o list \<times> 'q) \<Rightarrow> 'i list \<Rightarrow> 'q \<Rightarrow> 'o list \<times> 'q" where
  "spec_runs spec [] q = ([], q)"
| "spec_runs spec (i # is) q =
     (fst (spec i q) @ fst (spec_runs spec is (snd (spec i q))), snd (spec_runs spec is (snd (spec i q))))"

context event_simulation
begin

lemma run_simulates:
  "good s \<Longrightarrow> \<exists>t. for_M es step s = (Inr (), t) \<and> good t \<and>
     emits s t (fst (spec_runs spec (stimuli step stimulus es s) (abs s))) \<and>
     abs t = snd (spec_runs spec (stimuli step stimulus es s) (abs s))"
proof (induction es arbitrary: s)
  case Nil
  then show ?case by (simp add: emits_none)
next
  case (Cons e es)
  from step_simulates [OF Cons.prems, of e] obtain u where u: "step e s = (Inr (), u)" "good u"
    "emits s u (fst (spec (stimulus e s) (abs s)))" "abs u = snd (spec (stimulus e s) (abs s))" by blast
  with Cons.IH [OF u(2)] show ?case by (auto intro: emits_more)
qed

end

section \<open>The kernel at run time\<close>

text \<open>What happens after start-up: an interrupt is taken through the vector, or the main loop makes a turn.\<close>

datatype kernel_event = Irq_Taken | Loop_Turn

primrec kernel_step :: "kernel_event \<Rightarrow> (('h, 'm) kernel_scheme, unit) M" where
  "kernel_step Irq_Taken = irq_handler"
| "kernel_step Loop_Turn = main_loop_body"

text \<open>The abstract console: a queue of at most 255 received bytes, and the text it prints.\<close>

datatype stimulus = Byte_Received u8 | Timer_Tick | Other_Interrupt u32 | Turn

fun console_step :: "stimulus \<Rightarrow> u8 list \<Rightarrow> string \<times> u8 list" where
  "console_step (Byte_Received b) q = ([], if length q < 255 then q @ [b] else q)"
| "console_step Timer_Tick q = (''Timer interrupt!\<newline>'', q)"
| "console_step (Other_Interrupt n) q = (''Unhandled IRQ: '' @ fmt_dec n @ ''\<newline>'', q)"
| "console_step Turn [] = ([], [])"
| "console_step Turn (b # q) = (''You typed: '' @ fmt_char b @ ''\<newline>'', q)"

text \<open>The stimulus is what the hardware says: the number in the acknowledge register, the byte in the data register.\<close>

definition pending_id :: "('h, 'm) kernel_scheme \<Rightarrow> u32" where
  "pending_id s = ucast (peek_sys s ICC_IAR1_EL1)"

primrec kernel_stimulus :: "kernel_event \<Rightarrow> ('h, 'm) kernel_scheme \<Rightarrow> stimulus" where
  "kernel_stimulus Irq_Taken s =
     (if pending_id s = 30 then Timer_Tick
      else if pending_id s = 33 then Byte_Received (received_byte (effect [Mrs ICC_IAR1_EL1] s))
      else Other_Interrupt (pending_id s))"
| "kernel_stimulus Loop_Turn s = Turn"

definition console_ok :: "('h, 'm) kernel_scheme \<Rightarrow> bool" where
  "console_ok s \<longleftrightarrow> rx_ok s \<and> tx_ready s"

text \<open>What a register program writes to a register, and that a run printed a text and touched nothing but the receive buffer.\<close>

fun written :: "u64 \<Rightarrow> regop list \<Rightarrow> u32 list" where
  "written a [] = []"
| "written a (Write32 b v # ops) = (if b = a then v # written a ops else written a ops)"
| "written a (op # ops) = written a ops"

definition prints :: "('h, 'm) kernel_scheme \<Rightarrow> ('h, 'm) kernel_scheme \<Rightarrow> string \<Rightarrow> bool" where
  "prints s t txt \<longleftrightarrow>
     (\<exists>ops r. t = (effect ops s)\<lparr>RX_BUFFER := r\<rparr> \<and> written (putchar_base (UART s)) ops = map ucast (str_bytes txt))"

lemma written_append [simp]: "written a (xs @ ys) = written a xs @ written a ys"
  by (induction a xs rule: written.induct) simp_all

lemma written_polls [simp]: "written base (replicate k (Read32 a)) = []"
  by (induction k) simp_all

lemma written_tx: "transmits base bytes ops \<Longrightarrow> written base ops = map ucast bytes"
  by (induction bytes arbitrary: ops) (auto simp del: replicate_Suc)

lemma printsI:
  "t = with_rx q (effect ops s) \<Longrightarrow> written (putchar_base (UART s)) ops = map ucast (str_bytes txt) \<Longrightarrow> prints s t txt"
  unfolding prints_def with_rx_def by blast

lemma prints_effectI:
  "t = effect ops s \<Longrightarrow> written (putchar_base (UART s)) ops = map ucast (str_bytes txt) \<Longrightarrow> prints s t txt"
  unfolding prints_def by (intro exI [of _ ops] exI [of _ "RX_BUFFER s"]) (simp add: effect_def)

lemma prints_sent: "prints s (sent (str_bytes txt) s) txt"
proof -
  obtain ops where "sent (str_bytes txt) s = effect ops s" "transmits (putchar_base (UART s)) (str_bytes txt) ops"
    using sent_transmits by blast
  then show ?thesis by (auto intro: prints_effectI written_tx)
qed

lemma prints_hw:
  "prints s t txt \<Longrightarrow>
     \<exists>ops. hw t = run_regops (bus s) ops (hw s) \<and> written (putchar_base (UART s)) ops = map ucast (str_bytes txt)"
  by (auto simp: prints_def hw_effect)

lemma prints_none: "prints s s []"
  by (rule prints_effectI [of _ "[]"]) simp_all

lemma prints_more: "prints s t xs \<Longrightarrow> prints t u ys \<Longrightarrow> prints s u (xs @ ys)"
proof -
  assume "prints s t xs" "prints t u ys"
  then obtain ops r ops' r' where "t = (effect ops s)\<lparr>RX_BUFFER := r\<rparr>" "u = (effect ops' t)\<lparr>RX_BUFFER := r'\<rparr>"
    "written (putchar_base (UART s)) ops = map ucast (str_bytes xs)"
    "written (putchar_base (UART t)) ops' = map ucast (str_bytes ys)"
    unfolding prints_def by blast
  then show ?thesis
    unfolding prints_def
    by (intro exI [of _ "ops @ ops'"] exI [of _ r']) (simp add: effect_def run_regops_def)
qed

lemma console_ok_keeps [simp]:
  "console_ok (effect ops s) = console_ok s"
  "ring_inv q \<Longrightarrow> console_ok s \<Longrightarrow> console_ok (with_rx q s)"
  "rx_bytes (effect ops s) = rx_bytes s"
  "console_ok (sent bytes s) = console_ok s" "rx_bytes (sent bytes s) = rx_bytes s"
  by (simp_all add: console_ok_def rx_ok_def rx_bytes_def) (simp add: with_rx_def)

lemma console_ok_spin: "console_ok s \<Longrightarrow> rx_ok s \<and> 0 < spin s"
  by (simp add: console_ok_def tx_ready_spin)

text \<open>Steps that print nothing before and after.\<close>

lemma prints_after: "prints s t xs \<Longrightarrow> prints t u [] \<Longrightarrow> prints s u xs"
  and prints_before: "prints s t [] \<Longrightarrow> prints t u xs \<Longrightarrow> prints s u xs"
  using prints_more [of s t xs u "[]"] prints_more [of s t "[]" u xs] by simp_all

lemma prints_silent:
  "written (putchar_base (UART s)) ops = [] \<Longrightarrow> prints s (effect ops s) []"
  "written (putchar_base (UART s)) ops = [] \<Longrightarrow> prints s (with_rx q (effect ops s)) []"
  by (simp_all add: prints_effectI printsI)

lemma uart_registers_differ: "base_addr u + 0x44 \<noteq> putchar_base u"
  by (simp add: putchar_base_def EARLY_BASE_def)

lemma println_ready: "console_ok s \<Longrightarrow> println str s = (Inr (), sent (str_bytes (str @ ''\<newline>'')) s)"
  by (simp add: console_ok_def println_sent)

lemma loop_turn_simulates:
  assumes "console_ok s"
  shows "\<exists>t. main_loop_body s = (Inr (), t) \<and> console_ok t \<and> prints s t (fst (console_step Turn (rx_bytes s))) \<and>
    rx_bytes t = snd (console_step Turn (rx_bytes s))"
proof -
  let ?ops = "[Mrs DAIF, Msr DAIFSet 2, Msr DAIF (peek_sys s DAIF)]"
  obtain q where q: "getchar s = (Inr (case rx_bytes s of [] \<Rightarrow> None | b # bs \<Rightarrow> Some b), with_rx q (effect ?ops s))"
    "ring_inv q" "ring_list q = tl (rx_bytes s)"
    using getchar_program console_ok_spin [OF assms] by blast
  let ?s = "with_rx q (effect ?ops s)"
  have ok: "console_ok ?s" and got: "prints s ?s []" using assms q(2) by (simp_all add: prints_silent)
  show ?thesis
  proof (cases "rx_bytes s")
    case Nil
    with q ok got show ?thesis by (simp add: main_loop_body_def)
  next
    case (Cons b bs)
    let ?txt = "(''You typed: '' @ fmt_char b) @ ''\<newline>''"
    have "main_loop_body s = (Inr (), sent (str_bytes ?txt) ?s)"
      using q(1) Cons println_ready [OF ok] by (simp add: main_loop_body_def)
    moreover have "prints s (sent (str_bytes ?txt) ?s) ?txt" by (rule prints_before [OF got prints_sent])
    ultimately show ?thesis using q Cons assms by simp
  qed
qed

lemma irq_simulates:
  assumes "console_ok s"
  shows "\<exists>t. irq_handler s = (Inr (), t) \<and> console_ok t \<and>
    prints s t (fst (console_step (kernel_stimulus Irq_Taken s) (rx_bytes s))) \<and>
    rx_bytes t = snd (console_step (kernel_stimulus Irq_Taken s) (rx_bytes s))"
proof -
  let ?n = "pending_id s" and ?s = "effect [Mrs ICC_IAR1_EL1] s" and ?eoi = "Msr ICC_EOIR1_EL1 (ucast (pending_id s))"
  have ok: "console_ok ?s" using assms by simp
  have ack: "prints s ?s []" by (simp add: prints_silent)
  have handler: "irq_handler s = (Inr (), effect [?eoi] t)" if "do_irq ?n ?s = (Inr ?n, t)" for t
    using that by (simp add: irq_handler_def mrs_effect msr_effect pending_id_def)
  have printed: "prints s (effect ops (sent (str_bytes str) ?s)) str" if "written (putchar_base (UART s)) ops = []" for ops str
    by (rule prints_before [OF ack prints_after [OF prints_sent prints_silent(1)]]) (simp add: that)
  consider "?n = 30" | "?n = 33" | "?n \<noteq> 30" "?n \<noteq> 33" by blast
  then show ?thesis
  proof cases
    case 1
    let ?t = "sent (str_bytes ''Timer interrupt!\<newline>'') ?s"
    obtain v where "do_irq ?n ?s = (Inr ?n, effect [Mrs CNTFRQ_EL0, Msr CNTP_TVAL_EL0 v] ?t)"
      using 1 println_ready [OF ok, of "''Timer interrupt!''"] by (simp add: do_irq_def timer_defs mmio_effects)
    note run = handler [OF this, simplified effect_effect append.simps]
    show ?thesis unfolding run using 1 assms by (simp add: printed del: str_bytes_simps)
  next
    case 2
    have "rx_ok ?s" "0 < spin ?s" using console_ok_spin [OF ok] by simp_all
    from do_irq_rx [OF this] obtain q where q:
      "do_irq 33 ?s = (Inr 33, with_rx q (effect (rx_irq_program ?s) ?s))" "ring_inv q"
      "ring_list q = (if length (rx_bytes ?s) < 255 then rx_bytes ?s @ [received_byte ?s] else rx_bytes ?s)" by blast
    note run = handler [unfolded 2, OF q(1), simplified with_rx_simps effect_effect append.simps append_assoc]
    have "written (putchar_base (UART s)) (rx_irq_program ?s) = []"
      using uart_registers_differ [of "UART s"] by (simp add: rx_irq_program_def)
    then show ?thesis
      unfolding run using 2 assms q(2,3) by (simp add: prints_silent)
  next
    case 3
    let ?txt = "''Unhandled IRQ: '' @ fmt_dec ?n @ ''\<newline>''"
    have "do_irq ?n ?s = (Inr ?n, sent (str_bytes ?txt) ?s)"
      using 3 println_ready [OF ok, of "''Unhandled IRQ: '' @ fmt_dec ?n"] by (simp add: do_irq_def)
    note run = handler [OF this]
    show ?thesis unfolding run using 3 assms by (simp add: printed del: str_bytes_simps)
  qed
qed

interpretation console: event_simulation kernel_step kernel_stimulus console_ok rx_bytes console_step prints
proof unfold_locales
  fix e and s :: "('h, 'm) kernel_scheme" assume "console_ok s"
  then show "\<exists>t. kernel_step e s = (Inr (), t) \<and> console_ok t \<and>
      prints s t (fst (console_step (kernel_stimulus e s) (rx_bytes s))) \<and>
      rx_bytes t = snd (console_step (kernel_stimulus e s) (rx_bytes s))"
    using irq_simulates [of s] loop_turn_simulates [of s]
    by (cases e) (simp_all del: kernel_stimulus.simps(1))
qed (rule prints_none, rule prints_more)

text \<open>The main loop is a run of turns; a run of turns echoes the received bytes in order.\<close>

definition echo_text :: "u8 list \<Rightarrow> string" where
  "echo_text bs = concat (map (\<lambda>b. ''You typed: '' @ fmt_char b @ ''\<newline>'') bs)"

lemma main_loop_eq: "main_loop n = for_M (replicate n Loop_Turn) kernel_step"
  unfolding main_loop_def by (induction n) simp_all

lemma stimuli_turns: "stimuli kernel_step kernel_stimulus (replicate n Loop_Turn) s = replicate n Turn"
  by (induction n arbitrary: s) simp_all

lemma spec_runs_turns: "spec_runs console_step (replicate n Turn) q = (echo_text (take n q), drop n q)"
proof (induction n arbitrary: q)
  case 0
  then show ?case by (simp add: echo_text_def)
next
  case (Suc n)
  then show ?case by (cases q) (simp_all add: echo_text_def)
qed

lemma main_loop_echoes:
  "console_ok s \<Longrightarrow> \<exists>t. main_loop n s = (Inr (), t) \<and> console_ok t \<and> prints s t (echo_text (take n (rx_bytes s))) \<and>
     rx_bytes t = drop n (rx_bytes s)"
  using console.run_simulates [of s "replicate n Loop_Turn"]
  by (simp add: main_loop_eq stimuli_turns spec_runs_turns)

text \<open>The whole seconds of any frequency fit 64 bits, so that \<open>arm_ms(1000)\<close> never overflows.\<close>

lemma arm_ms_second:
  "arm_ms 1000 s = (Inr (), effect [Mrs CNTFRQ_EL0, Msr CNTP_TVAL_EL0 (of_nat (ms_ticks (peek_sys s CNTFRQ_EL0) 1000 mod 2 ^ 32)),
     Msr CNTP_CTL_EL0 1, Fence ISB_SY] s)"
proof -
  have "ms_ticks f 1000 < 2 ^ 64" for f :: u64
    using unat_bound_u64 [of f] by (simp add: ms_ticks_def order.strict_trans1 [OF div_times_less_eq_dividend])
  then show ?thesis by (simp add: arm_ms_program)
qed

text \<open>
  What the start-up asks of the hardware between the parse and the arming of the timer. \<open>tx\<close> and \<open>tx'\<close> are the transmissions of the two addresses
  and of the greeting.
\<close>

definition boot_program :: "linker_symbols \<Rightarrow> regop list \<Rightarrow> regop list \<Rightarrow> regop list" where
  "boot_program syms tx tx' = mair_program @ tx @ mmu_program syms @ tx'"

definition greeting :: string where
  "greeting = ''Hello, from Rust\<newline>Arming the timer (1000ms)\<newline>''"

lemma console_ok_idmap [simp]:
  "console_ok (with_blocks syms is s) = console_ok s" "console_ok (set_pte p v s) = console_ok s"
  "rx_bytes (with_blocks syms is s) = rx_bytes s" "rx_bytes (set_pte p v s) = rx_bytes s"
  "UART (with_blocks syms is s) = UART s" for s :: "('h, 'm) kernel_scheme"
proof -
  have set: "console_ok (set_pte p v s) = console_ok s" "rx_bytes (set_pte p v s) = rx_bytes s" for p v and s :: "('h, 'm) kernel_scheme"
    by (simp_all add: console_ok_def rx_ok_def rx_bytes_def) (simp_all add: set_pte_def)
  show "console_ok (set_pte p v s) = console_ok s" "rx_bytes (set_pte p v s) = rx_bytes s" by (rule set)+
  show "console_ok (with_blocks syms is s) = console_ok s" "rx_bytes (with_blocks syms is s) = rx_bytes s"
    "UART (with_blocks syms is s) = UART s"
    unfolding with_blocks_def by (induction "is" arbitrary: s) (simp_all add: set)
qed

text \<open>From the end of the parse to the main loop: the registers written, the state of the console, and the memory with the tables in it.\<close>

lemma kmain_runs:
  assumes parsed: "parse_dtb dtb s = (Inr (), s1)" and idmap: "idmap_ready syms s1" and ok: "console_ok s1"
  shows "\<exists>t f tx tx' loop_ops. kmain syms turns dtb s = (Inr (), t) \<and>
    transmits (putchar_base (UART s1)) (str_bytes (idmap_text syms)) tx \<and>
    transmits (putchar_base (UART s1)) (str_bytes greeting) tx' \<and>
    f = fst (cpu_mrs (bus s1) CNTFRQ_EL0 (run_regops (bus s1) (boot_program syms tx tx') (hw s1))) \<and>
    hw t = run_regops (bus s1) (boot_program syms tx tx' @
      [Mrs CNTFRQ_EL0, Msr CNTP_TVAL_EL0 (of_nat (ms_ticks f 1000 mod 2 ^ 32)), Msr CNTP_CTL_EL0 1, Fence ISB_SY] @
      loop_ops) (hw s1) \<and>
    written (putchar_base (UART s1)) loop_ops = map ucast (str_bytes (echo_text (take turns (rx_bytes s1)))) \<and>
    rx_bytes t = drop turns (rx_bytes s1) \<and> console_ok t \<and> bus t = bus s1 \<and> UART t = UART s1 \<and>
    ram t = ram (with_blocks syms [0..<mapped_gib syms] (set_pte (idmap_l0 syms) (table_desc (idmap_l1 syms)) s1))"
proof -
  let ?base = "putchar_base (UART s1)"
  let ?s2 = "with_blocks syms [0..<mapped_gib syms] (set_pte (idmap_l0 syms) (table_desc (idmap_l1 syms)) s1)"
  let ?m = "effect mair_program ?s2"
  obtain tx where tx: "sent (str_bytes (idmap_text syms)) ?m = effect tx ?m" "transmits ?base (str_bytes (idmap_text syms)) tx"
    using sent_transmits [of "str_bytes (idmap_text syms)" ?m] by auto
  let ?s3 = "effect (mair_program @ tx @ mmu_program syms) ?s2"
  have "idmap_ready syms (effect mair_program s1)" using idmap by (simp add: idmap_ready_def)
  then have mapped: "setup_identity_mapping syms (effect mair_program s1) = (Inr (), ?s3)"
    using ok tx(1) by (subst setup_identity_mapping_eq) (simp_all add: console_ok_def effect_with_blocks effect_set_pte)
  obtain tx' where tx': "sent (str_bytes greeting) ?s3 = effect tx' ?s3" "transmits ?base (str_bytes greeting) tx'"
    using sent_transmits [of "str_bytes greeting" ?s3] by auto
  let ?boot = "boot_program syms tx tx'"
  have hello: "seq_M (println ''Hello, from Rust'') (println ''Arming the timer (1000ms)'') ?s3 = (Inr (), effect ?boot ?s2)"
    using ok tx'(1) by (simp add: println_ready greeting_def boot_program_def)
  let ?f = "peek_sys (effect ?boot ?s2) CNTFRQ_EL0"
  let ?arm = "[Mrs CNTFRQ_EL0, Msr CNTP_TVAL_EL0 (of_nat (ms_ticks ?f 1000 mod 2 ^ 32)), Msr CNTP_CTL_EL0 1, Fence ISB_SY]"
  let ?s4 = "effect (?boot @ ?arm) ?s2"
  have arm: "arm_ms 1000 (effect ?boot ?s2) = (Inr (), ?s4)" by (simp add: arm_ms_second)
  obtain t where t: "main_loop turns ?s4 = (Inr (), t)" "prints ?s4 t (echo_text (take turns (rx_bytes s1)))"
    "rx_bytes t = drop turns (rx_bytes s1)" "console_ok t"
    using main_loop_echoes [of ?s4 turns] ok by auto
  have "kmain syms turns dtb s = seq_M (seq_M (println ''Hello, from Rust'') (println ''Arming the timer (1000ms)''))
      (seq_M (arm_ms 1000) (main_loop turns)) ?s3"
    using parsed mapped by (simp add: kmain_def setup_mair_ranges_eq seq_M_assoc)
  then have "kmain syms turns dtb s = (Inr (), t)" using hello arm t(1) by simp
  moreover obtain loop_ops where "hw t = run_regops (bus s1) loop_ops (hw ?s4)"
    "written ?base loop_ops = map ucast (str_bytes (echo_text (take turns (rx_bytes s1))))"
    using prints_hw [OF t(2)] by auto
  moreover have "ram t = ram ?s2" "bus t = bus s1" "UART t = UART s1" using t(2) by (auto simp: prints_def)
  ultimately show ?thesis using t(3,4) tx(2) tx'(2)
    by (intro exI [of _ t] exI [of _ ?f] exI [of _ tx] exI [of _ tx'] exI [of _ loop_ops])
      (simp add: hw_effect run_regops_def peek_sys_def set_pte_def)
qed

section \<open>Properties\<close>

text \<open>
  C1. The running kernel is a console. Take any sequence of interrupts, taken through the vector, and turns of the main loop,
  whatever the hardware delivers. With the receive lock free and a transmitter that drains, nothing fails, and what is
  written to the UART's data register is exactly what the abstract console prints on the stimuli the
  hardware gave: each received byte once, in order, as \<^verbatim>\<open>You typed: ...\<close>, with no more than 255 waiting, a line for each timer
  tick and each unexpected interrupt. The queue of the abstract console is the content of the receive buffer.
\<close>

theorem kernel_refines_console:
  assumes "rx_ok s" and "tx_ready s"
  shows "\<exists>t ops r. for_M events kernel_step s = (Inr (), t) \<and> rx_ok t \<and> t = (effect ops s)\<lparr>RX_BUFFER := r\<rparr> \<and>
    (map ucast (str_bytes (fst (spec_runs console_step (stimuli kernel_step kernel_stimulus events s) (rx_bytes s)))) =
       written (putchar_base (UART s)) ops) \<and>
    snd (spec_runs console_step (stimuli kernel_step kernel_stimulus events s) (rx_bytes s)) = rx_bytes t"
proof -
  have "console_ok s" using assms by (simp add: console_ok_def)
  from console.run_simulates [OF this, of events] show ?thesis
    unfolding prints_def console_ok_def by (elim exE conjE) (intro exI conjI, assumption+, rule sym, assumption, rule sym, assumption)
qed

definition console_example :: "store_hw kernel" where
  "console_example = uart_example_tx\<lparr>hw := store_hw0\<lparr>sh_sys := (\<lambda>_. 0)(ICC_IAR1_EL1 := 33)\<rparr>\<rparr>"

lemma console_example_ok:
  "rx_ok console_example" "tx_ready console_example" "rx_bytes console_example = []"
  using rx_ok_example rx_bytes_example tx_ready_example
  by (simp_all add: console_example_def tx_ready_def rx_ok_def rx_bytes_def)

theorem kernel_refines_console_witness:
  "\<exists>t ops r. for_M [Irq_Taken, Loop_Turn, Loop_Turn] kernel_step console_example = (Inr (), t) \<and>
    t = (effect ops console_example)\<lparr>RX_BUFFER := r\<rparr> \<and> rx_bytes t = [] \<and>
    written (putchar_base (UART console_example)) ops =
      map ucast (str_bytes (''You typed: '' @ fmt_char (received_byte (effect [Mrs ICC_IAR1_EL1] console_example)) @ ''\<newline>''))"
proof -
  have "pending_id console_example = 33"
    by (simp add: pending_id_def peek_sys_def console_example_def slow_bus_def store_bus_def)
  then have "spec_runs console_step (stimuli kernel_step kernel_stimulus [Irq_Taken, Loop_Turn, Loop_Turn] console_example) [] =
      (''You typed: '' @ fmt_char (received_byte (effect [Mrs ICC_IAR1_EL1] console_example)) @ ''\<newline>'', [])"
    by simp
  then show ?thesis
    using kernel_refines_console [OF console_example_ok(1,2), of "[Irq_Taken, Loop_Turn, Loop_Turn]"]
    unfolding console_example_ok(3) by (metis fst_conv snd_conv)
qed

text \<open>
  C12. Start-up. Once the device tree has been parsed and its devices set up, with the page tables clear and a
  transmitter that drains, \<open>kmain\<close> programs the memory attributes, builds the identity mapping and turns the MMU on, greets, arms the timer
  and reaches its loop, in this order and without failing; after any number of turns it has echoed that many of the
  received bytes.
\<close>

theorem kmain_boots:
  assumes parsed: "parse_dtb dtb s = (Inr (), s1)" and idmap: "idmap_ready syms s1" and "rx_ok s1" and "tx_ready s1"
  shows "\<exists>t f tx tx' loop_ops. kmain syms turns dtb s = (Inr (), t) \<and>
    transmits (putchar_base (UART s1)) (str_bytes (idmap_text syms)) tx \<and>
    transmits (putchar_base (UART s1)) (str_bytes ''Hello, from Rust\<newline>Arming the timer (1000ms)\<newline>'') tx' \<and>
    f = fst (cpu_mrs (bus s1) CNTFRQ_EL0 (run_regops (bus s1) (mair_program @ tx @ mmu_program syms @ tx') (hw s1))) \<and>
    hw t = run_regops (bus s1) (mair_program @ tx @ mmu_program syms @ tx' @
      [Mrs CNTFRQ_EL0, Msr CNTP_TVAL_EL0 (of_nat (unat f div 1000 * 1000 mod 2 ^ 32)), Msr CNTP_CTL_EL0 1, Fence ISB_SY] @
      loop_ops) (hw s1) \<and>
    written (putchar_base (UART s1)) loop_ops = map ucast (str_bytes (echo_text (take turns (rx_bytes s1)))) \<and>
    rx_bytes t = drop turns (rx_bytes s1)"
proof -
  have "console_ok s1" using assms(3,4) by (simp add: console_ok_def)
  note runs = kmain_runs [OF parsed idmap this, of turns, unfolded boot_program_def greeting_def append_assoc]
  have "ms_ticks f 1000 = unat f div 1000 * 1000" for f :: u64 by (simp add: ms_ticks_def)
  note runs = runs [unfolded this]
  show ?thesis using runs by (elim exE conjE) (intro exI conjI, assumption+)
qed

text \<open>A tree with no node at all, and clear page tables.\<close>

definition kmain_example :: "store_hw kernel" where
  "kmain_example = uart_example_tx\<lparr>ram := (\<lambda>a. if 0x50101000 \<le> a \<and> a < 0x50103000 then Some 0
     else mem_at 0x4000 (cells_bytes ([0xd00dfeed, 44, 40, 44, 0, 17, 16, 0, 0, 4] @ [9])) a)\<rparr>"

abbreviation empty_tree :: "u32 list" where
  "empty_tree \<equiv> [0xd00dfeed, 44, 40, 44, 0, 17, 16, 0, 0, 4] @ [9]"

lemma empty_tree_parsed:
  fixes s :: "('h, 'm) kernel_scheme"
  assumes "holds_bytes (ram s) 0x4000 (cells_bytes empty_tree)" and "DEVICE_COUNT s = 0"
  shows "parse_dtb 0x4000 s = (Inr (), s)"
proof -
  have mem: "holds_bytes (ram s) 0x4000 (cells_bytes [0xd00dfeed, 44, 40, 44, 0, 17, 16, 0, 0, 4])"
    "holds_bytes (ram s) 0x4028 (to_be_bytes (9 :: u32))"
    using assms(1) unfolding cells_bytes_simps(3) holds_bytes_append by simp_all
  have "read_be_u32 0x4028 0 s = (Inr 9, s)"
    by (rule read_be_u32_holds) (use mem(2) in simp)
  then have "parse_loop dtb os 0x4028 \<lparr>p_off = 0, prop_id = 0, p_stack = st, stack_depth = 0\<rparr> s = (Inr (), s)"
    for dtb os st by (subst parse_loop.simps) (simp add: parse_step_def fdt_tokens)
  moreover have "init_devices s = (Inr (), s)"
    using assms(2) by (simp add: init_devices_def init_pass_def)
  ultimately show ?thesis
    using header_read [OF mem(1)] by (simp add: parse_dtb_def MAGIC_def)
qed

lemma empty_tree_held:
  assumes "\<And>a. unat a < 0x5000 \<Longrightarrow> m a = mem_at 0x4000 (cells_bytes empty_tree) a"
  shows "holds_bytes m 0x4000 (cells_bytes empty_tree)"
  unfolding holds_bytes_nth
proof (intro allI impI)
  fix i assume "i < length (cells_bytes empty_tree)"
  then have "i < 44" by simp
  then have "unat (0x4000 + of_nat i :: u64) < 0x5000" by (simp add: unat_word_ariths unat_of_nat)
  moreover have "mem_at 0x4000 (cells_bytes empty_tree) (0x4000 + of_nat i) = Some (cells_bytes empty_tree ! i)"
    using holds_bytes_mem_at [of "cells_bytes empty_tree" "0x4000"] \<open>i < 44\<close> unfolding holds_bytes_nth by simp
  ultimately show "m (0x4000 + of_nat i) = Some (cells_bytes empty_tree ! i)" by (simp only: assms)
qed

lemma kmain_example_parsed: "parse_dtb 0x4000 kmain_example = (Inr (), kmain_example)"
proof (rule empty_tree_parsed, rule empty_tree_held)
  fix a :: u64 assume "unat a < 0x5000"
  then have "\<not> 0x50101000 \<le> a" by (simp add: word_le_nat_alt)
  then show "ram kmain_example a = mem_at 0x4000 (cells_bytes empty_tree) a"
    unfolding kmain_example_def by simp
qed (simp add: kmain_example_def uart_example_tx_def uart_example_def)

theorem kmain_boots_witness:
  "\<exists>t. kmain idmap_example_syms 5 0x4000 kmain_example = (Inr (), t) \<and> rx_bytes t = []"
proof -
  have ready: "idmap_ready idmap_example_syms kmain_example"
  proof -
    have zero: "to_le_bytes (0 :: u64) = [0, 0, 0, 0, 0, 0, 0, 0]" by (simp add: to_le_bytes_def upt_rec)
    have "pte_at (ram kmain_example) 0x50101000 0" "pte_at (ram kmain_example) 0x50102000 0" "pte_at (ram kmain_example) 0x50102008 0"
      by (simp_all add: pte_at_def zero kmain_example_def)
    then show ?thesis
      using idmap_example_ready unfolding idmap_ready_def idmap_example_gib
      by (auto simp: idmap_example_syms_def less_2_cases_iff)
  qed
  have pre: "rx_ok kmain_example" "tx_ready kmain_example" "rx_bytes kmain_example = []"
    using rx_ok_example rx_bytes_example tx_ready_example
    by (simp_all add: kmain_example_def tx_ready_def rx_ok_def rx_bytes_def)
  show ?thesis
    using kmain_boots [OF kmain_example_parsed ready pre(1,2), of 5] unfolding pre(3) by auto
qed

text \<open>The headlines of the six vectors that report and give up.\<close>

fun fatal_headline :: "vector \<Rightarrow> string option" where
  "fatal_headline SP0_Sync = Some ''Bad mode in Synchronous Exception handler''"
| "fatal_headline SP0_IRQ = Some ''Bad mode in IRQ handler''"
| "fatal_headline SP0_FIQ = Some ''Bad mode in FIQ handler''"
| "fatal_headline SP0_SError = Some ''Bad mode in SError handler''"
| "fatal_headline SPx_FIQ = Some ''FIQ handler''"
| "fatal_headline SPx_SError = Some ''SError handler''"
| "fatal_headline _ = None"

lemma fatal_vector_sent:
  fixes s :: "('h, 'm) kernel_scheme"
  assumes "tx_ready s" and "fatal_headline v = Some h" and "holds_bytes (ram s) (f ! 1 AND NOT 3) [b0, b1, b2, b3]"
  shows "evt v f esr s = (Inl Panic, sent (str_bytes (h @ ''\<newline>Faulting instruction at 0x'' @ fmt_016x (f ! 1) @ '': ['' @ fmt_02X b0 @
    ''] '' @ fmt_02X b1 @ '' '' @ fmt_02X b2 @ '' '' @ fmt_02X b3 @ ''\<newline>'' @ frame_dump f)) s)"
proof -
  define instr where "instr = ''Faulting instruction at 0x'' @ fmt_016x (f ! 1) @ '': ['' @ fmt_02X b0 @
    ''] '' @ fmt_02X b1 @ '' '' @ fmt_02X b2 @ '' '' @ fmt_02X b3 @ ''\<newline>''"
  let ?r = "regs_of_frame f"
  have "r_elr ?r = f ! 1" by (simp add: regs_of_frame_def)
  then have "print_faulting_instr (r_elr ?r) t = (Inr (), sent (str_bytes instr) t)" if "tx_ready t" "ram t = ram s" for t :: "('h, 'm) kernel_scheme"
    using print_faulting_instr_sent [of t "f ! 1" b0 b1 b2 b3] assms(3) that unfolding instr_def by simp
  then have "block_M [println h, print_faulting_instr (r_elr ?r), print_regs ?r] s =
      (Inr (), sent (str_bytes (h @ ''\<newline>'' @ instr @ frame_dump f)) s)"
    using assms(1) by (simp add: println_sent print_regs_def Regs_print_sent regs_dump_frame)
  then have report: "seq_M (block_M [println h, print_faulting_instr (r_elr ?r), print_regs ?r]) (fail_M Panic) s =
      (Inl Panic, sent (str_bytes (h @ ''\<newline>'' @ instr @ frame_dump f)) s)"
    by (simp add: seq_M_def bind_M_def)
  have "evt v f esr s = seq_M (block_M [println h, print_faulting_instr (r_elr ?r), print_regs ?r]) (fail_M Panic) s"
    using assms(2) by (cases v) (auto simp: do_bad_sync_def do_bad_irq_def do_bad_fiq_def do_bad_serror_def do_fiq_def do_serror_def)
  then show ?thesis unfolding report instr_def by simp
qed

lemma panic_handler_runs:
  assumes "m s = (Inl Panic, sent bytes s)" and "tx_ready s"
  shows "\<exists>tx. with_panic_handler (Some (file, line)) m s = (Inl Hang, effect tx s) \<and>
    transmits (putchar_base (UART s)) (bytes @ str_bytes (''Panic at '' @ file @ '':'' @ fmt_dec line @ ''\<newline>'')) tx"
proof -
  define msg where "msg = ''Panic at '' @ file @ '':'' @ fmt_dec line"
  have "with_panic_handler (Some (file, line)) m s = (Inl Hang, sent (bytes @ str_bytes (msg @ ''\<newline>'')) s)"
    using assms by (simp add: with_panic_handler_def panic_handler_def println_sent msg_def)
  then show ?thesis using sent_transmits [of "bytes @ str_bytes (msg @ ''\<newline>'')" s] by (auto simp: msg_def simp del: str_bytes_simps)
qed


definition panic_example :: "store_hw kernel" where
  "panic_example = uart_example_tx\<lparr>ram := mem_at 0x4000 (cells_bytes (0xd00dfeee # replicate 9 0))\<rparr>"


end
