(* ===== verification/Boot.thy ===== *)
theory Boot
  imports Kmain
begin

text \<open>
  How the kernel comes up: the memory layout of \<^verbatim>\<open>linker.lds\<close> and the entry point \<open>_start\<close> of \<^verbatim>\<open>src/asm/head.S\<close>. The sizes of
  the four sections are a parameter (they come out of the compiler); the script turns them into the addresses of the
  symbols that \<open>setup_identity_mapping\<close> uses. What the boot loader has to provide is \<open>image_loaded\<close>: the image and the stack are
  in memory and the bytes of \<^verbatim>\<open>.bss\<close> are zero, as for every ELF file.
\<close>

section \<open>The linker script\<close>

text \<open>\<^verbatim>\<open>ALIGN(a)\<close>: the next multiple of \<open>a\<close>.\<close>

definition align_up :: "nat \<Rightarrow> nat \<Rightarrow> nat" where
  "align_up a n = (n + (a - 1)) div a * a"

lemma align_up_bounds: "0 < a \<Longrightarrow> n \<le> align_up a n" "0 < a \<Longrightarrow> align_up a n < n + a" "a dvd align_up a n"
proof -
  assume "0 < a"
  have "(n + (a - 1)) div a * a + (n + (a - 1)) mod a = n + (a - 1)" by simp
  moreover have "(n + (a - 1)) mod a < a" using \<open>0 < a\<close> by simp
  ultimately show "n \<le> align_up a n" "align_up a n < n + a" unfolding align_up_def using \<open>0 < a\<close> by linarith+
qed (simp add: align_up_def)

definition RAM_ORIGIN :: nat where "RAM_ORIGIN = 0x50000000"
definition RAM_LENGTH :: nat where "RAM_LENGTH = 16 * 1024 * 1024"
definition STACK_SIZE :: nat where "STACK_SIZE = 8 * 1024 * 1024"

text \<open>The bytes of each output section, with the orphan sections the linker appends to it.\<close>

record section_sizes =
  text_size :: nat
  rodata_size :: nat
  data_size :: nat
  bss_size :: nat

text \<open>The symbols of the script, in its order, and the address of the section \<^verbatim>\<open>.data\<close>, which has no symbol: \<^verbatim>\<open>__data_start\<close> stands before \<^verbatim>\<open>.rodata\<close>.\<close>

record layout =
  l_kernel_start :: nat
  l_text_start :: nat
  l_text_end :: nat
  l_data_start :: nat
  l_rodata_start :: nat
  l_rodata_end :: nat
  l_data :: nat
  l_bss_start :: nat
  l_idmap_l0 :: nat
  l_idmap_l1 :: nat
  l_bss_end :: nat
  l_data_end :: nat
  l_kernel_end :: nat
  l_stack_top :: nat

definition link :: "section_sizes \<Rightarrow> layout" where
  "link z =
     (let page = unat PAGE_SIZE;
          kernel_start = RAM_ORIGIN;
          text_start = kernel_start;
          text_end = text_start + text_size z;
          data_start = text_end;
          rodata_start = align_up page text_end;
          rodata_end = rodata_start + rodata_size z;
          data = align_up 4096 rodata_end;
          bss_start = align_up page (data + data_size z);
          idmap_l0 = align_up page (bss_start + bss_size z);
          idmap_l1 = idmap_l0 + page;
          bss_end = idmap_l1;
          data_end = bss_end;
          kernel_end = bss_end;
          stack_top = align_up page (kernel_end + STACK_SIZE)
      in \<lparr>l_kernel_start = kernel_start, l_text_start = text_start, l_text_end = text_end, l_data_start = data_start,
          l_rodata_start = rodata_start, l_rodata_end = rodata_end,
          l_data = data, l_bss_start = bss_start, l_idmap_l0 = idmap_l0, l_idmap_l1 = idmap_l1,
          l_bss_end = bss_end, l_data_end = data_end, l_kernel_end = kernel_end, l_stack_top = stack_top\<rparr>)"

text \<open>The linker refuses an image whose sections do not fit the region; the stack is outside every section and is not checked.\<close>

definition fits_ram :: "section_sizes \<Rightarrow> bool" where
  "fits_ram z \<longleftrightarrow> l_bss_end (link z) \<le> RAM_ORIGIN + RAM_LENGTH"

definition image_symbols :: "layout \<Rightarrow> linker_symbols" where
  "image_symbols l =
     \<lparr>kernel_start = of_nat (l_kernel_start l), ls_stack_top = of_nat (l_stack_top l),
      idmap_l0 = of_nat (l_idmap_l0 l), idmap_l1 = of_nat (l_idmap_l1 l)\<rparr>"

section \<open>head.S\<close>

definition CPACR_EL1_FPEN0 :: u64 where "CPACR_EL1_FPEN0 = push_bit 20 1"
definition CPACR_EL1_FPEN1 :: u64 where "CPACR_EL1_FPEN1 = push_bit 21 1"

text \<open>
  The entry point; \<open>x0\<close> is the address of the device tree and \<open>evt\<close> the address of the vector table. The instructions after the
  call of \<open>kmain\<close> are never reached, since \<open>kmain\<close> does not return (\<open>turns\<close> counts the turns of its endless loop).
\<close>

definition start :: "linker_symbols \<Rightarrow> u64 \<Rightarrow> nat \<Rightarrow> u64 \<Rightarrow> (('h, 'm) kernel_scheme, unit) M" where
  "start syms evt_addr turns x0 =
     (let x8 = x0 in
      block_M [msr DAIFSet 15,
               msr CPACR_EL1 (CPACR_EL1_FPEN0 OR CPACR_EL1_FPEN1),
               barrier ISB_SY,
               msr SP (ls_stack_top syms),
               msr VBAR_EL1 evt_addr,
               barrier ISB_SY,
               msr DAIFClr 2,
               kmain syms turns x8])"

definition start_program :: "linker_symbols \<Rightarrow> u64 \<Rightarrow> regop list" where
  "start_program syms evt_addr =
     [Msr DAIFSet 15, Msr CPACR_EL1 0x300000, Fence ISB_SY, Msr SP (ls_stack_top syms), Msr VBAR_EL1 evt_addr, Fence ISB_SY,
      Msr DAIFClr 2]"

lemma start_eq: "start syms evt_addr turns x0 s = kmain syms turns x0 (effect (start_program syms evt_addr) s)"
  by (simp add: start_def start_program_def msr_effect barrier_effect CPACR_EL1_FPEN0_def CPACR_EL1_FPEN1_def)

section \<open>The layout\<close>

lemma page_size [simp]: "unat PAGE_SIZE = 4096"
  by (simp add: PAGE_SIZE_def PAGE_SHIFT_def)

lemmas page_up = align_up_bounds [of 4096, simplified]

text \<open>The page tables: a page for level 0 at the end of \<^verbatim>\<open>.bss\<close>; level 1 begins where the kernel ends and the stack region starts.\<close>

lemma link_tables:
  "4096 dvd l_idmap_l0 (link z)" "l_idmap_l1 (link z) = l_idmap_l0 (link z) + 4096" "l_bss_end (link z) = l_idmap_l1 (link z)"
  "l_kernel_end (link z) = l_idmap_l1 (link z)" "l_stack_top (link z) = l_kernel_end (link z) + STACK_SIZE"
  "4096 dvd l_stack_top (link z)"
proof -
  show l0: "4096 dvd l_idmap_l0 (link z)" by (simp add: link_def Let_def page_up)
  then have "4096 dvd l_idmap_l0 (link z) + 4096 + STACK_SIZE" by (simp add: STACK_SIZE_def)
  then have "align_up 4096 (l_idmap_l0 (link z) + 4096 + STACK_SIZE) = l_idmap_l0 (link z) + 4096 + STACK_SIZE"
    by (auto simp: align_up_def elim!: dvdE)
  then show "l_stack_top (link z) = l_kernel_end (link z) + STACK_SIZE" by (simp add: link_def Let_def)
qed (simp_all add: link_def Let_def page_up)

text \<open>The sections follow one another.\<close>

lemma link_order:
  "l_kernel_start (link z) = RAM_ORIGIN" "l_kernel_start (link z) + text_size z = l_text_end (link z)"
  "l_text_end (link z) \<le> l_rodata_start (link z)" "l_rodata_start (link z) + rodata_size z = l_rodata_end (link z)"
  "l_rodata_end (link z) \<le> l_data (link z)" "l_data (link z) + data_size z \<le> l_bss_start (link z)"
  "l_bss_start (link z) + bss_size z \<le> l_idmap_l0 (link z)"
  by (simp_all add: link_def Let_def page_up)

lemma link_in_ram:
  assumes "fits_ram z"
  shows "RAM_ORIGIN \<le> l_bss_start (link z)" "l_bss_start (link z) \<le> l_idmap_l0 (link z)"
    "l_idmap_l1 (link z) \<le> 0x51000000" "l_stack_top (link z) \<le> 0x51800000" "l_idmap_l1 (link z) + 0x800000 = l_stack_top (link z)"
  using assms link_order [of z] link_tables(3-5) [of z]
  by (simp_all add: fits_ram_def RAM_ORIGIN_def RAM_LENGTH_def STACK_SIZE_def)

section \<open>The loaded image\<close>

definition image_loaded :: "section_sizes \<Rightarrow> ('h, 'm) machine_scheme \<Rightarrow> bool" where
  "image_loaded z s \<longleftrightarrow>
     (\<forall>a. RAM_ORIGIN \<le> unat a \<and> unat a < l_stack_top (link z) \<longrightarrow> ram s a \<noteq> None) \<and>
     (\<forall>a. l_bss_start (link z) \<le> unat a \<and> unat a < l_bss_end (link z) \<longrightarrow> ram s a = Some 0)"

lemma pte_present:
  assumes "\<forall>i < 8. m (p + of_nat i) \<noteq> None"
  shows "\<exists>v. pte_at m p v"
proof -
  let ?bs = "map (\<lambda>i. the (m (p + of_nat i))) [0..<8]"
  have "to_le_bytes (le_word ?bs :: u64) = ?bs" by (rule to_le_bytes_le_word) simp_all
  moreover have "holds_bytes m p ?bs" using assms by (auto simp: holds_bytes_nth)
  ultimately have "pte_at m p (le_word ?bs)" by (simp add: pte_at_def)
  then show ?thesis by blast
qed

lemma unat_address: "n + k < 2 ^ 64 \<Longrightarrow> unat (of_nat n + of_nat k :: u64) = n + k"
  unfolding of_nat_add [symmetric] unat_of_nat by simp

lemma unat_symbol: "n < 2 ^ 64 \<Longrightarrow> unat (of_nat n :: u64) = n"
  by (simp add: unat_of_nat)

text \<open>The symbols of an image that was linked, as addresses.\<close>

lemma image_symbols_values:
  assumes "fits_ram z"
  shows "unat (kernel_start (image_symbols (link z))) = RAM_ORIGIN" "unat (ls_stack_top (image_symbols (link z))) = l_stack_top (link z)"
    "unat (idmap_l0 (image_symbols (link z))) = l_idmap_l0 (link z)" "unat (idmap_l1 (image_symbols (link z))) = l_idmap_l1 (link z)"
    "mapped_gib (image_symbols (link z)) = 2"
proof -
  note r = link_in_ram [OF assms] link_order(1) [of z] link_tables(2) [of z]
  show v: "unat (kernel_start (image_symbols (link z))) = RAM_ORIGIN" "unat (ls_stack_top (image_symbols (link z))) = l_stack_top (link z)"
    "unat (idmap_l0 (image_symbols (link z))) = l_idmap_l0 (link z)" "unat (idmap_l1 (image_symbols (link z))) = l_idmap_l1 (link z)"
  proof -
    have "RAM_ORIGIN < 2 ^ 64" "l_stack_top (link z) < 2 ^ 64" "l_idmap_l0 (link z) < 2 ^ 64" "l_idmap_l1 (link z) < 2 ^ 64"
      using r by (simp_all add: RAM_ORIGIN_def)
    then show "unat (kernel_start (image_symbols (link z))) = RAM_ORIGIN" "unat (ls_stack_top (image_symbols (link z))) = l_stack_top (link z)"
      "unat (idmap_l0 (image_symbols (link z))) = l_idmap_l0 (link z)" "unat (idmap_l1 (image_symbols (link z))) = l_idmap_l1 (link z)"
      by (simp_all only: image_symbols_def linker_symbols.simps unat_symbol link_order(1))
  qed
  have "l_stack_top (link z) - RAM_ORIGIN + 0x1000000 < 2 ^ 30" using r(4) by (simp add: RAM_ORIGIN_def)
  then show "mapped_gib (image_symbols (link z)) = 2" unfolding mapped_gib_def v by simp
qed

lemma image_idmap_ready:
  assumes "fits_ram z" and loaded: "image_loaded z s"
  shows "idmap_ready (image_symbols (link z)) s"
proof -
  let ?l = "link z" and ?y = "image_symbols (link z)"
  note r = link_in_ram [OF assms(1)] link_tables [of z] and v = image_symbols_values [OF assms(1)]
  have low: "RAM_ORIGIN \<le> l_idmap_l0 ?l" using r(1,2) by simp
  have addr: "unat (idmap_l0 ?y + of_nat k) = l_idmap_l0 ?l + k" if "k < 0x800000" for k
    using that r by (simp add: image_symbols_def unat_address)
  have l1: "idmap_l1 ?y = idmap_l0 ?y + 4096" using r by (simp add: image_symbols_def)
  have here: "\<exists>v. pte_at (ram s) (l1_entry ?y i) v" if "i < 2" for i
  proof (rule pte_present, intro allI impI)
    fix j :: nat assume "j < 8"
    have at: "l1_entry ?y i + of_nat j = idmap_l0 ?y + of_nat (4096 + 8 * i + j)" unfolding l1 by simp
    have "unat (l1_entry ?y i + of_nat j) = l_idmap_l0 ?l + (4096 + 8 * i + j)"
      unfolding at using that \<open>j < 8\<close> by (intro addr) simp
    then show "ram s (l1_entry ?y i + of_nat j) \<noteq> None"
      using loaded low r that \<open>j < 8\<close> unfolding image_loaded_def by auto
  qed
  have apart: "apart (l1_entry ?y i) (idmap_l0 ?y)" if "i < 2" for i
  proof -
    have diff: "l1_entry ?y i - idmap_l0 ?y = of_nat (4096 + 8 * i)" unfolding l1 by simp
    have "unat (of_nat (4096 + 8 * i) :: u64) = 4096 + 8 * i" using that by (intro unat_symbol) simp
    then have "apart (idmap_l0 ?y) (l1_entry ?y i)" unfolding apart_iff diff using that by (simp del: of_nat_add of_nat_mult)
    then show ?thesis by (simp add: apart_def)
  qed
  have "to_le_bytes (0 :: u64) = replicate 8 0" by (rule nth_equalityI) (simp_all add: nth_to_le_bytes)
  moreover have "ram s (idmap_l0 ?y + of_nat i) = Some 0" if "i < 8" for i
    using loaded addr [of i] that r unfolding image_loaded_def by simp
  ultimately have zero: "pte_at (ram s) (idmap_l0 ?y) 0" by (simp add: pte_at_def holds_bytes_nth)
  have "4096 dvd l_idmap_l1 ?l" using r by simp
  then have "unat (take_bit 12 (idmap_l1 ?y)) = 0"
    unfolding unsigned_take_bit_eq v by (auto simp: take_bit_eq_mod)
  then have page: "take_bit 12 (idmap_l1 ?y) = 0" by (simp only: unat_eq_zero)
  show ?thesis
    unfolding idmap_ready_def v using here apart zero page r low
    by (simp add: word_le_nat_alt v)
qed

text \<open>What the whole parse leaves alone: memory, the receive buffer, the grant of polls and the bus.\<close>

definition boot_view :: "('h, 'm) kernel_scheme \<Rightarrow> 'h Machine.bus \<times> (u64 \<Rightarrow> u8 option) \<times> nat \<times> uart_buffer mutex" where
  "boot_view s = (bus s, ram s, spin s, RX_BUFFER s)"

lemma parse_keeps_boot_view:
  assumes "parse_dtb dtb s = (r, t)"
  shows "bus t = bus s" "ram t = ram s" "spin t = spin s" "RX_BUFFER t = RX_BUFFER s"
proof -
  have "keeps boot_view (parse_dtb dtb)"
    by (rule keeps_parse_dtb) (simp_all add: off_drivers_def off_tables_def off_hw_def boot_view_def)
  from keepsD [OF this assms] show "bus t = bus s" "ram t = ram s" "spin t = spin s" "RX_BUFFER t = RX_BUFFER s"
    by (simp_all add: boot_view_def)
qed

section \<open>Interrupt masks\<close>

lemma daif_start:
  assumes "daif_ok (bus s) daif"
  shows "daif (hw (effect (start_program syms evt_addr) s)) = 0x340"
proof -
  have "daif h OR 0x3C0 = 0x3C0" for h
  proof -
    have "daif h OR 0x3C0 = (daif h AND 0x3C0) OR 0x3C0" using assms by (simp add: daif_ok_def)
    also have "\<dots> = 0x3C0" by (rule bit_word_eqI) (auto simp: bit_or_iff bit_and_iff)
    finally show ?thesis .
  qed
  then show ?thesis
    using assms by (simp add: daif_ok_def hw_effect run_regops_def start_program_def)
qed

text \<open>Under the tables of \<open>setup_identity_mapping\<close>: the image and the stack are normal memory, the first gibibyte is device memory.\<close>

lemma image_mapped:
  assumes "fits_ram z" and syms: "syms = image_symbols (link z)" and "idmap_ready syms s"
    and "ram t = ram (with_blocks syms [0..<mapped_gib syms] (set_pte (idmap_l0 syms) (table_desc (idmap_l1 syms)) s))"
  shows "\<forall>va. 0x50000000 \<le> unat va \<and> unat va < l_stack_top (link z) \<longrightarrow>
      (\<exists>d. translate (ram t) (idmap_l0 syms) va = Some (va, d) \<and> take_bit 3 (drop_bit 2 d) = 2 \<and> \<not> bit d 53)"
    and "\<forall>va. unat va < 2 ^ 30 \<longrightarrow>
      (\<exists>d. translate (ram t) (idmap_l0 syms) va = Some (va, d) \<and> take_bit 3 (drop_bit 2 d) = 0 \<and> bit d 53)"
proof -
  have two: "mapped_gib syms = 2" and top: "l_stack_top (link z) \<le> 0x51800000"
    unfolding syms using image_symbols_values(5) [OF assms(1)] link_in_ram(4) [OF assms(1)] by simp_all
  note walk = identity_walk [OF assms(3) _ assms(4), unfolded two]
  show "\<forall>va. 0x50000000 \<le> unat va \<and> unat va < l_stack_top (link z) \<longrightarrow>
      (\<exists>d. translate (ram t) (idmap_l0 syms) va = Some (va, d) \<and> take_bit 3 (drop_bit 2 d) = 2 \<and> \<not> bit d 53)"
  proof (intro allI impI, elim conjE)
    fix va :: u64 assume va: "0x50000000 \<le> unat va" "unat va < l_stack_top (link z)"
    then have "unat va < 2 * 2 ^ 30" "\<not> unat va < 2 ^ 30" using top by simp_all
    from walk [OF this(1)] this(2)
    show "\<exists>d. translate (ram t) (idmap_l0 syms) va = Some (va, d) \<and> take_bit 3 (drop_bit 2 d) = 2 \<and> \<not> bit d 53"
      unfolding block_attrs_def by auto
  qed
  show "\<forall>va. unat va < 2 ^ 30 \<longrightarrow>
      (\<exists>d. translate (ram t) (idmap_l0 syms) va = Some (va, d) \<and> take_bit 3 (drop_bit 2 d) = 0 \<and> bit d 53)"
  proof (intro allI impI)
    fix va :: u64 assume va: "unat va < 2 ^ 30"
    then have "unat va < 2 * 2 ^ 30" by simp
    from walk [OF this] va
    show "\<exists>d. translate (ram t) (idmap_l0 syms) va = Some (va, d) \<and> take_bit 3 (drop_bit 2 d) = 0 \<and> bit d 53"
      unfolding block_attrs_def by auto
  qed
qed

section \<open>Properties\<close>

text \<open>
  C20. The linked image. If the sections fit their region, they follow one another without overlap from \<open>0x50000000\<close> on; both page
  tables are page-aligned and the level 0 page lies inside \<^verbatim>\<open>.bss\<close>. No room is reserved for the level 1 table: it begins at the
  end of the kernel, which is where the 8 MiB of the stack begin, so its page is the far end of the stack. The top of
  the stack is page-aligned and below \<open>0x51800000\<close>, and two gibibytes are mapped.
\<close>

theorem linked_image_layout:
  assumes "fits_ram z"
  shows "l_kernel_start (link z) = 0x50000000 \<and>
    l_kernel_start (link z) + text_size z \<le> l_rodata_start (link z) \<and>
    l_rodata_start (link z) + rodata_size z \<le> l_data (link z) \<and>
    l_data (link z) + data_size z \<le> l_bss_start (link z) \<and>
    l_bss_start (link z) + bss_size z \<le> l_idmap_l0 (link z) \<and> l_idmap_l0 (link z) + 4096 = l_bss_end (link z) \<and>
    4096 dvd l_idmap_l0 (link z) \<and> 4096 dvd l_idmap_l1 (link z) \<and> 4096 dvd l_stack_top (link z) \<and>
    l_idmap_l1 (link z) = l_kernel_end (link z) \<and> l_kernel_end (link z) + 8 * 2 ^ 20 = l_stack_top (link z) \<and>
    l_stack_top (link z) \<le> 0x51800000 \<and> mapped_gib (image_symbols (link z)) = 2"
  using link_tables [of z] link_order [of z] link_in_ram [OF assms] image_symbols_values(5) [OF assms]
  by (simp add: RAM_ORIGIN_def STACK_SIZE_def)

definition example_sizes :: section_sizes where
  "example_sizes = \<lparr>text_size = 0x9123, rodata_size = 0x1801, data_size = 0x20, bss_size = 0x8400\<rparr>"

lemma example_link:
  "link example_sizes = \<lparr>l_kernel_start = 0x50000000, l_text_start = 0x50000000, l_text_end = 0x50009123, l_data_start = 0x50009123, l_rodata_start = 0x5000A000, l_rodata_end = 0x5000B801,
     l_data = 0x5000C000, l_bss_start = 0x5000D000, l_idmap_l0 = 0x50016000, l_idmap_l1 = 0x50017000, l_bss_end = 0x50017000,
     l_data_end = 0x50017000, l_kernel_end = 0x50017000, l_stack_top = 0x50817000\<rparr>"
  by (simp only: link_def example_sizes_def Let_def layout.simps section_sizes.simps page_size RAM_ORIGIN_def STACK_SIZE_def)
    (simp add: align_up_def)

lemma example_fits: "fits_ram example_sizes"
  by (simp add: fits_ram_def example_link RAM_ORIGIN_def RAM_LENGTH_def)

theorem linked_image_layout_witness:
  "l_kernel_end (link example_sizes) + 8 * 2 ^ 20 = l_stack_top (link example_sizes) \<and> l_stack_top (link example_sizes) = 0x50817000"
  using linked_image_layout [OF example_fits] by (simp add: example_link)

text \<open>
  From the first instruction to the console. The image is loaded as linked, its \<^verbatim>\<open>.bss\<close> is zero, and parsing the tree and setting up its devices
  succeeds, once the entry code has unmasked interrupts and set the vectors. Then \<open>_start\<close> reaches the main loop. From there on
  every address of the image and of the stack is mapped to itself as normal memory that EL1 can execute, and every address below
  1 GiB, where the devices are, as device memory that cannot be executed; and whatever interrupts and turns of the main
  loop follow, nothing fails and what is written to the UART is what the abstract console prints.
\<close>

lemma image_boots_to_console:
  assumes fits: "fits_ram z" and loaded: "image_loaded z s" and syms: "syms = image_symbols (link z)"
    and parsed: "parse_dtb dtb (effect [Msr DAIFSet 15, Msr CPACR_EL1 0x300000, Fence ISB_SY, Msr SP (ls_stack_top syms),
      Msr VBAR_EL1 evt_addr, Fence ISB_SY, Msr DAIFClr 2] s) = (Inr (), s1)"
    and "rx_ok s" and "tx_ready s1"
  shows "\<exists>t u ops r. start syms evt_addr 0 dtb s = (Inr (), t) \<and> rx_bytes t = rx_bytes s \<and>
    (\<forall>va. 0x50000000 \<le> unat va \<and> unat va < l_stack_top (link z) \<longrightarrow>
       (\<exists>d. translate (ram t) (idmap_l0 syms) va = Some (va, d) \<and> take_bit 3 (drop_bit 2 d) = 2 \<and> \<not> bit d 53)) \<and>
    (\<forall>va. unat va < 2 ^ 30 \<longrightarrow>
       (\<exists>d. translate (ram t) (idmap_l0 syms) va = Some (va, d) \<and> take_bit 3 (drop_bit 2 d) = 0 \<and> bit d 53)) \<and>
    for_M events kernel_step t = (Inr (), u) \<and> u = (effect ops t)\<lparr>RX_BUFFER := r\<rparr> \<and>
    written (putchar_base (UART s1)) ops =
      map ucast (str_bytes (fst (spec_runs console_step (stimuli kernel_step kernel_stimulus events t) (rx_bytes s)))) \<and>
    rx_bytes u = snd (spec_runs console_step (stimuli kernel_step kernel_stimulus events t) (rx_bytes s))"
proof -
  note same = parse_keeps_boot_view [OF parsed, simplified]
  have "rx_ok s1" and rx: "rx_bytes s1 = rx_bytes s" using assms(5) same(4) by (simp_all add: rx_ok_def rx_bytes_def)
  then have ok: "console_ok s1" using assms(6) by (simp add: console_ok_def)
  have ready: "idmap_ready syms s1"
    unfolding syms using loaded same(2) by (intro image_idmap_ready [OF fits]) (simp add: image_loaded_def)
  obtain t where t: "kmain syms 0 dtb (effect (start_program syms evt_addr) s) = (Inr (), t)" "rx_bytes t = rx_bytes s"
    "console_ok t" "UART t = UART s1"
    "ram t = ram (with_blocks syms [0..<mapped_gib syms] (set_pte (idmap_l0 syms) (table_desc (idmap_l1 syms)) s1))"
    using kmain_runs [OF parsed [folded start_program_def] ready ok, of 0] rx by auto
  note mapped = image_mapped [OF fits syms ready t(5)]
  obtain u where u: "for_M events kernel_step t = (Inr (), u)"
    "prints t u (fst (spec_runs console_step (stimuli kernel_step kernel_stimulus events t) (rx_bytes t)))"
    "rx_bytes u = snd (spec_runs console_step (stimuli kernel_step kernel_stimulus events t) (rx_bytes t))"
    using console.run_simulates [OF t(3)] by blast
  then obtain ops r where "u = (effect ops t)\<lparr>RX_BUFFER := r\<rparr>" "written (putchar_base (UART s1)) ops =
      map ucast (str_bytes (fst (spec_runs console_step (stimuli kernel_step kernel_stimulus events t) (rx_bytes s))))"
    unfolding prints_def t(2,4) by blast
  with t(1,2) mapped u(1) u(3) [unfolded t(2)] show ?thesis unfolding start_eq by (intro exI conjI)
qed

definition boot_image :: "store_hw kernel" where
  "boot_image = uart_example_tx\<lparr>ram := (\<lambda>a. if 0x50000000 \<le> unat a \<and> unat a < 0x50817000 then Some 0
     else mem_at 0x4000 (cells_bytes empty_tree) a)\<rparr>"

lemma boot_image_loaded: "image_loaded example_sizes boot_image"
  by (simp add: image_loaded_def example_link boot_image_def RAM_ORIGIN_def)

lemma image_boots_to_console_witness:
  "\<exists>t d. start (image_symbols (link example_sizes)) 0x50000800 0 0x4000 boot_image = (Inr (), t) \<and>
     translate (ram t) (idmap_l0 (image_symbols (link example_sizes))) 0x50000800 = Some (0x50000800, d) \<and> \<not> bit d 53"
proof -
  let ?syms = "image_symbols (link example_sizes)"
  let ?s = "effect [Msr DAIFSet 15, Msr CPACR_EL1 0x300000, Fence ISB_SY, Msr SP (ls_stack_top ?syms),
      Msr VBAR_EL1 0x50000800, Fence ISB_SY, Msr DAIFClr 2] boot_image"
  have "holds_bytes (ram ?s) 0x4000 (cells_bytes empty_tree)"
    by (rule empty_tree_held) (simp add: boot_image_def)
  moreover have "DEVICE_COUNT ?s = 0" by (simp add: effect_def boot_image_def uart_example_tx_def uart_example_def)
  ultimately have parsed: "parse_dtb 0x4000 ?s = (Inr (), ?s)" by (rule empty_tree_parsed)
  have "rx_ok boot_image" "tx_ready ?s"
    using rx_ok_example tx_ready_example by (simp_all add: boot_image_def rx_ok_def) (simp add: tx_ready_def)
  from image_boots_to_console [OF example_fits boot_image_loaded refl parsed this, of "[]"]
  obtain t where "start ?syms 0x50000800 0 0x4000 boot_image = (Inr (), t)"
    and "\<forall>va. 0x50000000 \<le> unat va \<and> unat va < l_stack_top (link example_sizes) \<longrightarrow>
       (\<exists>d. translate (ram t) (idmap_l0 ?syms) va = Some (va, d) \<and> take_bit 3 (drop_bit 2 d) = 2 \<and> \<not> bit d 53)" by blast
  moreover from this(2) [rule_format, of "0x50000800"]
  have "\<exists>d. translate (ram t) (idmap_l0 ?syms) 0x50000800 = Some (0x50000800, d) \<and> \<not> bit d 53"
    by (auto simp: example_link)
  ultimately show ?thesis by blast
qed

text \<open>
  C13. Interrupt masks. On a processor whose mask register behaves as documented, \<open>kmain\<close> is entered with interrupts unmasked and with debug
  exceptions, SError and FIQ masked, whatever the masks were before. A closure under \<open>lock_irqsafe\<close> runs with interrupts
  masked and the lock taken: two closures that agree on such states cannot be told apart by the whole call, and a closure that reads the mask sees
  bit 7 set. Both callers of the kernel, \<open>getchar\<close> and the receive handler, leave the mask as they found it.
\<close>

theorem interrupt_masks:
  assumes ok: "daif_ok (bus s) daif" and "rx_ok s" and "0 < spin s"
  shows "(\<exists>k. start syms evt_addr turns dtb s = kmain syms turns dtb k \<and> daif (hw k) = 0x340) \<and>
    ((\<forall>q u. bit (daif (hw u)) 7 \<and> mutex_lock (RX_BUFFER u) \<longrightarrow> f q u = g q u) \<longrightarrow>
       lock_irqsafe RX_BUFFER RX_put f s = lock_irqsafe RX_BUFFER RX_put g s) \<and>
    (\<exists>v t. lock_irqsafe RX_BUFFER RX_put (\<lambda>q. bind_M (mrs DAIF) (\<lambda>v. return_M (v, q))) s = (Inr v, t) \<and>
       bit v 7 \<and> daif (hw t) = daif (hw s)) \<and>
    (\<exists>c t. getchar s = (Inr c, t) \<and> daif (hw t) = daif (hw s)) \<and>
    (\<exists>t. do_irq 33 s = (Inr 33, t) \<and> daif (hw t) = daif (hw s))"
proof (intro conjI impI)
  show "\<exists>k. start syms evt_addr turns dtb s = kmain syms turns dtb k \<and> daif (hw k) = 0x340"
    using start_eq daif_start [OF ok] by blast
  have locked: "daif (hw (rx_locked s)) = daif (hw s) OR 0x80" "mutex_lock (RX_BUFFER (rx_locked s))" "bus (rx_locked s) = bus s"
    using daif_section(1) [OF ok] by (simp_all add: rx_locked_def effect_def)
  have masked: "bit (daif (hw (rx_locked s))) 7" unfolding locked by (simp add: bit_or_iff)
  show "lock_irqsafe RX_BUFFER RX_put f s = lock_irqsafe RX_BUFFER RX_put g s"
    if "\<forall>q u. bit (daif (hw u)) 7 \<and> mutex_lock (RX_BUFFER u) \<longrightarrow> f q u = g q u"
    using assms(2,3) that masked locked(2) by (intro rx_mutex.lock_irqsafe_cong) (simp_all add: rx_ok_def rx_locked_def)
  have hw_rx: "hw (with_rx q t) = hw t" for q and t :: "('a, 'b) kernel_scheme" by (simp add: with_rx_def)
  have quiet: "daif (bus_write32 (bus s) a v h) = daif h" for h a v using ok by (simp add: daif_ok_def)
  let ?probe = "\<lambda>q. bind_M (mrs DAIF) (\<lambda>v. return_M (v, q))"
  have probe: "?probe q (rx_locked s) = (Inr (peek_sys (rx_locked s) DAIF, q), effect [Mrs DAIF] (rx_locked s))" for q
    by (simp add: mrs_effect)
  have same: "daif (hw (effect [Mrs DAIF, Msr DAIFSet 2, Mrs DAIF, Msr DAIF (peek_sys s DAIF)] s)) = daif (hw s)"
    using ok by (simp add: daif_ok_def hw_effect run_regops_def peek_sys_def)
  have "peek_sys (rx_locked s) DAIF = daif (hw (rx_locked s))" using daif_steps(1) [of "rx_locked s"] ok locked(3) by simp
  with lock_rx [where f = ?probe, OF assms(2,3) probe] masked same
  show "\<exists>v t. lock_irqsafe RX_BUFFER RX_put ?probe s = (Inr v, t) \<and> bit v 7 \<and> daif (hw t) = daif (hw s)" by (simp add: hw_rx)
  obtain c q where "getchar s = (Inr c, with_rx q (effect [Mrs DAIF, Msr DAIFSet 2, Msr DAIF (peek_sys s DAIF)] s))"
    using getchar_program [OF assms(2,3)] by blast
  then show "\<exists>c t. getchar s = (Inr c, t) \<and> daif (hw t) = daif (hw s)"
    using daif_section(2) [OF ok] by (auto simp: hw_rx)
  obtain q' where "do_irq 33 s = (Inr 33, with_rx q' (effect (rx_irq_program s) s))"
    using do_irq_rx [OF assms(2,3)] by blast
  moreover have "daif (hw (with_rx q' (effect (rx_irq_program s) s))) = daif (hw s)"
    using quiet daif_section(3) [OF ok, of "base_addr (UART s)"] by (simp add: rx_irq_program_def with_rx_def hw_effect run_regops_def)
  ultimately show "\<exists>t. do_irq 33 s = (Inr 33, t) \<and> daif (hw t) = daif (hw s)" by blast
qed

text \<open>A processor with a mask register.\<close>

definition daif_of :: "store_hw \<Rightarrow> u64" where
  "daif_of h = sh_sys h DAIF AND 0x3C0"

definition daif_bus :: "store_hw Machine.bus" where
  "daif_bus = slow_bus
     \<lparr>cpu_mrs := (\<lambda>r h. (if r = DAIF then daif_of h else sh_sys h r, h)),
      cpu_msr := (\<lambda>r v h. h\<lparr>sh_sys :=
        if r = DAIFSet then (sh_sys h)(DAIF := daif_of h OR push_bit 6 (v AND 15))
        else if r = DAIFClr then (sh_sys h)(DAIF := daif_of h AND NOT (push_bit 6 (v AND 15)))
        else (sh_sys h)(r := v)\<rparr>)\<rparr>"

lemma daif_ok_bus: "daif_ok daif_bus daif_of"
proof -
  have mask: "(a AND m OR b AND m) AND m = a AND m OR b AND m" "((a AND m) AND NOT (b AND m)) AND m = (a AND m) AND NOT (b AND m)"
    for a b m :: u64 by (rule bit_word_eqI, auto simp: bit_or_iff bit_and_iff bit_not_iff)+
  have "push_bit 6 (v AND 15) = push_bit 6 v AND (0x3C0 :: u64)" for v :: u64 by (simp add: push_bit_and)
  then show ?thesis
    using mask [of _ "0x3C0" "push_bit 6 _"]
    by (simp add: daif_ok_def daif_bus_def daif_of_def slow_bus_def store_bus_def and.assoc)
qed

theorem interrupt_masks_witness:
  "(\<exists>k. start (image_symbols (link example_sizes)) 0x50000800 3 0x4000 (boot_image\<lparr>bus := daif_bus\<rparr>) =
     kmain (image_symbols (link example_sizes)) 3 0x4000 k \<and> daif_of (hw k) = 0x340) \<and>
   (\<exists>v t. lock_irqsafe RX_BUFFER RX_put (\<lambda>q. bind_M (mrs DAIF) (\<lambda>v. return_M (v, q))) (boot_image\<lparr>bus := daif_bus\<rparr>) = (Inr v, t) \<and>
     bit v 7 \<and> \<not> bit (daif_of (hw t)) 7)"
proof -
  let ?s = "boot_image\<lparr>bus := daif_bus\<rparr>"
  have s: "rx_ok ?s" "0 < spin ?s" "daif_ok (bus ?s) daif_of"
    using rx_ok_example daif_ok_bus by (simp_all add: boot_image_def rx_ok_def)
  have "\<not> bit (daif_of (hw ?s)) 7" by (simp add: boot_image_def daif_of_def store_hw0_def)
  with interrupt_masks [OF s(3,1,2)] show ?thesis by metis
qed

end
