(* ===== verification/Kernel_Inv.thy ===== *)
theory Kernel_Inv
  imports Boot
begin

text \<open>
  The types of the kernel's statics, as an invariant of everything that can happen: the device tables are well formed, the indices of the
  receive buffer are in range, and the line settings of the UART are those it was created with. The reachable states are those
  after \<open>_start\<close>, after any exception through the vector table, after any turn of the main loop and after the panic handler, in any order, however each
  of them ends, and with any change of the hardware in between.
\<close>

section \<open>The invariant\<close>

definition line_settings :: "uart_pl011 \<Rightarrow> u32 \<times> u8 \<times> u8" where
  "line_settings u = (baudrate u, data_bits u, stop_bits u)"

definition statics_ok :: "('h, 'm) kernel_scheme \<Rightarrow> bool" where
  "statics_ok s \<longleftrightarrow> tables_ok s \<and> line_settings (UART s) = (115200, 8, 1)"

definition kernel_inv :: "('h, 'm) kernel_scheme \<Rightarrow> bool" where
  "kernel_inv s \<longleftrightarrow> statics_ok s \<and> ring_inv (mutex_data (RX_BUFFER s))"

text \<open>What the invariant depends on.\<close>

definition inv_view :: "('h, 'm) kernel_scheme \<Rightarrow>
    (nat \<times> platform_device list \<times> nat \<times> (u32 \<times> nat) list) \<times> (u32 \<times> u8 \<times> u8) \<times> uart_buffer mutex" where
  "inv_view s = ((DEVICE_COUNT s, DEVICE_TABLE s, PHANDLE_COUNT s, PHANDLE_TABLE s), line_settings (UART s), RX_BUFFER s)"

lemma inv_view_cong: "inv_view t = inv_view s \<Longrightarrow> kernel_inv t = kernel_inv s"
  by (simp add: inv_view_def kernel_inv_def statics_ok_def tables_ok_def)

lemma keeps_preserves: "keeps inv_view m \<Longrightarrow> preserves kernel_inv m"
  by (auto simp: keeps_def preserves_def dest: spec inv_view_cong)

lemma off_hw_inv_view [simp]: "off_hw inv_view"
  by (simp add: off_hw_def inv_view_def)

section \<open>What does not touch the statics\<close>

lemma keeps_print [keeps_rules]:
  assumes "off_hw f"
  shows "keeps f (putchar c)" "keeps f (print str)" "keeps f (println str)"
proof -
  show c: "keeps f (putchar c)" for c
    unfolding putchar_def UartPl011_putchar_def flag_set_def by (intro keeps_rules assms)
  show p: "keeps f (print str)" for str
    unfolding print_def write_str_def by (intro keeps_rules c)
  show "keeps f (println str)" unfolding println_def by (rule p)
qed

lemma keeps_timer [keeps_rules]: "off_hw f \<Longrightarrow> keeps f get_frequency" "off_hw f \<Longrightarrow> keeps f (rearm t)" "off_hw f \<Longrightarrow> keeps f (arm_ms ms)"
  unfolding timer_defs arm_ms_def by (intro keeps_rules; assumption)+

text \<open>A part of the state outside memory.\<close>

definition off_ram :: "(('h, 'm) machine_scheme \<Rightarrow> 'x) \<Rightarrow> bool" where
  "off_ram f \<longleftrightarrow> (\<forall>s m. f (s\<lparr>ram := m\<rparr>) = f s)"

lemma off_ram_inv_view [simp]: "off_ram inv_view"
  by (simp add: off_ram_def inv_view_def)

lemma keeps_pte [keeps_rules]:
  assumes "off_ram f"
  shows "keeps f (read_pte p)" "keeps f (write_pte p v)" "keeps f (or_pte p v)"
proof -
  have u8: "keeps f (store_u8 p b)" for p b
    using assms by (simp add: keeps_def store_u8_def off_ram_def split: option.splits)
  have bytes: "keeps f (store_bytes bs p)" for bs p
    by (induction bs arbitrary: p) (simp_all add: keeps_basic keeps_seq u8)
  show r: "keeps f (read_pte p)" for p unfolding read_pte_def by (intro keeps_rules)
  show w: "keeps f (write_pte p v)" for p v unfolding write_pte_def by (rule bytes)
  show "keeps f (or_pte p v)" unfolding or_pte_def by (intro keeps_rules r w)
qed

lemma keeps_mm [keeps_rules]:
  assumes "off_hw f" "off_ram f"
  shows "keeps f setup_mair_ranges" "keeps f (setup_identity_mapping syms)"
proof -
  show "keeps f setup_mair_ranges"
    unfolding setup_mair_ranges_def configure_mair_range_def by (intro keeps_rules assms)
  have block: "keeps f (map_block syms i j)" for i j
    unfolding map_block_def mark_block_desc_def set_mair_range_def set_table_attrs_def set_next_lvl_table_addr_def
    by (intro keeps_rules assms)
  show "keeps f (setup_identity_mapping syms)"
    unfolding setup_identity_mapping_def mark_page_desc_def set_table_attrs_def set_next_lvl_table_addr_def
      load_ttbr0_def enable_mmu_def configure_tcr_def
    by (intro keeps_rules assms block)
qed

lemma keeps_diagnostics [keeps_rules]:
  assumes "off_hw f"
  shows "keeps f (print_faulting_instr a)" "keeps f (print_regs r)"
proof -
  show "keeps f (print_faulting_instr a)"
    unfolding print_faulting_instr_def print_faulting_byte_def by (intro keeps_rules assms)
  have "keeps f (case x of (name, v) \<Rightarrow> println (g name v))" for x g
    by (cases x) (simp add: keeps_print assms)
  then show "keeps f (print_regs r)"
    unfolding print_regs_def Regs_print_def by (intro keeps_rules assms)
qed

lemma keeps_panic_handler [keeps_rules]: "off_hw f \<Longrightarrow> keeps f (panic_handler l)"
  unfolding panic_handler_def by (intro keeps_rules; assumption)

section \<open>What changes the receive buffer\<close>

lemma getchar_preserves: "preserves kernel_inv getchar"
  unfolding kernel_inv_def getchar_def
proof (rule rx_mutex.lock_irqsafe_preserves)
  fix d assume d: "ring_inv d"
  show "outcome (\<lambda>s :: ('a, 'b) kernel_scheme. statics_ok s \<and> ring_inv (mutex_data (RX_BUFFER s))) (pop d)
     (\<lambda>(r, d') s. statics_ok s \<and> ring_inv (mutex_data (RX_BUFFER s)) \<and> ring_inv d')
     (\<lambda>s. statics_ok s \<and> ring_inv (mutex_data (RX_BUFFER s)))"
  proof (rule outcome_returns)
    fix s :: "('a, 'b) kernel_scheme" assume "statics_ok s \<and> ring_inv (mutex_data (RX_BUFFER s))"
    then show "\<exists>x t. pop d s = (Inr x, t) \<and>
        (case x of (r, d') \<Rightarrow> \<lambda>s. statics_ok s \<and> ring_inv (mutex_data (RX_BUFFER s)) \<and> ring_inv d') t"
      using rx_queue.pop_refines [OF d, of s] by auto
  qed
qed (simp_all add: statics_ok_def tables_ok_def effect_def)

lemma receive_preserves:
  "preserves kernel_inv (lock_irqsafe RX_BUFFER RX_put (\<lambda>rx. bind_M (read_mmio32 base 0) (\<lambda>ch.
     bind_M (push rx (ucast ch)) (\<lambda>(_, rx'). return_M ((), rx')))))"
  unfolding kernel_inv_def
proof (rule rx_mutex.lock_irqsafe_preserves)
  fix d assume d: "ring_inv d"
  show "outcome (\<lambda>s :: ('a, 'b) kernel_scheme. statics_ok s \<and> ring_inv (mutex_data (RX_BUFFER s)))
     (bind_M (read_mmio32 base 0) (\<lambda>ch. bind_M (push d (ucast ch)) (\<lambda>(_, rx'). return_M ((), rx'))))
     (\<lambda>(r, d') s. statics_ok s \<and> ring_inv (mutex_data (RX_BUFFER s)) \<and> ring_inv d')
     (\<lambda>s. statics_ok s \<and> ring_inv (mutex_data (RX_BUFFER s)))"
  proof (rule outcome_returns)
    fix s :: "('a, 'b) kernel_scheme" assume s: "statics_ok s \<and> ring_inv (mutex_data (RX_BUFFER s))"
    let ?t = "effect [Read32 base] s" and ?b = "ucast (peek32 s base)"
    have "statics_ok ?t \<and> ring_inv (mutex_data (RX_BUFFER ?t))" using s by (simp add: statics_ok_def tables_ok_def effect_def)
    then show "\<exists>x t. bind_M (read_mmio32 base 0) (\<lambda>ch. bind_M (push d (ucast ch)) (\<lambda>(_, rx'). return_M ((), rx'))) s = (Inr x, t) \<and>
        (case x of (r, d') \<Rightarrow> \<lambda>s. statics_ok s \<and> ring_inv (mutex_data (RX_BUFFER s)) \<and> ring_inv d') t"
      using rx_queue.push_refines [OF d, of ?b ?t] by (auto simp: read_mmio32_effect)
  qed
qed (simp_all add: statics_ok_def tables_ok_def effect_def)

section \<open>Every entry point\<close>

lemma do_irq_preserves: "preserves kernel_inv (do_irq n)"
  unfolding do_irq_def get_base_addr_def
  by (intro preserves_rules receive_preserves; rule keeps_preserves, intro keeps_rules off_hw_inv_view)

lemma main_loop_preserves: "preserves kernel_inv main_loop_body" "preserves kernel_inv (main_loop n)"
proof -
  show body: "preserves kernel_inv main_loop_body"
    unfolding main_loop_body_def
    by (intro preserves_rules getchar_preserves; rule keeps_preserves, intro keeps_rules off_hw_inv_view)
  show "preserves kernel_inv (main_loop n)" unfolding main_loop_def by (intro preserves_rules body)
qed

lemma evt_preserves: "preserves kernel_inv (evt v frame esr)"
proof (cases "v = SPx_IRQ")
  case True
  then show ?thesis
    by (simp add: irq_handler_def)
      (intro preserves_rules do_irq_preserves; rule keeps_preserves, intro keeps_rules off_hw_inv_view)
next
  case False
  then have "keeps inv_view (evt v frame esr)"
    by (cases v; simp only: evt.simps sync_handler_def unimplemented_sync_def do_sync_def do_bad_sync_def do_bad_irq_def
        do_bad_fiq_def do_bad_serror_def do_fiq_def do_serror_def; (intro keeps_rules off_hw_inv_view | blast))
  then show ?thesis by (rule keeps_preserves)
qed

text \<open>The statics as they are linked into the image.\<close>

definition boot_statics :: "('h, 'm) kernel_scheme \<Rightarrow> bool" where
  "boot_statics s \<longleftrightarrow> boot_tables s \<and> UART s = UartPl011_new \<and> RX_BUFFER s = Mutex_new UartBuffer_init"

lemma parse_establishes:
  fixes s :: "('h, 'm) kernel_scheme"
  assumes boot: "boot_statics s"
  shows "kernel_inv (snd (parse_dtb dtb s))"
proof -
  have "keeps (\<lambda>s :: ('h, 'm) kernel_scheme. (line_settings (UART s), RX_BUFFER s)) (parse_dtb dtb)"
    by (rule keeps_parse_dtb)
      (simp_all add: off_drivers_def off_tables_def off_hw_def line_settings_def UartPl011_init_def)
  then have "line_settings (UART (snd (parse_dtb dtb s))) = line_settings (UART s)" "RX_BUFFER (snd (parse_dtb dtb s)) = RX_BUFFER s"
    by (simp_all add: keeps_def)
  then show ?thesis
    using boot parse_dtb_keeps_tables [of s dtb]
    by (simp add: boot_statics_def kernel_inv_def statics_ok_def line_settings_def UartPl011_new_def Mutex_new_def ring_inv_init)
qed

lemma start_establishes: "boot_statics s \<Longrightarrow> kernel_inv (snd (start syms evt_addr turns dtb s))"
proof -
  assume "boot_statics s"
  then have "boot_statics (effect (start_program syms evt_addr) s)"
    by (simp add: boot_statics_def boot_tables_def effect_def)
  then have parsed: "kernel_inv (snd (parse_dtb dtb (effect (start_program syms evt_addr) s)))" by (rule parse_establishes)
  have "preserves kernel_inv (block_M [setup_mair_ranges, setup_identity_mapping syms, println ''Hello, from Rust'',
      println ''Arming the timer (1000ms)'', arm_ms 1000, main_loop turns])"
    by (intro preserves_rules main_loop_preserves; rule keeps_preserves, intro keeps_rules off_hw_inv_view off_ram_inv_view)
  then show ?thesis
    unfolding start_eq kmain_def block_M.simps(2) [of "parse_dtb dtb"]
    using parsed by (cases "parse_dtb dtb (effect (start_program syms evt_addr) s)")
      (auto simp: seq_M_def bind_M_def preserves_def simp del: block_M.simps split: sum.splits)
qed

text \<open>The states of a running kernel, at the boundaries of its entry points.\<close>

inductive kernel_reachable :: "'h kernel \<Rightarrow> bool" where
  boot: "boot_statics s \<Longrightarrow> start syms evt_addr turns dtb s = (r, t) \<Longrightarrow> kernel_reachable t"
| exception: "kernel_reachable s \<Longrightarrow> evt v frame esr s = (r', t) \<Longrightarrow> kernel_reachable t"
| turns: "kernel_reachable s \<Longrightarrow> main_loop n s = (r, t) \<Longrightarrow> kernel_reachable t"
| panic: "kernel_reachable s \<Longrightarrow> panic_handler l s = (r :: fault + unit, t) \<Longrightarrow> kernel_reachable t"
| hardware: "kernel_reachable s \<Longrightarrow> kernel_reachable (s\<lparr>hw := h\<rparr>)"

lemma reachable_inv: "kernel_reachable s \<Longrightarrow> kernel_inv s"
proof (induction rule: kernel_reachable.induct)
  case (boot s syms evt_addr turns dtb r t)
  then show ?case using start_establishes [of s syms evt_addr turns dtb] by simp
next
  case (exception s v frame esr r' t)
  then show ?case using preservesD [OF evt_preserves] by blast
next
  case (turns s n r t)
  then show ?case using preservesD [OF main_loop_preserves(2)] by blast
next
  case (panic s l r t)
  then show ?case using preservesD [OF keeps_preserves [OF keeps_panic_handler [OF off_hw_inv_view]]] by blast
next
  case (hardware s h)
  then show ?case by (simp add: kernel_inv_def statics_ok_def tables_ok_def)
qed

section \<open>Reading a character never panics\<close>

lemma getchar_ends:
  assumes "ring_inv (mutex_data (RX_BUFFER s))"
  shows "(\<exists>c. fst (getchar s) = Inr c) \<or> fst (getchar s) = Inl Hang"
proof (cases "mutex_lock (RX_BUFFER s) \<or> spin s = 0")
  case True
  let ?s = "effect [Mrs DAIF, Msr DAIFSet 2] s"
  have "lock RX_BUFFER RX_put pop ?s = (Inl Hang, ?s)"
    using True rx_mutex.lock_held [of ?s pop] by (auto simp: lock_def while_M_def)
  then show ?thesis by (simp add: getchar_def lock_irqsafe_def disable_irq_def mrs_effect msr_effect)
next
  case False
  then have "rx_ok s" "0 < spin s" using assms by (simp_all add: rx_ok_def)
  from getchar_program [OF this] show ?thesis by auto
qed

section \<open>Properties\<close>

text \<open>
  C7. The statics keep their types for ever. In every state that the kernel can reach from its image as linked, by booting on any device tree,
  by any exceptions through any of the vectors with any frame, by turns of the main loop and by panics, in any order, however each of
  them ends, and whatever the hardware does in between: the device and phandle tables are well formed, the receive buffer has 256
  entries and both its indices are below 256, and the UART keeps its line settings, so that its
  divisor is never zero. In such a state \<open>getchar\<close> returns or waits for the lock; it never panics.
\<close>

theorem kernel_types_invariant:
  assumes "kernel_reachable s"
  shows "tables_ok s \<and> length (ub_buffer (mutex_data (RX_BUFFER s))) = 256 \<and>
    unat (ub_head (mutex_data (RX_BUFFER s))) < 256 \<and> unat (ub_tail (mutex_data (RX_BUFFER s))) < 256 \<and>
    baudrate (UART s) = 115200 \<and> data_bits (UART s) = 8 \<and> stop_bits (UART s) = 1 \<and>
    ((\<exists>c. fst (getchar s) = Inr c) \<or> fst (getchar s) = Inl Hang)"
  using reachable_inv [OF assms] getchar_ends [of s]
  by (simp add: kernel_inv_def statics_ok_def line_settings_def ring_inv_def)

definition fresh_image :: "store_hw kernel" where
  "fresh_image = boot_image\<lparr>UART := UartPl011_new, DEVICE_TABLE := DEVICE_TABLE_init, PHANDLE_TABLE := PHANDLE_TABLE_init\<rparr>"

theorem kernel_types_invariant_witness:
  "\<exists>t. t = snd (evt SPx_IRQ [] 0 (snd (start (image_symbols (link example_sizes)) 0x50000800 3 0x4000 fresh_image))) \<and>
     tables_ok t \<and> baudrate (UART t) = 115200"
proof -
  let ?s = "start (image_symbols (link example_sizes)) 0x50000800 3 0x4000 fresh_image"
  have "boot_statics fresh_image"
    by (simp add: boot_statics_def boot_tables_def fresh_image_def boot_image_def uart_example_tx_def uart_example_def)
  then have "kernel_reachable (snd ?s)" by (rule kernel_reachable.boot [of _ _ _ _ _ "fst ?s"]) simp
  then have "kernel_reachable (snd (evt SPx_IRQ [] 0 (snd ?s)))"
    by (rule kernel_reachable.exception [of _ SPx_IRQ "[]" 0 "fst (evt SPx_IRQ [] 0 (snd ?s))"]) simp
  from kernel_types_invariant [OF this] show ?thesis by blast
qed

end
