(* ===== verification/Preempt.thy ===== *)
theory Preempt
  imports Kernel_Inv "HOL-Library.Sublist"
begin

text \<open>
  Interrupts in the middle of printing. The main loop is cut where an interrupt can come in: before \<open>getchar\<close>, which runs with interrupts masked,
  before each look of \<open>putchar\<close> at the flag register and before each write to the data register. The position of the main loop is a further
  field of the state, so that the handler of the interrupt theories runs on the same state unchanged. The first part shows that nothing is
  lost or reordered by the kernel; the second, on a UART with a FIFO of sixteen bytes, that the hardware can lose a byte all the same.
\<close>

section \<open>The main loop, one access at a time\<close>

datatype main_position = Fetching | Polling "u8 list" | Writing u8 "u8 list"

record 'h running = "'h kernel" +
  main_at :: main_position

definition go :: "main_position \<Rightarrow> (('h, 'm) running_scheme, unit) M" where
  "go p = modify_M (\<lambda>s. s\<lparr>main_at := p\<rparr>)"

definition echo_bytes :: "u8 \<Rightarrow> u8 list" where
  "echo_bytes b = str_bytes (''You typed: '' @ fmt_char b @ ''\<newline>'')"

definition main_access :: "(('h, 'm) running_scheme, unit) M" where
  "main_access =
     bind_M (gets_M main_at) (\<lambda>p.
     bind_M (gets_M (\<lambda>s. putchar_base (UART s))) (\<lambda>base.
     case p of
       Fetching \<Rightarrow> bind_M getchar (\<lambda>c. case c of None \<Rightarrow> return_M () | Some ch \<Rightarrow> go (Polling (echo_bytes ch)))
     | Polling [] \<Rightarrow> go Fetching
     | Polling (c # cs) \<Rightarrow> bind_M (flag_set base FR_TXFE) (\<lambda>full. if full then return_M () else go (Writing c cs))
     | Writing c cs \<Rightarrow> seq_M (write_mmio32 base DR_OFF (ucast c)) (go (Polling cs))))"

definition accesses :: "nat \<Rightarrow> (('h, 'm) running_scheme, unit) M" where
  "accesses n = for_M (replicate n ()) (\<lambda>_. main_access)"

lemma accesses_simps [simp]: "accesses 0 = return_M ()" "accesses (Suc n) = seq_M main_access (accesses n)"
  by (simp_all add: accesses_def)

lemma accesses_more: "accesses m s = (Inr (), t) \<Longrightarrow> accesses n t = (Inr (), u) \<Longrightarrow> accesses (m + n) s = (Inr (), u)"
  unfolding accesses_def by (simp add: replicate_add for_M_append)

lemma running_fields [simp]:
  "UART (s\<lparr>main_at := p\<rparr>) = UART s" "RX_BUFFER (s\<lparr>main_at := p\<rparr>) = RX_BUFFER s" "bus (s\<lparr>main_at := p\<rparr>) = bus s"
  "spin (s\<lparr>main_at := p\<rparr>) = spin s" "hw (s\<lparr>main_at := p\<rparr>) = hw s" "console_ok (s\<lparr>main_at := p\<rparr>) = console_ok s"
  "tx_ready (s\<lparr>main_at := p\<rparr>) = tx_ready s" "rx_bytes (s\<lparr>main_at := p\<rparr>) = rx_bytes s"
  by (simp_all add: console_ok_def rx_ok_def tx_ready_def rx_bytes_def)

lemma main_at_effect [simp]: "main_at (effect ops s) = main_at s" "main_at (with_rx q s) = main_at s"
  "effect ops (s\<lparr>main_at := p\<rparr>) = (effect ops s)\<lparr>main_at := p\<rparr>"
  by (simp_all add: effect_def with_rx_def)

text \<open>What an access does, by position.\<close>

lemma main_access_Polling:
  "main_at s = Polling (c # cs) \<Longrightarrow> main_access s =
    (Inr (), (effect [Read32 (putchar_base (UART s) + 0x18)] s)
       \<lparr>main_at := if bit (peek32 s (putchar_base (UART s) + 0x18)) 5 then Polling (c # cs) else Writing c cs\<rparr>)"
  by (simp add: main_access_def flag_set_effect FR_TXFE_def and_32_bit go_def)

lemma main_access_Writing:
  "main_at s = Writing c cs \<Longrightarrow>
   main_access s = (Inr (), (effect [Write32 (putchar_base (UART s)) (ucast c)] s)\<lparr>main_at := Polling cs\<rparr>)"
  by (simp add: main_access_def mmio_effects uart_consts go_def)

lemma main_access_done: "main_at s = Polling [] \<Longrightarrow> main_access s = (Inr (), s\<lparr>main_at := Fetching\<rparr>)"
  by (simp add: main_access_def go_def)

text \<open>Without an interrupt the accesses add up to a turn of the main loop.\<close>

lemma poll_accesses:
  "main_at s = Polling (c # cs) \<Longrightarrow> k = tx_polls (bus s) (putchar_base (UART s)) n (hw s) \<Longrightarrow> k < n \<Longrightarrow>
   accesses (Suc k) s =
     (Inr (), (effect (replicate (Suc k) (Read32 (putchar_base (UART s) + 0x18))) s)\<lparr>main_at := Writing c cs\<rparr>)"
proof (induction n arbitrary: s k)
  case (Suc n)
  let ?fr = "putchar_base (UART s) + 0x18"
  obtain v h where v: "bus_read32 (bus s) ?fr (hw s) = (v, h)" by fastforce
  show ?case
  proof (cases "bit v 5")
    case True
    let ?s = "effect [Read32 ?fr] s"
    let ?k = "tx_polls (bus s) (putchar_base (UART s)) n h"
    have step: "main_access s = (Inr (), ?s)"
      using main_access_Polling [OF Suc.prems(1)] True Suc.prems(1) v by (simp add: peek32_def)
    have "k = Suc ?k" "?k < n" "main_at ?s = Polling (c # cs)"
      using Suc.prems True v by simp_all
    moreover have "hw ?s = h" using v by (simp add: hw_effect run_regops_def)
    ultimately show ?thesis using Suc.IH [of ?s ?k] step by simp
  next
    case False
    then show ?thesis using main_access_Polling [OF Suc.prems(1)] Suc.prems(2) v by (simp add: peek32_def)
  qed
qed simp

lemma sent_main_at [simp]: "sent cs (s\<lparr>main_at := p\<rparr>) = (sent cs s)\<lparr>main_at := p\<rparr>"
  by (simp add: sent_def)

lemma send_accesses:
  "tx_ready s \<Longrightarrow> main_at s = Polling cs \<Longrightarrow> \<exists>n. accesses n s = (Inr (), (sent cs s)\<lparr>main_at := Polling []\<rparr>)"
proof (induction cs arbitrary: s)
  case Nil
  then have "accesses 0 s = (Inr (), (sent [] s)\<lparr>main_at := Polling []\<rparr>)" by simp
  then show ?case by blast
next
  case (Cons c cs)
  let ?base = "putchar_base (UART s)"
  let ?k = "tx_polls (bus s) ?base (spin s) (hw s)"
  let ?r = "(effect (replicate (Suc ?k) (Read32 (?base + 0x18))) s)\<lparr>main_at := Writing c cs\<rparr>"
  let ?t = "(sent [c] s)\<lparr>main_at := Polling cs\<rparr>"
  have "?k < spin s" using Cons.prems(1) by (simp add: tx_ready_def tx_drains_def)
  then have "accesses (Suc ?k) s = (Inr (), ?r)" by (rule poll_accesses [OF Cons.prems(2) refl])
  moreover have "accesses 1 ?r = (Inr (), ?t)"
    using main_access_Writing [of ?r c cs] by (simp add: sent_def Let_def)
  ultimately have "accesses (Suc ?k + 1) s = (Inr (), ?t)" by (rule accesses_more)
  moreover obtain n where "accesses n ?t = (Inr (), (sent cs ?t)\<lparr>main_at := Polling []\<rparr>)"
    using Cons.IH [of ?t] Cons.prems(1) by auto
  ultimately have "accesses (Suc ?k + 1 + n) s = (Inr (), (sent cs ?t)\<lparr>main_at := Polling []\<rparr>)" by (rule accesses_more)
  moreover have "(sent cs ?t)\<lparr>main_at := Polling []\<rparr> = (sent (c # cs) s)\<lparr>main_at := Polling []\<rparr>" by simp
  ultimately show ?case by metis
qed

lemma turn_in_accesses:
  assumes ok: "console_ok s" and at: "main_at s = Fetching" and turn: "main_loop_body s = (Inr (), t)"
  shows "\<exists>n. accesses n s = (Inr (), t)"
proof -
  let ?ops = "[Mrs DAIF, Msr DAIFSet 2, Msr DAIF (peek_sys s DAIF)]"
  obtain q where q: "getchar s = (Inr (case rx_bytes s of [] \<Rightarrow> None | b # bs \<Rightarrow> Some b), with_rx q (effect ?ops s))"
    "ring_inv q" using getchar_program console_ok_spin [OF ok] by blast
  let ?s = "with_rx q (effect ?ops s)"
  have ok': "console_ok ?s" using ok q(2) by simp
  have at': "?s\<lparr>main_at := Fetching\<rparr> = ?s" using at by (simp add: effect_def with_rx_def)
  show ?thesis
  proof (cases "rx_bytes s")
    case Nil
    then have "main_access s = main_loop_body s" using q at by (simp add: main_access_def main_loop_body_def)
    then have "accesses 1 s = (Inr (), t)" using turn by simp
    then show ?thesis by blast
  next
    case (Cons b bs)
    let ?p = "?s\<lparr>main_at := Polling (echo_bytes b)\<rparr>"
    have "accesses 1 s = (Inr (), ?p)" using q(1) Cons at by (simp add: main_access_def go_def)
    moreover obtain n where n: "accesses n ?p = (Inr (), (sent (echo_bytes b) ?p)\<lparr>main_at := Polling []\<rparr>)"
      using send_accesses [of ?p "echo_bytes b"] ok' by (auto simp: console_ok_def)
    ultimately have "accesses (1 + n) s = (Inr (), (sent (echo_bytes b) ?p)\<lparr>main_at := Polling []\<rparr>)" by (rule accesses_more)
    moreover have "t = sent (echo_bytes b) ?s"
      using turn q(1) Cons println_ready [OF ok'] by (simp add: main_loop_body_def echo_bytes_def)
    then have "accesses 1 ((sent (echo_bytes b) ?p)\<lparr>main_at := Polling []\<rparr>) = (Inr (), t)"
      using sent_main_at [of "echo_bytes b" Fetching ?s] unfolding at' by (simp add: main_access_done)
    ultimately have "accesses (1 + n + 1) s = (Inr (), t)" by (rule accesses_more)
    then show ?thesis by blast
  qed
qed

section \<open>Interrupts between the accesses\<close>

datatype access_event = Interrupt | Main_Access

primrec access_step :: "access_event \<Rightarrow> (('h, 'm) running_scheme, unit) M" where
  "access_step Interrupt = irq_handler"
| "access_step Main_Access = main_access"

text \<open>
  The abstract machine: the queue of received bytes and the position of the main loop. An access of the main loop is told whether the transmitter
  is full. Each byte put out is marked with its origin: true for the main loop, false for the handler.
\<close>

datatype access_input = From_Interrupt stimulus | Main_Moves bool

fun access_spec :: "access_input \<Rightarrow> u8 list \<times> main_position \<Rightarrow> (bool \<times> u8) list \<times> u8 list \<times> main_position" where
  "access_spec (From_Interrupt i) (q, p) =
     (map (Pair False) (str_bytes (fst (console_step i q))), snd (console_step i q), p)"
| "access_spec (Main_Moves full) ([], Fetching) = ([], [], Fetching)"
| "access_spec (Main_Moves full) (b # q, Fetching) = ([], q, Polling (echo_bytes b))"
| "access_spec (Main_Moves full) (q, Polling []) = ([], q, Fetching)"
| "access_spec (Main_Moves full) (q, Polling (c # cs)) = ([], q, if full then Polling (c # cs) else Writing c cs)"
| "access_spec (Main_Moves full) (q, Writing c cs) = ([(True, c)], q, Polling cs)"

primrec access_input_of :: "access_event \<Rightarrow> ('h, 'm) running_scheme \<Rightarrow> access_input" where
  "access_input_of Interrupt s = From_Interrupt (kernel_stimulus Irq_Taken s)"
| "access_input_of Main_Access s = Main_Moves (bit (peek32 s (putchar_base (UART s) + 0x18)) 5)"

definition access_abs :: "('h, 'm) running_scheme \<Rightarrow> u8 list \<times> main_position" where
  "access_abs s = (rx_bytes s, main_at s)"

text \<open>That a run wrote the given bytes and touched nothing but the receive buffer and the position.\<close>

definition puts_out :: "('h, 'm) running_scheme \<Rightarrow> ('h, 'm) running_scheme \<Rightarrow> (bool \<times> u8) list \<Rightarrow> bool" where
  "puts_out s t out \<longleftrightarrow> (\<exists>ops r p. t = (effect ops s)\<lparr>RX_BUFFER := r, main_at := p\<rparr> \<and>
     written (putchar_base (UART s)) ops = map (ucast \<circ> snd) out)"

lemma puts_outI:
  "t = (effect ops s)\<lparr>main_at := p\<rparr> \<Longrightarrow> written (putchar_base (UART s)) ops = map (ucast \<circ> snd) out \<Longrightarrow> puts_out s t out"
  unfolding puts_out_def by (intro exI [of _ ops] exI [of _ "RX_BUFFER s"] exI [of _ p]) (simp add: effect_def)

lemma puts_out_prints:
  assumes "prints s t str" and "main_at t = main_at s"
  shows "puts_out s (t\<lparr>main_at := p\<rparr>) (map (Pair b) (str_bytes str))"
proof -
  obtain ops r where "t = (effect ops s)\<lparr>RX_BUFFER := r\<rparr>" "written (putchar_base (UART s)) ops = map ucast (str_bytes str)"
    using assms(1) unfolding prints_def by blast
  then show ?thesis unfolding puts_out_def by (intro exI [of _ ops] exI [of _ r] exI [of _ p]) (simp add: comp_def)
qed

lemma puts_out_none: "puts_out s s []"
  by (rule puts_outI [where ops = "[]" and p = "main_at s"]) simp_all

lemma puts_out_more:
  assumes "puts_out s t xs" and "puts_out t u ys"
  shows "puts_out s u (xs @ ys)"
proof -
  obtain ops r p ops' r' p' where "t = (effect ops s)\<lparr>RX_BUFFER := r, main_at := p\<rparr>"
    "u = (effect ops' t)\<lparr>RX_BUFFER := r', main_at := p'\<rparr>"
    "written (putchar_base (UART s)) ops = map (ucast \<circ> snd) xs" "written (putchar_base (UART t)) ops' = map (ucast \<circ> snd) ys"
    using assms unfolding puts_out_def by blast
  then show ?thesis
    unfolding puts_out_def
    by (intro exI [of _ "ops @ ops'"] exI [of _ r'] exI [of _ p']) (simp add: effect_def run_regops_def)
qed

lemma prints_main_at: "prints s t str \<Longrightarrow> main_at t = main_at s"
  by (auto simp: prints_def)

lemma main_access_simulates:
  assumes ok: "console_ok s"
  shows "\<exists>t. main_access s = (Inr (), t) \<and> console_ok t \<and>
    puts_out s t (fst (access_spec (access_input_of Main_Access s) (access_abs s))) \<and>
    access_abs t = snd (access_spec (access_input_of Main_Access s) (access_abs s))"
proof (cases "main_at s")
  case Fetching
  let ?ops = "[Mrs DAIF, Msr DAIFSet 2, Msr DAIF (peek_sys s DAIF)]"
  obtain q where q: "getchar s = (Inr (case rx_bytes s of [] \<Rightarrow> None | b # bs \<Rightarrow> Some b), with_rx q (effect ?ops s))"
    "ring_inv q" "ring_list q = tl (rx_bytes s)" using getchar_program console_ok_spin [OF ok] by blast
  let ?s = "with_rx q (effect ?ops s)"
  have ok': "console_ok ?s" and silent: "prints s ?s []" using ok q(2) by (simp_all add: prints_silent)
  note out = puts_out_prints [OF silent, simplified]
  show ?thesis
  proof (cases "rx_bytes s")
    case Nil
    have "?s\<lparr>main_at := main_at s\<rparr> = ?s" by (simp add: effect_def with_rx_def)
    then have "puts_out s ?s []" using out [of "main_at s"] by (simp only:)
    then show ?thesis using Fetching Nil q ok' by (simp add: main_access_def access_abs_def)
  next
    case (Cons b bs)
    then show ?thesis using Fetching q ok' out [of "Polling (echo_bytes b)"] by (simp add: main_access_def access_abs_def go_def)
  qed
next
  case (Polling cs)
  show ?thesis
  proof (cases cs)
    case Nil
    then show ?thesis using Polling ok puts_outI [where ops = "[]" and s = s and p = Fetching and out = "[]"] by (simp add: main_access_done access_abs_def)
  next
    case (Cons c cs')
    let ?fr = "putchar_base (UART s) + 0x18"
    have "puts_out s ((effect [Read32 ?fr] s)\<lparr>main_at := p\<rparr>) []" for p by (rule puts_outI [OF refl]) simp
    then show ?thesis using Polling Cons ok by (simp add: main_access_Polling access_abs_def del: main_at_effect(3))
  qed
next
  case (Writing c cs)
  have "puts_out s ((effect [Write32 (putchar_base (UART s)) (ucast c)] s)\<lparr>main_at := Polling cs\<rparr>) [(True, c)]"
    by (rule puts_outI [OF refl]) simp
  then show ?thesis using Writing ok by (simp add: main_access_Writing access_abs_def)
qed

interpretation preempted: event_simulation access_step access_input_of console_ok access_abs access_spec puts_out
proof unfold_locales
  fix e and s :: "('h, 'm) running_scheme" assume ok: "console_ok s"
  show "\<exists>t. access_step e s = (Inr (), t) \<and> console_ok t \<and> puts_out s t (fst (access_spec (access_input_of e s) (access_abs s))) \<and>
      access_abs t = snd (access_spec (access_input_of e s) (access_abs s))"
  proof (cases e)
    case Interrupt
    obtain t where t: "irq_handler s = (Inr (), t)" "console_ok t"
      "prints s t (fst (console_step (kernel_stimulus Irq_Taken s) (rx_bytes s)))"
      "rx_bytes t = snd (console_step (kernel_stimulus Irq_Taken s) (rx_bytes s))"
      using irq_simulates [OF ok] by blast
    have "t\<lparr>main_at := main_at t\<rparr> = t" by simp
    then have "puts_out s t (map (Pair False) (str_bytes (fst (console_step (kernel_stimulus Irq_Taken s) (rx_bytes s)))))"
      using puts_out_prints [OF t(3) prints_main_at [OF t(3)], of "main_at t" False] by simp
    then show ?thesis
      using Interrupt t prints_main_at [OF t(3)] by (simp add: access_abs_def del: kernel_stimulus.simps(1))
  next
    case Main_Access
    then show ?thesis using main_access_simulates [OF ok] by simp
  qed
qed (rule puts_out_none, rule puts_out_more)

section \<open>Who said what\<close>

primrec pending :: "main_position \<Rightarrow> u8 list" where
  "pending Fetching = []"
| "pending (Polling cs) = cs"
| "pending (Writing c cs) = c # cs"

definition from_main :: "(bool \<times> u8) list \<Rightarrow> u8 list" where
  "from_main out = map snd (filter fst out)"

definition from_handler :: "(bool \<times> u8) list \<Rightarrow> u8 list" where
  "from_handler out = map snd (filter (\<lambda>x. \<not> fst x) out)"

lemma from_simps [simp]:
  "from_main [] = []" "from_handler [] = []" "from_main (xs @ ys) = from_main xs @ from_main ys"
  "from_handler (xs @ ys) = from_handler xs @ from_handler ys" "from_main (map (Pair False) bs) = []" "from_handler (map (Pair False) bs) = bs"
  "from_main [(True, c)] = [c]" "from_handler [(True, c)] = []"
  by (simp_all add: from_main_def from_handler_def comp_def)

fun received :: "access_input \<Rightarrow> u8 list" where
  "received (From_Interrupt (Byte_Received b)) = [b]"
| "received _ = []"

fun handler_line :: "access_input \<Rightarrow> string" where
  "handler_line (From_Interrupt i) = fst (console_step i [])"
| "handler_line (Main_Moves full) = []"

text \<open>One step of the abstract machine: what the main loop has put out and still has to put out are the echoes of the bytes it took.\<close>

lemma access_spec_accounts:
  assumes "i \<noteq> From_Interrupt Turn" and step: "access_spec i (q, p) = (out, q', p')"
  shows "\<exists>popped accepted. from_main out @ pending p' = pending p @ concat (map echo_bytes popped) \<and> popped @ q' = q @ accepted \<and>
    subseq accepted (received i) \<and> (length q + length (received i) \<le> 255 \<longrightarrow> accepted = received i) \<and>
    from_handler out = str_bytes (handler_line i)"
proof -
  have *: "\<exists>popped accepted. P popped accepted" if "P [] []" for P :: "u8 list \<Rightarrow> u8 list \<Rightarrow> bool" using that by blast
  show ?thesis
  proof (cases "(i, q, p)" rule: access_spec.cases)
    case (1 st q0 p0)
    then have st: "st \<noteq> Turn" using assms(1) by auto
    then have "fst (console_step st q) = fst (console_step st [])" by (cases st) simp_all
    then have line: "fst (console_step st q) = handler_line i" using 1 by simp
    have out: "out = map (Pair False) (str_bytes (handler_line i))" and q': "q' = snd (console_step st q)" and p': "p' = p"
      using step 1 unfolding line [symmetric] by (simp_all del: str_bytes_simps)
    have "\<exists>accepted. q' = q @ accepted \<and> subseq accepted (received i) \<and> (length q + length (received i) \<le> 255 \<longrightarrow> accepted = received i)"
      unfolding q' using 1 st by (cases st) auto
    then obtain accepted where "q' = q @ accepted" "subseq accepted (received i)"
      "length q + length (received i) \<le> 255 \<longrightarrow> accepted = received i" by blast
    then show ?thesis unfolding out p' by (intro exI [of _ "[]"] exI [of _ accepted]) simp
  next
    case (3 full b q0)
    then show ?thesis using step by (intro exI [of _ "[b]"] exI [of _ "[]"]) auto
  qed (rule *, use step in \<open>force split: if_splits\<close>)+
qed

lemma spec_runs_account:
  "From_Interrupt Turn \<notin> set ins \<Longrightarrow> spec_runs access_spec ins (q, p) = (out, q', p') \<Longrightarrow>
   \<exists>popped accepted. from_main out @ pending p' = pending p @ concat (map echo_bytes popped) \<and> popped @ q' = q @ accepted \<and>
     subseq accepted (concat (map received ins)) \<and>
     (length q + length (concat (map received ins)) \<le> 255 \<longrightarrow> accepted = concat (map received ins)) \<and>
     from_handler out = str_bytes (concat (map handler_line ins))"
proof (induction ins arbitrary: q p out)
  case Nil
  then show ?case by (intro exI [of _ "[]"]) simp
next
  case (Cons i ins)
  obtain o1 q1 p1 where s1: "access_spec i (q, p) = (o1, q1, p1)" by (cases "access_spec i (q, p)") auto
  obtain o2 where s2: "spec_runs access_spec ins (q1, p1) = (o2, q', p')" and out: "out = o1 @ o2"
    using Cons.prems(2) s1 by (cases "spec_runs access_spec ins (q1, p1)") auto
  obtain a1 b1 where 1: "from_main o1 @ pending p1 = pending p @ concat (map echo_bytes a1)" "a1 @ q1 = q @ b1"
    "subseq b1 (received i)" "length q + length (received i) \<le> 255 \<longrightarrow> b1 = received i" "from_handler o1 = str_bytes (handler_line i)"
    using access_spec_accounts [OF _ s1] Cons.prems(1) by auto
  obtain a2 b2 where 2: "from_main o2 @ pending p' = pending p1 @ concat (map echo_bytes a2)" "a2 @ q' = q1 @ b2"
    "subseq b2 (concat (map received ins))"
    "length q1 + length (concat (map received ins)) \<le> 255 \<longrightarrow> b2 = concat (map received ins)"
    "from_handler o2 = str_bytes (concat (map handler_line ins))"
    using Cons.IH [OF _ s2] Cons.prems(1) by auto
  have "from_main out @ pending p' = (from_main o1 @ pending p1) @ concat (map echo_bytes a2)" using 2(1) by (simp add: out)
  then have main: "from_main out @ pending p' = pending p @ concat (map echo_bytes (a1 @ a2))" using 1(1) by simp
  have "(a1 @ a2) @ q' = (a1 @ q1) @ b2" using 2(2) by simp
  then have queue: "(a1 @ a2) @ q' = q @ b1 @ b2" using 1(2) by simp
  have "length a1 + length q1 = length q + length b1" using arg_cong [OF 1(2), of length] by simp
  then have "b1 @ b2 = concat (map received (i # ins))" if "length q + length (concat (map received (i # ins))) \<le> 255"
    using that 1(4) 2(4) by simp
  then show ?case
    using main queue 1(3,5) 2(3,5)
    by (intro exI [of _ "a1 @ a2"] exI [of _ "b1 @ b2"]) (simp add: out list_emb_append_mono del: map_append)
qed

lemma no_turn_input: "From_Interrupt Turn \<notin> set (stimuli access_step access_input_of es s)"
proof (induction es arbitrary: s)
  case (Cons e es)
  then show ?case by (cases e) simp_all
qed simp

section \<open>A UART with a FIFO of sixteen bytes\<close>

text \<open>
  The transmit FIFO of the PL011: a byte written while sixteen are waiting is lost. A look at the flags that finds the FIFO full takes as long as one byte takes
  to leave. The record keeps the bytes that went into the FIFO and those that were lost.
\<close>

record fifo_hw =
  fh_sys :: "sysreg \<Rightarrow> u64"
  fh_level :: nat
  fh_sent :: "u8 list"
  fh_lost :: "u8 list"

definition fifo_bus :: "fifo_hw Machine.bus" where
  "fifo_bus =
     \<lparr>bus_read32 = (\<lambda>a h. if a = 0x9000018 \<and> 16 \<le> fh_level h then (32, h\<lparr>fh_level := 15\<rparr>) else (0, h)),
      bus_write32 = (\<lambda>a v h. if a \<noteq> 0x9000000 then h
        else if fh_level h < 16 then h\<lparr>fh_level := fh_level h + 1, fh_sent := fh_sent h @ [ucast v]\<rparr>
        else h\<lparr>fh_lost := fh_lost h @ [ucast v]\<rparr>),
      bus_write64 = (\<lambda>a v h. h),
      cpu_mrs = (\<lambda>r h. (fh_sys h r, h)),
      cpu_msr = (\<lambda>r v h. h\<lparr>fh_sys := (fh_sys h)(r := v)\<rparr>),
      cpu_barrier = (\<lambda>f h. h)\<rparr>"

lemma tx_polls_fifo: "2 \<le> n \<Longrightarrow> tx_polls fifo_bus 0x9000000 n h = (if 16 \<le> fh_level h then 1 else 0)"
proof -
  assume "2 \<le> n"
  then obtain m where "n = Suc (Suc m)" by (metis Suc_le_D numeral_2_eq_2 Suc_le_mono)
  then show ?thesis by (simp add: fifo_bus_def)
qed

lemma tx_drains_fifo: "2 \<le> n \<Longrightarrow> tx_drains fifo_bus 0x9000000 n"
  by (simp add: tx_drains_def tx_polls_fifo)

text \<open>What is sent without interruption goes into the FIFO, all of it.\<close>

lemma fifo_sends:
  "2 \<le> n \<Longrightarrow> fh_level h \<le> 16 \<Longrightarrow> run_regops fifo_bus (tx_ops fifo_bus 0x9000000 n cs h) h =
     h\<lparr>fh_level := min 16 (fh_level h + length cs), fh_sent := fh_sent h @ cs\<rparr>"
proof (induction cs arbitrary: h)
  case Nil
  then show ?case by (simp add: run_regops_def)
next
  case (Cons c cs)
  let ?ops = "replicate (Suc (tx_polls fifo_bus 0x9000000 n h)) (Read32 0x9000018) @ [Write32 0x9000000 (ucast c)]"
  let ?h = "h\<lparr>fh_level := min 16 (fh_level h + 1), fh_sent := fh_sent h @ [c]\<rparr>"
  have step: "run_regops fifo_bus ?ops h = ?h"
    using Cons.prems by (auto simp: run_regops_def tx_polls_fifo) (auto simp: fifo_bus_def)
  have "run_regops fifo_bus (tx_ops fifo_bus 0x9000000 n (c # cs) h) h =
      run_regops fifo_bus (tx_ops fifo_bus 0x9000000 n cs ?h) ?h"
    using step by (simp add: Let_def run_regops_def)
  then show ?case using Cons.IH [OF Cons.prems(1), of ?h] by simp
qed

text \<open>Machines with this UART, and the timer interrupt on them.\<close>

definition on_fifo :: "fifo_hw running \<Rightarrow> bool" where
  "on_fifo s \<longleftrightarrow> bus s = fifo_bus \<and> 2 \<le> spin s \<and> putchar_base (UART s) = 0x9000000 \<and> fh_level (hw s) \<le> 16"

lemma on_fifo_ready: "on_fifo s \<Longrightarrow> tx_ready s"
  by (simp add: on_fifo_def tx_ready_def tx_drains_fifo)

lemma hw_sent_fifo:
  "on_fifo s \<Longrightarrow> hw (sent cs s) = (hw s)\<lparr>fh_level := min 16 (fh_level (hw s) + length cs), fh_sent := fh_sent (hw s) @ cs\<rparr>"
  by (simp add: sent_def hw_effect on_fifo_def fifo_sends)

lemma timer_interrupt_fifo:
  assumes "on_fifo s" and "fh_sys (hw s) ICC_IAR1_EL1 = 30"
  shows "\<exists>t. irq_handler s = (Inr (), t) \<and> on_fifo t \<and> main_at t = main_at s \<and> fh_lost (hw t) = fh_lost (hw s) \<and>
    fh_level (hw t) = min 16 (fh_level (hw s) + 17) \<and> fh_sent (hw t) = fh_sent (hw s) @ str_bytes ''Timer interrupt!\<newline>''"
proof -
  let ?s = "effect [Mrs ICC_IAR1_EL1] s"
  define line where "line = str_bytes ''Timer interrupt!\<newline>''"
  have iar: "peek_sys s ICC_IAR1_EL1 = 30" and hw: "hw ?s = hw s" and on: "on_fifo ?s"
    using assms by (simp_all add: on_fifo_def peek_sys_def hw_effect run_regops_def) (simp_all add: fifo_bus_def)
  obtain v where "do_irq 30 ?s = (Inr 30, effect [Mrs CNTFRQ_EL0, Msr CNTP_TVAL_EL0 v] (sent line ?s))"
    using timer_and_unknown_interrupts [OF on_fifo_ready [OF on], of 0] unfolding line_def by auto
  then have run: "irq_handler s = (Inr (), effect [Mrs CNTFRQ_EL0, Msr CNTP_TVAL_EL0 v, Msr ICC_EOIR1_EL1 30] (sent line ?s))"
    using iar by (simp add: irq_handler_def mrs_effect msr_effect)
  let ?u = "sent line ?s"
  let ?t = "effect [Mrs CNTFRQ_EL0, Msr CNTP_TVAL_EL0 v, Msr ICC_EOIR1_EL1 30] ?u"
  have bus: "bus ?u = fifo_bus" using assms(1) by (simp add: on_fifo_def)
  have "length line = 17" by (simp add: line_def)
  then have u: "hw ?u = (hw s)\<lparr>fh_level := min 16 (fh_level (hw s) + 17), fh_sent := fh_sent (hw s) @ line\<rparr>"
    using hw_sent_fifo [OF on, of "line"] by (simp only: hw)
  have "hw ?t = (hw ?u)\<lparr>fh_sys := (fh_sys (hw ?u))(CNTP_TVAL_EL0 := v, ICC_EOIR1_EL1 := 30)\<rparr>"
    unfolding hw_effect bus by (simp add: run_regops_def) (simp add: fifo_bus_def)
  then have t: "fh_level (hw ?t) = min 16 (fh_level (hw s) + 17)" "fh_sent (hw ?t) = fh_sent (hw s) @ line"
    "fh_lost (hw ?t) = fh_lost (hw s)" by (simp_all add: u)
  have "on_fifo ?t" using assms(1) t(1) by (simp add: on_fifo_def)
  moreover have "main_at ?t = main_at s" by (simp add: sent_def)
  ultimately show ?thesis using run t unfolding line_def by blast
qed

lemma fifo_look:
  assumes "on_fifo s" and "main_at s = Polling (c # cs)"
  shows "main_access s = (Inr (), s\<lparr>hw := (hw s)\<lparr>fh_level := min 15 (fh_level (hw s))\<rparr>,
      main_at := if 16 \<le> fh_level (hw s) then Polling (c # cs) else Writing c cs\<rparr>)"
  using assms main_access_Polling [OF assms(2)]
  by (auto simp: on_fifo_def peek32_def effect_def run_regops_def) (auto simp: fifo_bus_def min_def)

lemma fifo_write:
  assumes "on_fifo s" and "main_at s = Writing c cs"
  shows "\<exists>t. main_access s = (Inr (), t) \<and> main_at t = Polling cs \<and>
      (if fh_level (hw s) < 16 then fh_sent (hw t) = fh_sent (hw s) @ [c] \<and> fh_lost (hw t) = fh_lost (hw s)
       else fh_sent (hw t) = fh_sent (hw s) \<and> fh_lost (hw t) = fh_lost (hw s) @ [c])"
  using assms main_access_Writing [OF assms(2)] by (simp add: on_fifo_def hw_effect run_regops_def) (simp add: fifo_bus_def)

section \<open>Properties\<close>

text \<open>
  C8. Printing survives interrupts. Let interrupts come at any point between two accesses of the main loop to the UART, any number of them, with
  whatever the hardware delivers; the handler may itself print. With the receive lock free and a transmitter that
  drains, nothing fails. Of the bytes written to the data register, those of the main loop, followed by the ones it still has to write, are those
  it had to write at first and then the echoes of the bytes it took from the queue, complete and in order; those of
  the handlers are their lines, each complete, in the order of the interrupts. The bytes taken and those still in the queue are the
  initial queue and then received bytes in order, all of them if they fit the 255 places.
\<close>

theorem preempted_output:
  assumes "rx_ok s" and "tx_ready s"
  shows "\<exists>t ops r p out popped accepted.
    for_M events access_step s = (Inr (), t) \<and> t = (effect ops s)\<lparr>RX_BUFFER := r, main_at := p\<rparr> \<and>
    written (putchar_base (UART s)) ops = map (ucast \<circ> snd) out \<and>
    map snd (filter fst out) @ pending p = pending (main_at s) @ concat (map echo_bytes popped) \<and>
    map snd (filter (\<lambda>x. \<not> fst x) out) = str_bytes (concat (map handler_line (stimuli access_step access_input_of events s))) \<and>
    popped @ rx_bytes t = rx_bytes s @ accepted \<and>
    subseq accepted (concat (map received (stimuli access_step access_input_of events s))) \<and>
    (length (rx_bytes s) + length (concat (map received (stimuli access_step access_input_of events s))) \<le> 255 \<longrightarrow>
       accepted = concat (map received (stimuli access_step access_input_of events s)))"
proof -
  have ok: "console_ok s" using assms by (simp add: console_ok_def)
  let ?ins = "stimuli access_step access_input_of events s"
  obtain t where t: "for_M events access_step s = (Inr (), t)" "puts_out s t (fst (spec_runs access_spec ?ins (access_abs s)))"
    "access_abs t = snd (spec_runs access_spec ?ins (access_abs s))"
    using preempted.run_simulates [OF ok] by blast
  obtain out where out: "spec_runs access_spec ?ins (rx_bytes s, main_at s) = (out, rx_bytes t, main_at t)"
    using t(3) by (cases "spec_runs access_spec ?ins (access_abs s)") (auto simp: access_abs_def)
  obtain ops r p where ops: "t = (effect ops s)\<lparr>RX_BUFFER := r, main_at := p\<rparr>"
    "written (putchar_base (UART s)) ops = map (ucast \<circ> snd) out" "main_at t = p"
    using t(2) out by (auto simp: puts_out_def access_abs_def)
  obtain popped accepted where "from_main out @ pending p = pending (main_at s) @ concat (map echo_bytes popped)"
    "popped @ rx_bytes t = rx_bytes s @ accepted" "subseq accepted (concat (map received ?ins))"
    "length (rx_bytes s) + length (concat (map received ?ins)) \<le> 255 \<longrightarrow> accepted = concat (map received ?ins)"
    "from_handler out = str_bytes (concat (map handler_line ?ins))"
    using spec_runs_account [OF no_turn_input out] ops(3) by blast
  with t(1) ops(1,2) show ?thesis
    unfolding from_main_def from_handler_def by (intro exI conjI)
qed

text \<open>The main loop is printing the echo of an A; a timer interrupt is pending.\<close>

definition fifo_example :: "fifo_hw running" where
  "fifo_example =
     \<lparr>bus = fifo_bus, hw = \<lparr>fh_sys = (\<lambda>_. 0)(ICC_IAR1_EL1 := 30), fh_level = 0, fh_sent = [], fh_lost = []\<rparr>,
      ram = (\<lambda>_. None), spin = 2, DEVICE_COUNT = 0, DEVICE_TABLE = [], PHANDLE_COUNT = 0, PHANDLE_TABLE = [],
      GIC = \<lparr>dist_addr = 0x8000000, redist_addr = 0x80A0000\<rparr>,
      UART = UartPl011_init UartPl011_new 0x9000000 24000000,
      RX_BUFFER = Mutex_new UartBuffer_init, main_at = Polling (echo_bytes 65)\<rparr>"

lemma fifo_example_ok: "rx_ok fifo_example" "tx_ready fifo_example" "rx_bytes fifo_example = []"
  "putchar_base (UART fifo_example) = 0x9000000"
proof -
  show base: "putchar_base (UART fifo_example) = 0x9000000"
    by (simp add: fifo_example_def UartPl011_init_def UartPl011_new_def putchar_base_def)
  show "tx_ready fifo_example" unfolding tx_ready_def base using tx_drains_fifo by (simp add: fifo_example_def)
qed (simp_all add: rx_ok_def rx_bytes_def fifo_example_def Mutex_new_def ring_inv_init ring_list_init)

theorem preempted_output_witness:
  "\<exists>t ops r p out. for_M [Main_Access, Interrupt, Main_Access] access_step fifo_example = (Inr (), t) \<and>
     t = (effect ops fifo_example)\<lparr>RX_BUFFER := r, main_at := p\<rparr> \<and> written 0x9000000 ops = map (ucast \<circ> snd) out \<and>
     map snd (filter (\<lambda>x. \<not> fst x) out) = str_bytes ''Timer interrupt!\<newline>''"
proof -
  have irq: "kernel_stimulus Irq_Taken s = Timer_Tick" if "fh_sys (hw s) ICC_IAR1_EL1 = 30" "bus s = fifo_bus" for s :: "fifo_hw running"
    using that by (simp add: pending_id_def peek_sys_def fifo_bus_def)
  let ?s = "snd (main_access fifo_example)"
  have "echo_bytes 65 = 89 # tl (echo_bytes 65)" by (simp add: echo_bytes_def)
  then have "main_at fifo_example = Polling (89 # tl (echo_bytes 65))" by (simp add: fifo_example_def)
  from main_access_Polling [OF this]
  have "fh_sys (hw ?s) ICC_IAR1_EL1 = 30" "bus ?s = fifo_bus"
    by (simp_all add: fifo_example_ok hw_effect run_regops_def) (simp_all add: fifo_example_def fifo_bus_def)
  then have "concat (map handler_line (stimuli access_step access_input_of [Main_Access, Interrupt, Main_Access] fifo_example)) =
      ''Timer interrupt!\<newline>''"
    using irq [of ?s] by (simp del: kernel_stimulus.simps)
  then show ?thesis
    using preempted_output [OF fifo_example_ok(1,2), of "[Main_Access, Interrupt, Main_Access]"] unfolding fifo_example_ok(4) by metis
qed

text \<open>
  C19. The check of \<open>putchar\<close> can be out of date. Take any state of a machine whose UART has a FIFO of sixteen bytes, from which a byte leaves while the driver
  finds it full, in which there is room and the main loop is about to check for room and write a byte \<open>c\<close> of its echo, whatever \<open>c\<close> is and however full the FIFO. Let a timer
  interrupt come between the check and the write: the line that the handler prints fills the FIFO, and \<open>c\<close>, which the main loop then writes without looking
  again, is lost; the main loop goes on with the next byte. If the same interrupt comes one access earlier, before the check, nothing is lost and \<open>c\<close> follows the line.
\<close>

theorem preemption_loses_byte:
  assumes on: "on_fifo s" and at: "main_at s = Polling (c # cs)" and room: "fh_level (hw s) < 16" and irq: "fh_sys (hw s) ICC_IAR1_EL1 = 30"
  shows "(\<exists>t. for_M [Main_Access, Interrupt, Main_Access] access_step s = (Inr (), t) \<and> main_at t = Polling cs \<and>
      fh_sent (hw t) = fh_sent (hw s) @ str_bytes ''Timer interrupt!\<newline>'' \<and> fh_lost (hw t) = fh_lost (hw s) @ [c]) \<and>
   (\<exists>t. for_M [Interrupt, Main_Access, Main_Access, Main_Access] access_step s = (Inr (), t) \<and> main_at t = Polling cs \<and>
      fh_sent (hw t) = fh_sent (hw s) @ str_bytes ''Timer interrupt!\<newline>'' @ [c] \<and> fh_lost (hw t) = fh_lost (hw s))"
proof
  let ?txt = "str_bytes ''Timer interrupt!\<newline>''"
  let ?s = "s\<lparr>hw := (hw s)\<lparr>fh_level := min 15 (fh_level (hw s))\<rparr>, main_at := Writing c cs\<rparr>"
  have s: "main_access s = (Inr (), ?s)" using fifo_look [OF on at] room by simp
  have "on_fifo ?s" "fh_sys (hw ?s) ICC_IAR1_EL1 = 30" using on irq by (simp_all add: on_fifo_def)
  from timer_interrupt_fifo [OF this] obtain u where u: "irq_handler ?s = (Inr (), u)" "on_fifo u" "main_at u = Writing c cs"
    "fh_lost (hw u) = fh_lost (hw s)" "fh_level (hw u) = 16" "fh_sent (hw u) = fh_sent (hw s) @ ?txt" by auto
  from fifo_write [OF u(2,3)] u s show "\<exists>t. for_M [Main_Access, Interrupt, Main_Access] access_step s = (Inr (), t) \<and> main_at t = Polling cs \<and>
      fh_sent (hw t) = fh_sent (hw s) @ ?txt \<and> fh_lost (hw t) = fh_lost (hw s) @ [c]" by auto
  from timer_interrupt_fifo [OF on irq] at obtain v where v: "irq_handler s = (Inr (), v)" "on_fifo v" "main_at v = Polling (c # cs)"
    "fh_lost (hw v) = fh_lost (hw s)" "fh_level (hw v) = 16" "fh_sent (hw v) = fh_sent (hw s) @ ?txt" by auto
  let ?v = "v\<lparr>hw := (hw v)\<lparr>fh_level := 15\<rparr>\<rparr>"
  have "main_access v = (Inr (), ?v)" using fifo_look [OF v(2,3)] v(3,5) by simp
  moreover have "main_access ?v = (Inr (), ?v\<lparr>main_at := Writing c cs\<rparr>)"
    using fifo_look [of ?v c cs] v by (simp add: on_fifo_def)
  moreover obtain w where "main_access (?v\<lparr>main_at := Writing c cs\<rparr>) = (Inr (), w)" "main_at w = Polling cs"
    "fh_sent (hw w) = fh_sent (hw s) @ ?txt @ [c]" "fh_lost (hw w) = fh_lost (hw s)"
    using fifo_write [of "?v\<lparr>main_at := Writing c cs\<rparr>" c cs] v by (auto simp: on_fifo_def)
  ultimately show "\<exists>t. for_M [Interrupt, Main_Access, Main_Access, Main_Access] access_step s = (Inr (), t) \<and> main_at t = Polling cs \<and>
      fh_sent (hw t) = fh_sent (hw s) @ ?txt @ [c] \<and> fh_lost (hw t) = fh_lost (hw s)" using v(1) by auto
qed

text \<open>The letter Y of the echo of an A is lost, or follows the line.\<close>

theorem preemption_loses_byte_witness:
  "(\<exists>t. for_M [Main_Access, Interrupt, Main_Access] access_step fifo_example = (Inr (), t) \<and>
      fh_sent (hw t) = str_bytes ''Timer interrupt!\<newline>'' \<and> fh_lost (hw t) = [89]) \<and>
   (\<exists>t. for_M [Interrupt, Main_Access, Main_Access, Main_Access] access_step fifo_example = (Inr (), t) \<and>
      fh_sent (hw t) = str_bytes ''Timer interrupt!\<newline>'' @ [89] \<and> fh_lost (hw t) = [])"
proof -
  have "on_fifo fifo_example" using fifo_example_ok(4) by (simp add: on_fifo_def fifo_example_def)
  moreover have "echo_bytes 65 = 89 # tl (echo_bytes 65)" by (simp add: echo_bytes_def)
  then have "main_at fifo_example = Polling (89 # tl (echo_bytes 65))" by (simp add: fifo_example_def)
  moreover have "fh_level (hw fifo_example) < 16" "fh_sys (hw fifo_example) ICC_IAR1_EL1 = 30" "fh_sent (hw fifo_example) = []"
    "fh_lost (hw fifo_example) = []" by (simp_all add: fifo_example_def)
  ultimately show ?thesis using preemption_loses_byte [of fifo_example 89 "tl (echo_bytes 65)"] by (metis append_Nil)
qed

end
