(* ===== verification/Board.thy ===== *)
theory Board
  imports Boot
begin

text \<open>
  From the bytes of a device tree to a running kernel, for boards of the shape of \<^verbatim>\<open>virt\<close>: a root that gives
  cells and an interrupt parent, an interrupt controller, a clock, a UART and a timer below it, and any further
  nodes that no driver matches. The set-up of such a board is one register program (lemma \<open>board_parse\<close>); nothing is assumed about the
  parse, only that the hardware answers the two polling loops.
\<close>

section \<open>Lookups in the table of a tree\<close>

text \<open>
  Among the first \<open>k\<close> of the properties \<open>ps\<close> there is one named \<open>n\<close>, and every property named \<open>n\<close> has the value \<open>v\<close>.
\<close>

definition has_prop :: "(u32 \<Rightarrow> string) \<Rightarrow> nat \<Rightarrow> dt_prop list \<Rightarrow> string \<Rightarrow> u8 list \<Rightarrow> bool" where
  "has_prop names k ps n v \<longleftrightarrow>
     (\<exists>p \<in> set (take k ps). names (fst p) = n) \<and> (\<forall>p \<in> set ps. names (fst p) = n \<longrightarrow> snd p = v)"

lemma flat_props_names: "map prop_name (flat_props names sb pos ps) = map (names \<circ> fst) ps"
  by (induction ps arbitrary: pos) (simp_all add: flat_props_Cons flat_prop_def)

lemma dev_props_flat:
  assumes "length ps \<le> MAX_PROPS" and "k \<le> MAX_PROPS"
  shows "dev_props (flat_device names sb parent pos n ps k) =
    take k (flat_props names sb (pos + length (enc_begin n)) ps) @ replicate (k - length ps) Property_new"
  using assms by (simp add: dev_props_def flat_device_def min_def)

text \<open>A device with the properties of a node, in memory that holds the encoding of the node.\<close>

definition props_fit :: "dt_prop list \<Rightarrow> bool" where
  "props_fit ps \<longleftrightarrow> length ps \<le> MAX_PROPS \<and> (\<forall>p \<in> set ps. length (snd p) < 2 ^ 32)"

definition flat_in :: "(u32 \<Rightarrow> string) \<Rightarrow> (u64 \<Rightarrow> u8 option) \<Rightarrow> nat option \<Rightarrow> dt_prop list \<Rightarrow> nat \<Rightarrow> platform_device \<Rightarrow> bool" where
  "flat_in names mem parent ps k d \<longleftrightarrow>
     props_fit ps \<and> k \<le> MAX_PROPS \<and>
     (\<exists>sb pos n. d = flat_device names sb parent pos n ps k \<and>
        holds_bytes mem (sb + of_nat (pos + length (enc_begin n))) (concat (map enc_prop ps)))"

lemma flat_in_parent: "flat_in names mem parent ps k d \<Longrightarrow> dev_parent d = parent"
  by (auto simp: flat_in_def flat_device_def)

lemma flat_in_ok: "flat_in names mem parent ps k d \<Longrightarrow> dev_ok d"
  by (auto simp: flat_in_def flat_device_def dev_ok_def props_fit_def)

lemma flat_in_stands:
  assumes "flat_in names mem parent ps k d" and "q \<in> set (dev_props d)" and "prop_name q \<noteq> []"
  shows "\<exists>p \<in> set ps. stands_for names mem q p \<and> length (snd p) < 2 ^ 32"
proof -
  from assms(1) obtain sb pos n where d: "length ps \<le> MAX_PROPS" "k \<le> MAX_PROPS" "d = flat_device names sb parent pos n ps k"
    and mem: "holds_bytes mem (sb + of_nat (pos + length (enc_begin n))) (concat (map enc_prop ps))"
    by (auto simp: flat_in_def props_fit_def)
  have "q \<noteq> Property_new" using assms(3) by (auto simp: Property_new_def)
  then have "q \<in> set (flat_props names sb (pos + length (enc_begin n)) ps)"
    using assms(2) by (auto simp: d(3) dev_props_flat [OF d(1,2)] dest: in_set_takeD)
  from flat_props_stand [OF mem this] assms(1) show ?thesis by (auto simp: flat_in_def props_fit_def)
qed

lemma flat_in_has:
  assumes "flat_in names mem parent ps k d" and "has_prop names k ps n v" and "n \<noteq> []"
  shows "\<exists>q \<in> set (dev_props d). prop_name q = n"
    and "\<forall>q \<in> set (dev_props d). prop_name q = n \<longrightarrow> holds_bytes mem (prop_value q) v \<and> prop_len q = of_nat (length v)"
proof -
  from assms(1) obtain sb pos nm where d: "length ps \<le> MAX_PROPS" "k \<le> MAX_PROPS" "d = flat_device names sb parent pos nm ps k"
    by (auto simp: flat_in_def props_fit_def)
  have "map prop_name (take k (flat_props names sb (pos + length (enc_begin nm)) ps)) = map (names \<circ> fst) (take k ps)"
    by (simp only: take_map [symmetric] flat_props_names)
  moreover have "n \<in> set (map (names \<circ> fst) (take k ps))" using assms(2) by (auto simp: has_prop_def)
  ultimately have "n \<in> set (map prop_name (take k (flat_props names sb (pos + length (enc_begin nm)) ps)))" by simp
  then show "\<exists>q \<in> set (dev_props d). prop_name q = n"
    by (auto simp: d(3) dev_props_flat [OF d(1,2)])
  show "\<forall>q \<in> set (dev_props d). prop_name q = n \<longrightarrow> holds_bytes mem (prop_value q) v \<and> prop_len q = of_nat (length v)"
  proof (intro ballI impI)
    fix q assume q: "q \<in> set (dev_props d)" "prop_name q = n"
    then obtain p where "p \<in> set ps" "stands_for names mem q p" using flat_in_stands [OF assms(1), of q] assms(3) by auto
    with assms(2) q show "holds_bytes mem (prop_value q) v \<and> prop_len q = of_nat (length v)"
      by (auto simp: stands_for_def has_prop_def)
  qed
qed

lemma flat_in_find:
  assumes "flat_in names mem parent ps k d" and "has_prop names k ps n v" and "n \<noteq> []"
  shows "\<exists>q. (\<forall>s. find_property d n s = (Inr (Some q), s)) \<and> holds_bytes mem (prop_value q) v \<and>
    find (\<lambda>q. prop_name q = n) (dev_props d) = Some q \<and> prop_len q = of_nat (length v)"
proof -
  obtain q where q: "find (\<lambda>q. prop_name q = n) (dev_props d) = Some q"
    using flat_in_has(1) [OF assms] by (fastforce simp: find_None_iff)
  then have "q \<in> set (dev_props d)" "prop_name q = n" by (auto simp: find_Some_iff)
  moreover have "prop_count d \<le> length (dev_properties d)" using flat_in_ok [OF assms(1)] by (simp add: dev_ok_def)
  ultimately show ?thesis using q flat_in_has(2) [OF assms] by (auto simp: find_property_eq)
qed

text \<open>Nodes without children, in a row, become devices in a row.\<close>

type_synonym leaf = "string \<times> dt_prop list"

abbreviation leaf_node :: "leaf \<Rightarrow> dt_node" where
  "leaf_node nd \<equiv> Node (fst nd) (snd nd) []"

lemma flats_leaves:
  assumes "holds_bytes mem (sb + of_nat pos) (concat (map enc_node (map leaf_node nds @ cs)))"
    and "\<forall>nd \<in> set nds. props_fit (snd nd)"
  shows "\<exists>ds pos' i'. flats names sb parent i pos (map leaf_node nds @ cs) = ds @ flats names sb parent i' pos' cs \<and>
    list_all2 (\<lambda>nd d. flat_in names mem parent (snd nd) (length (snd nd)) d) nds ds \<and>
    holds_bytes mem (sb + of_nat pos') (concat (map enc_node cs))"
  using assms
proof (induction nds arbitrary: i pos)
  case Nil
  then show ?case by (intro exI [of _ "[]"]) auto
next
  case (Cons nd nds)
  let ?d = "flat_device names sb parent pos (fst nd) (snd nd) (length (snd nd))"
  let ?pos = "pos + length (enc_node (leaf_node nd))"
  have mem: "holds_bytes mem (sb + of_nat pos) (enc_begin (fst nd) @ concat (map enc_prop (snd nd)) @ to_be_bytes (2 :: u32))"
    "holds_bytes mem (sb + of_nat ?pos) (concat (map enc_node (map leaf_node nds @ cs)))"
    using Cons.prems(1) by (simp_all add: holds_bytes_append add.assoc)
  have "holds_bytes mem (sb + of_nat (pos + length (enc_begin (fst nd)))) (concat (map enc_prop (snd nd)))"
    using mem(1) by (simp add: holds_bytes_append add.assoc)
  then have d: "flat_in names mem parent (snd nd) (length (snd nd)) ?d" using Cons.prems(2) by (auto simp: flat_in_def props_fit_def)
  obtain ds pos' i' where "flats names sb parent (Suc i) ?pos (map leaf_node nds @ cs) = ds @ flats names sb parent i' pos' cs"
    "list_all2 (\<lambda>nd d. flat_in names mem parent (snd nd) (length (snd nd)) d) nds ds"
    "holds_bytes mem (sb + of_nat pos') (concat (map enc_node cs))"
    using Cons.IH [OF mem(2), of "Suc i"] Cons.prems(2) by auto
  with d show ?case by (intro exI [of _ "?d # ds"] exI [of _ pos'] exI [of _ i']) simp
qed

section \<open>The board and its tree\<close>

text \<open>What the drivers take from the tree: addresses, interrupts with their trigger flags, the clock and two phandles.\<close>

record board =
  gicd_base :: u64
  gicr_base :: u64
  gicd_size :: u64
  uart_base :: u64
  uart_spi :: u32
  uart_flags :: u32
  clock_hz :: u32
  timer_ppi :: u32
  timer_flags :: u32
  intc_handle :: u32
  clock_handle :: u32

text \<open>The nodes of the tree, each with its name and its properties; the order of the properties is free.\<close>

record board_nodes =
  root_node :: leaf
  intc_node :: leaf
  clock_node :: leaf
  uart_node :: leaf
  timer_node :: leaf
  other_nodes :: "dt_node list"

definition board_tree :: "board_nodes \<Rightarrow> dt_node" where
  "board_tree t = Node (fst (root_node t)) (snd (root_node t))
     (map leaf_node [intc_node t, clock_node t, uart_node t, timer_node t] @ other_nodes t)"

text \<open>An address as two cells, and the driver that a \<open>compatible\<close> value selects.\<close>

definition addr_cells :: "u64 \<Rightarrow> u32 list" where
  "addr_cells a = [ucast (drop_bit 32 a), ucast a]"

definition driver_of :: "u8 list \<Rightarrow> string option" where
  "driver_of v = find (\<lambda>c. c \<in> set (map bytes_str (split_nul v))) [''arm,gic-v3'', ''arm,pl011'', ''arm,armv7-timer'']"

definition unmatched :: "(u32 \<Rightarrow> string) \<Rightarrow> dt_prop list \<Rightarrow> bool" where
  "unmatched names ps \<longleftrightarrow> (\<forall>p \<in> set ps. names (fst p) = ''compatible'' \<longrightarrow> driver_of (snd p) = None)"

definition matched :: "(u32 \<Rightarrow> string) \<Rightarrow> dt_prop list \<Rightarrow> string \<Rightarrow> bool" where
  "matched names ps c \<longleftrightarrow> (\<exists>v. has_prop names (length ps) ps ''compatible'' v \<and> driver_of v = Some c)"

definition root_describes :: "(u32 \<Rightarrow> string) \<Rightarrow> board \<Rightarrow> nat \<Rightarrow> dt_prop list \<Rightarrow> bool" where
  "root_describes names b k ps \<longleftrightarrow>
     has_prop names k ps ''#address-cells'' (to_be_bytes (2 :: u32)) \<and>
     has_prop names k ps ''#size-cells'' (to_be_bytes (2 :: u32)) \<and>
     has_prop names k ps ''interrupt-parent'' (to_be_bytes (intc_handle b))"

definition intc_describes :: "(u32 \<Rightarrow> string) \<Rightarrow> board \<Rightarrow> dt_prop list \<Rightarrow> bool" where
  "intc_describes names b ps \<longleftrightarrow>
     matched names ps ''arm,gic-v3'' \<and>
     (\<exists>rest. has_prop names (length ps) ps ''reg''
        (cells_bytes (addr_cells (gicd_base b) @ addr_cells (gicd_size b) @ addr_cells (gicr_base b) @ rest))) \<and>
     has_prop names (length ps) ps ''#interrupt-cells'' (to_be_bytes (3 :: u32)) \<and>
     has_prop names (length ps) ps ''phandle'' (to_be_bytes (intc_handle b))"

definition clock_describes :: "(u32 \<Rightarrow> string) \<Rightarrow> board \<Rightarrow> dt_prop list \<Rightarrow> bool" where
  "clock_describes names b ps \<longleftrightarrow>
     unmatched names ps \<and>
     has_prop names (length ps) ps ''clock-frequency'' (to_be_bytes (clock_hz b)) \<and>
     has_prop names (length ps) ps ''phandle'' (to_be_bytes (clock_handle b))"

definition uart_describes :: "(u32 \<Rightarrow> string) \<Rightarrow> board \<Rightarrow> dt_prop list \<Rightarrow> bool" where
  "uart_describes names b ps \<longleftrightarrow>
     matched names ps ''arm,pl011'' \<and>
     (\<exists>rest. has_prop names (length ps) ps ''reg'' (cells_bytes (addr_cells (uart_base b) @ rest))) \<and>
     (\<exists>rest. has_prop names (length ps) ps ''interrupts'' (cells_bytes ([0, uart_spi b, uart_flags b] @ rest))) \<and>
     (\<exists>rest. has_prop names (length ps) ps ''clocks'' (cells_bytes (clock_handle b # rest)))"

definition timer_describes :: "(u32 \<Rightarrow> string) \<Rightarrow> board \<Rightarrow> dt_prop list \<Rightarrow> bool" where
  "timer_describes names b ps \<longleftrightarrow>
     matched names ps ''arm,armv7-timer'' \<and>
     (\<exists>secure rest. length secure = 3 \<and>
        has_prop names (length ps) ps ''interrupts'' (cells_bytes (secure @ [1, timer_ppi b, timer_flags b] @ rest)))"

text \<open>
  The nodes describe the board. Only the root is special: what it says counts as far as \<open>END_NODE\<close> recorded its properties, which
  is the number of properties of the last node of the tree.
\<close>

definition nodes_describe :: "(u32 \<Rightarrow> string) \<Rightarrow> board \<Rightarrow> board_nodes \<Rightarrow> bool" where
  "nodes_describe names b t \<longleftrightarrow>
     unmatched names (snd (root_node t)) \<and> (\<forall>p \<in> set (snd (root_node t)). names (fst p) \<noteq> ''phandle'') \<and>
     intc_describes names b (snd (intc_node t)) \<and> clock_describes names b (snd (clock_node t)) \<and>
     uart_describes names b (snd (uart_node t)) \<and> timer_describes names b (snd (timer_node t)) \<and>
     unmatched names (concat (map tree_props (other_nodes t))) \<and> intc_handle b \<noteq> clock_handle b"

definition describes :: "(u32 \<Rightarrow> string) \<Rightarrow> board \<Rightarrow> board_nodes \<Rightarrow> bool" where
  "describes names b t \<longleftrightarrow>
     nodes_describe names b t \<and> root_describes names b (last_props (board_tree t)) (snd (root_node t))"

text \<open>The numbers are ones that the drivers can handle.\<close>

definition board_ok :: "board \<Rightarrow> bool" where
  "board_ok b \<longleftrightarrow>
     unat (uart_spi b) < 988 \<and> unat (timer_ppi b) < 16 \<and> unat (gicd_base b) + 0x10000 < 2 ^ 64 \<and>
     unat (gicr_base b) + 0x10C00 + 32 < 2 ^ 64 \<and> 4 * unat (clock_hz b) < 2 ^ 32"

lemma addr_cells_value: "cells_value (addr_cells a) = a"
  by (rule bit_word_eqI) (auto simp: cells_value_def addr_cells_def bit_simps)

lemma length_addr_cells [simp]: "length (addr_cells a) = 2"
  by (simp add: addr_cells_def)

section \<open>The table of the board\<close>

text \<open>
  The first five devices of the table are the root and the four nodes; every other device has properties of the other nodes only.
\<close>

definition board_entries :: "board_nodes \<Rightarrow> (nat option \<times> nat \<times> dt_prop list) list" where
  "board_entries t =
     (None, last_props (board_tree t), snd (root_node t)) #
     map (\<lambda>nd. (Some 0, length (snd nd), snd nd)) [intc_node t, clock_node t, uart_node t, timer_node t]"

definition board_table :: "(u32 \<Rightarrow> string) \<Rightarrow> (u64 \<Rightarrow> u8 option) \<Rightarrow> board_nodes \<Rightarrow> platform_device list \<Rightarrow>
    platform_device list \<Rightarrow> ('h, 'm) dt_machine_scheme \<Rightarrow> bool" where
  "board_table names mem t ds rest s \<longleftrightarrow>
     tables_ok s \<and> ram s = mem \<and> devices s = ds @ rest \<and>
     take (PHANDLE_COUNT s) (PHANDLE_TABLE s) = handles names 0 (board_tree t) \<and>
     list_all2 (\<lambda>(parent, k, ps). flat_in names mem parent ps k) (board_entries t) ds \<and>
     (\<forall>d \<in> set rest. \<forall>q \<in> set (dev_props d). prop_name q \<noteq> [] \<longrightarrow>
        (\<exists>p \<in> set (concat (map tree_props (other_nodes t))). stands_for names mem q p \<and> length (snd p) < 2 ^ 32))"

lemma board_table_exists:
  assumes state: "tree_state names mem sb (board_tree t) s" and mem: "holds_bytes mem sb (enc_node (board_tree t))"
    and ok: "node_ok names mem dtb os (board_tree t)"
  shows "\<exists>ds rest. board_table names mem t ds rest s"
proof -
  let ?ps = "snd (root_node t)" and ?k = "last_props (board_tree t)" and ?n = "fst (root_node t)"
  let ?nds = "[intc_node t, clock_node t, uart_node t, timer_node t]" and ?os = "other_nodes t"
  define d0 where "d0 = flat_device names sb None 0 ?n ?ps ?k"
  have len: "props_fit ?ps" "\<forall>nd \<in> set ?nds. props_fit (snd nd)"
    using ok unfolding board_tree_def props_fit_def by (simp_all add: prop_ok_def)
  have enc: "holds_bytes mem (sb + of_nat (length (enc_begin ?n))) (concat (map enc_prop ?ps))"
    "holds_bytes mem (sb + of_nat (props_end 0 ?n ?ps)) (concat (map enc_node (map leaf_node ?nds @ ?os)))"
    using mem by (simp_all add: board_tree_def holds_bytes_append props_end_def add.assoc del: list.map)
  obtain ds pos i where ds: "flats names sb (Some 0) (Suc 0) (props_end 0 ?n ?ps) (map leaf_node ?nds @ ?os) =
      ds @ flats names sb (Some 0) i pos ?os"
    "list_all2 (\<lambda>nd d. flat_in names mem (Some 0) (snd nd) (length (snd nd)) d) ?nds ds"
    "holds_bytes mem (sb + of_nat pos) (concat (map enc_node ?os))"
    using flats_leaves [OF enc(2) len(2)] by blast
  have dev: "devices s = (d0 # ds) @ flats names sb (Some 0) i pos ?os"
    using state unfolding tree_state_def d0_def board_tree_def by (simp only: flat.simps ds(1) append_Cons)
  then have "0 < DEVICE_COUNT s" by (auto simp: devices_def intro: gr0I)
  moreover from this have "DEVICE_TABLE s ! 0 = devices s ! 0" by (simp add: devices_def)
  ultimately have "?k \<le> MAX_PROPS"
    using state dev by (auto simp: tree_state_def tables_ok_def dev_ok_def d0_def flat_device_def)
  then have "flat_in names mem None ?ps ?k d0" unfolding flat_in_def d0_def using enc(1) len(1)
    by (intro conjI exI [of _ sb] exI [of _ 0] exI [of _ ?n]) simp_all
  with ds(2) have all: "list_all2 (\<lambda>(parent, k, ps). flat_in names mem parent ps k) (board_entries t) (d0 # ds)"
    by (simp add: board_entries_def list_all2_map1 del: list.map)
  have "\<exists>p \<in> set (concat (map tree_props ?os)). stands_for names mem q p \<and> length (snd p) < 2 ^ 32"
    if d: "d \<in> set (flats names sb (Some 0) i pos ?os)" and q: "q \<in> set (dev_props d)" "prop_name q \<noteq> []" for d q
  proof -
    have "q \<in> set (dev_properties d)" "q \<noteq> Property_new"
      using q by (auto simp: dev_props_def Property_new_def dest: in_set_takeD)
    from flats_stand [OF ds(3) d this] obtain p where p: "p \<in> set (concat (map tree_props ?os))" "stands_for names mem q p" by blast
    then have "p \<in> set (tree_props (board_tree t))" by (simp add: board_tree_def)
    from tree_props_ok [OF ok this] have "length (snd p) < 2 ^ 32" by (simp add: prop_ok_def)
    with p show ?thesis by blast
  qed
  with state dev all have "board_table names mem t (d0 # ds) (flats names sb (Some 0) i pos ?os) s"
    by (auto simp: board_table_def tree_state_def)
  then show ?thesis by blast
qed

lemma board_table_devs:
  assumes "board_table names mem t ds rest s"
  shows "length ds = 5" and "i < 5 \<Longrightarrow> DEVICE_TABLE s ! i = ds ! i" and "5 \<le> DEVICE_COUNT s"
    and "flat_in names mem None (snd (root_node t)) (last_props (board_tree t)) (ds ! 0)"
    and "flat_in names mem (Some 0) (snd (intc_node t)) (length (snd (intc_node t))) (ds ! 1)"
    and "flat_in names mem (Some 0) (snd (clock_node t)) (length (snd (clock_node t))) (ds ! 2)"
    and "flat_in names mem (Some 0) (snd (uart_node t)) (length (snd (uart_node t))) (ds ! 3)"
    and "flat_in names mem (Some 0) (snd (timer_node t)) (length (snd (timer_node t))) (ds ! 4)"
proof -
  have all: "list_all2 (\<lambda>(parent, k, ps). flat_in names mem parent ps k) (board_entries t) ds"
    and dev: "take (DEVICE_COUNT s) (DEVICE_TABLE s) = ds @ rest"
    using assms by (simp_all add: board_table_def devices_def)
  show len: "length ds = 5" using list_all2_lengthD [OF all] by (simp add: board_entries_def)
  have "length ds \<le> length (take (DEVICE_COUNT s) (DEVICE_TABLE s))" unfolding dev by simp
  then show count: "5 \<le> DEVICE_COUNT s" using len by simp
  have "DEVICE_TABLE s ! i = take (DEVICE_COUNT s) (DEVICE_TABLE s) ! i" if "i < 5" using that count by simp
  then show "i < 5 \<Longrightarrow> DEVICE_TABLE s ! i = ds ! i" unfolding dev by (simp add: nth_append len)
  have entry: "case board_entries t ! i of (parent, k, ps) \<Rightarrow> flat_in names mem parent ps k (ds ! i)" if "i < 5" for i
    using list_all2_nthD2 [OF all, of i] len that by (simp add: split_def)
  from entry [of 0] show "flat_in names mem None (snd (root_node t)) (last_props (board_tree t)) (ds ! 0)"
    by (simp add: board_entries_def)
  from entry [of 1] show "flat_in names mem (Some 0) (snd (intc_node t)) (length (snd (intc_node t))) (ds ! 1)"
    by (simp add: board_entries_def)
  from entry [of 2] show "flat_in names mem (Some 0) (snd (clock_node t)) (length (snd (clock_node t))) (ds ! 2)"
    by (simp add: board_entries_def)
  from entry [of 3] show "flat_in names mem (Some 0) (snd (uart_node t)) (length (snd (uart_node t))) (ds ! 3)"
    by (simp add: board_entries_def)
  from entry [of 4] show "flat_in names mem (Some 0) (snd (timer_node t)) (length (snd (timer_node t))) (ds ! 4)"
    by (simp add: board_entries_def)
qed

text \<open>The cell that memory holds at an address.\<close>

definition mem_cell :: "(u64 \<Rightarrow> u8 option) \<Rightarrow> u64 \<Rightarrow> u32" where
  "mem_cell mem a = be_word (map (\<lambda>i. the (mem (a + of_nat i))) [0..<4])"

lemma mem_cell_holds: "holds_bytes mem a (to_be_bytes v) \<Longrightarrow> mem_cell mem a = v"
proof -
  assume "holds_bytes mem a (to_be_bytes v)"
  then have "map (\<lambda>i. the (mem (a + of_nat i))) [0..<4] = to_be_bytes v"
    by (intro nth_equalityI) (simp_all add: holds_bytes_nth)
  then show ?thesis by (simp add: mem_cell_def be_word_def to_be_bytes_def le_word_to_le_bytes)
qed

lemma last_cell_uniform:
  "\<forall>q \<in> set ps. prop_name q = n \<longrightarrow> val (prop_value q) = c \<Longrightarrow>
   last_cell n val ps d = (if \<exists>q \<in> set ps. prop_name q = n then c else d)"
  by (induction ps rule: rev_induct) (simp_all add: last_cell_def)

lemma board_cells:
  assumes table: "board_table names mem t ds rest s" and root: "root_describes names b (last_props (board_tree t)) (snd (root_node t))"
    and "dev_parent d = Some 0"
  shows "get_parent_cells d s = (Inr (2, 2), s)"
proof -
  note devs = board_table_devs [OF table]
  note has = flat_in_has [OF devs(4)]
  have ram: "ram s = mem" using table by (simp add: board_table_def)
  have cells: "\<forall>q \<in> set (dev_props (ds ! 0)). prop_name q = n \<longrightarrow> holds_bytes mem (prop_value q) (to_be_bytes (2 :: u32))"
    "\<exists>q \<in> set (dev_props (ds ! 0)). prop_name q = n" if "n = ''#address-cells'' \<or> n = ''#size-cells''" for n
    using root that has(1) [of n] has(2) [of n] unfolding root_describes_def by auto
  have d0: "DEVICE_TABLE s ! 0 = ds ! 0" "0 < length (DEVICE_TABLE s)"
    using devs(2) [of 0] table by (simp_all add: board_table_def tables_ok_def MAX_DEVICES_def)
  have "\<forall>q \<in> set (dev_props (ds ! 0)). prop_name q \<in> {''#address-cells'', ''#size-cells''} \<longrightarrow>
      cell_at s (prop_value q) (mem_cell mem (prop_value q))"
    using cells(1) [of "''#address-cells''"] cells(1) [of "''#size-cells''"] by (auto simp: cell_at_def ram mem_cell_holds)
  then have "get_parent_cells d s =
      (Inr (last_cell ''#address-cells'' (mem_cell mem) (dev_props (ds ! 0)) 2,
            last_cell ''#size-cells'' (mem_cell mem) (dev_props (ds ! 0)) 1), s)"
    using get_parent_cells_eq [OF assms(3), of s "mem_cell mem"] flat_in_ok [OF devs(4)] d0 by simp
  moreover have "last_cell n (mem_cell mem) (dev_props (ds ! 0)) x = 2" if "n = ''#address-cells'' \<or> n = ''#size-cells''" for n x
    using cells [OF that] last_cell_uniform [of "dev_props (ds ! 0)" n "mem_cell mem" 2 x] by (auto simp: mem_cell_holds)
  ultimately show ?thesis by simp
qed

lemma prop_handles_const:
  assumes "has_prop names k ps ''phandle'' (to_be_bytes h)"
  shows "prop_handles names i ps \<noteq> [] \<and> set (prop_handles names i ps) \<subseteq> {(h, i)}"
proof -
  have "be_word (to_be_bytes h) = h" by (simp add: be_word_def to_be_bytes_def le_word_to_le_bytes)
  with assms show ?thesis
    by (auto simp: has_prop_def prop_handles_def filter_empty_conv dest: in_set_takeD)
qed

lemma find_const:
  assumes "xs \<noteq> []" and "set xs \<subseteq> {x}"
  shows "find P (xs @ ys) = (if P x then Some x else find P ys)"
proof -
  have "find P xs = (if xs \<noteq> [] \<and> P x then Some x else None)" using assms(2) by (induction xs) auto
  with assms(1) show ?thesis by (simp add: find_append)
qed

lemma board_phandles:
  assumes table: "board_table names mem t ds rest s" and desc: "nodes_describe names b t"
  shows "phandle_device s (intc_handle b) = Some (ds ! 1)" and "phandle_device s (clock_handle b) = Some (ds ! 2)"
proof -
  obtain hs where hs: "take (PHANDLE_COUNT s) (PHANDLE_TABLE s) =
      prop_handles names 1 (snd (intc_node t)) @ prop_handles names 2 (snd (clock_node t)) @ hs"
  proof -
    have "prop_handles names 0 (snd (root_node t)) = []"
      using desc by (auto simp: nodes_describe_def prop_handles_def filter_empty_conv)
    then show ?thesis using table that by (simp add: board_table_def board_tree_def numeral_2_eq_2)
  qed
  have one: "prop_handles names 1 (snd (intc_node t)) \<noteq> []" "set (prop_handles names 1 (snd (intc_node t))) \<subseteq> {(intc_handle b, 1)}"
    using desc prop_handles_const [of names _ "snd (intc_node t)" "intc_handle b" 1]
    by (auto simp: nodes_describe_def intc_describes_def)
  have two: "prop_handles names 2 (snd (clock_node t)) \<noteq> []" "set (prop_handles names 2 (snd (clock_node t))) \<subseteq> {(clock_handle b, 2)}"
    using desc prop_handles_const [of names _ "snd (clock_node t)" "clock_handle b" 2]
    by (auto simp: nodes_describe_def clock_describes_def)
  have ne: "intc_handle b \<noteq> clock_handle b" using desc by (simp add: nodes_describe_def)
  show "phandle_device s (intc_handle b) = Some (ds ! 1)" "phandle_device s (clock_handle b) = Some (ds ! 2)"
    using ne board_table_devs(2) [OF table]
    by (simp_all add: phandle_device_def hs find_const [OF one] find_const [OF two] del: One_nat_def)
qed

lemma board_interrupt_parent:
  assumes table: "board_table names mem t ds rest s" and desc: "nodes_describe names b t"
    and root: "root_describes names b (last_props (board_tree t)) (snd (root_node t))" and "dev_parent d = Some 0"
  shows "find_interrupt_parent d s = (Inr (Some (ds ! 1)), s)"
proof -
  note devs = board_table_devs [OF table]
  have ok: "tables_ok s" "ram s = mem" using table by (simp_all add: board_table_def)
  obtain q where q: "find (\<lambda>q. prop_name q = ''interrupt-parent'') (dev_props (ds ! 0)) = Some q"
    "holds_bytes mem (prop_value q) (to_be_bytes (intc_handle b))"
    using flat_in_find [OF devs(4), of "''interrupt-parent''"] root unfolding root_describes_def by blast
  have "read_be_u32 (prop_value q) 0 s = (Inr (intc_handle b), s)"
    using q(2) by (intro read_cell_at) (simp add: cell_at_def ok)
  moreover have "deref_device 0 s = (Inr (ds ! 0), s)"
    using devs(2) [of 0] devs(3) ok(1) by (simp add: deref_device_def tables_ok_def)
  moreover have "prop_count (ds ! 0) \<le> length (dev_properties (ds ! 0))" using flat_in_ok [OF devs(4)] by (simp add: dev_ok_def)
  ultimately show ?thesis
    using q(1) assms(4) board_phandles(1) [OF table desc]
    by (simp add: find_interrupt_parent_def find_property_in_props find_device_by_phandle_eq [OF ok(1)])
qed

lemma board_interrupt_cells:
  assumes table: "board_table names mem t ds rest s" and "intc_describes names b (snd (intc_node t))"
  shows "interrupt_cells_of (ds ! 1) s = (Inr 3, s)"
proof -
  obtain q where q: "\<forall>s :: ('a, 'b) dt_machine_scheme. find_property (ds ! 1) ''#interrupt-cells'' s = (Inr (Some q), s)"
    "holds_bytes mem (prop_value q) (to_be_bytes (3 :: u32))"
    using flat_in_find [OF board_table_devs(5) [OF table], of "''#interrupt-cells''"] assms(2)
    unfolding intc_describes_def by blast
  have "read_be_u32 (prop_value q) 0 s = (Inr 3, s)"
    using q(2) table by (intro read_cell_at) (simp add: cell_at_def board_table_def)
  with q(1) show ?thesis by (simp add: interrupt_cells_of_def)
qed

text \<open>The strings that the drivers are chosen by.\<close>

lemma stored_strings_stands:
  assumes "stands_for names mem q p" and "length (snd p) < 2 ^ 32"
  shows "stored_strings mem q = map bytes_str (split_nul (snd p))"
proof -
  have "unat (prop_len q) = length (snd p)" using assms by (simp add: stands_for_def unat_of_nat)
  moreover have "map (\<lambda>i. the (mem (prop_value q + of_nat i))) [0..<length (snd p)] = snd p"
    using assms(1) by (intro nth_equalityI) (simp_all add: stands_for_def holds_bytes_nth)
  ultimately show ?thesis by (simp add: stored_strings_def)
qed

lemma compat_unmatched:
  assumes "\<forall>q \<in> set (dev_props d). prop_name q \<noteq> [] \<longrightarrow> (\<exists>p \<in> set ps. stands_for names mem q p \<and> length (snd p) < 2 ^ 32)"
    and "unmatched names ps"
  shows "find (\<lambda>c. c \<in> set (compat_strings (stored_strings mem) d)) [''arm,gic-v3'', ''arm,pl011'', ''arm,armv7-timer''] = None"
proof (cases "compat_prop_of d")
  case (Some q)
  then have "q \<in> set (dev_props d)" "prop_name q = ''compatible''" by (auto simp: compat_prop_of_def find_Some_iff)
  with assms(1) obtain p where p: "p \<in> set ps" "stands_for names mem q p" "length (snd p) < 2 ^ 32" "names (fst p) = ''compatible''"
    by (auto simp: stands_for_def)
  with assms(2) Some show ?thesis
    by (simp only: compat_strings_def option.case stored_strings_stands [OF p(2,3)]) (auto simp: unmatched_def driver_of_def)
qed (simp add: compat_strings_def)

lemma compat_matched:
  assumes "flat_in names mem parent ps (length ps) d" and "matched names ps c"
  shows "find (\<lambda>c. c \<in> set (compat_strings (stored_strings mem) d)) [''arm,gic-v3'', ''arm,pl011'', ''arm,armv7-timer''] = Some c"
proof -
  obtain v where v: "has_prop names (length ps) ps ''compatible'' v" "driver_of v = Some c" using assms(2) by (auto simp: matched_def)
  obtain q where q: "compat_prop_of d = Some q"
    using flat_in_find [OF assms(1) v(1)] by (auto simp: compat_prop_of_def)
  then have "q \<in> set (dev_props d)" "prop_name q = ''compatible''" by (auto simp: compat_prop_of_def find_Some_iff)
  with flat_in_stands [OF assms(1)] obtain p where p: "p \<in> set ps" "stands_for names mem q p" "length (snd p) < 2 ^ 32"
    "names (fst p) = ''compatible''" by (fastforce simp: stands_for_def)
  then have "snd p = v" using v(1) by (auto simp: has_prop_def)
  with q v(2) show ?thesis by (simp only: compat_strings_def option.case stored_strings_stands [OF p(2,3)] driver_of_def)
qed

section \<open>The register program of the set-up\<close>

definition gic_program :: "usize \<Rightarrow> usize \<Rightarrow> nat \<Rightarrow> regop list" where
  "gic_program d r k =
     [Modify32 d (\<lambda>v. v OR 6), Fence DSB_SY, Modify32 (r + 0x14) (\<lambda>v. v AND NOT 2), Fence DSB_SY] @
     replicate (Suc k) (Read32 (r + 0x14)) @
     [Msr ICC_PMR_EL1 0xff, ModifySys ICC_IGRPEN1_EL1 (\<lambda>v. v OR 1), Fence ISB_SY]"

definition uart_program :: "uart_pl011 \<Rightarrow> nat \<Rightarrow> regop list" where
  "uart_program u j =
     [Write32 (base_addr u + 0x30) 0] @ replicate (Suc j) (Read32 (base_addr u + 0x18)) @ configure_program u"

definition board_uart :: "board \<Rightarrow> uart_pl011" where
  "board_uart b = UartPl011_new\<lparr>base_addr := uart_base b, base_clock := clock_hz b\<rparr>"

definition board_program :: "board \<Rightarrow> nat \<Rightarrow> nat \<Rightarrow> regop list" where
  "board_program b k j =
     gic_program (gicd_base b) (gicr_base b) k @
     spi_program (gicd_base b) (32 + uart_spi b) (uart_flags b AND 3 \<noteq> 0) @
     uart_program (board_uart b) j @
     ppi_program (gicr_base b) (16 + timer_ppi b) (timer_flags b AND 3 \<noteq> 0)"

text \<open>
  The hardware answers: after the wake-up request the processor interface reports awake at poll \<open>k\<close>, and after the UART is
  disabled its busy flag is clear at poll \<open>j\<close>, both within the polls granted.
\<close>

definition gic_wakes :: "'h Machine.bus \<Rightarrow> 'h \<Rightarrow> usize \<Rightarrow> usize \<Rightarrow> nat \<Rightarrow> bool" where
  "gic_wakes bs h d r k \<longleftrightarrow>
     clears_after bs (r + 0x14) 4 k (run_regops bs
       [Modify32 d (\<lambda>v. v OR 6), Fence DSB_SY, Modify32 (r + 0x14) (\<lambda>v. v AND NOT 2), Fence DSB_SY] h)"

definition uart_idles :: "'h Machine.bus \<Rightarrow> 'h \<Rightarrow> usize \<Rightarrow> nat \<Rightarrow> bool" where
  "uart_idles bs h a j \<longleftrightarrow> clears_after bs (a + 0x18) FR_BUSY j (run_regops bs [Write32 (a + 0x30) 0] h)"

lemma board_table_updates:
  "board_table names mem t ds rest (effect ops s) = board_table names mem t ds rest s"
  "board_table names mem t ds rest (s\<lparr>GIC := g\<rparr>) = board_table names mem t ds rest s"
  "board_table names mem t ds rest (s'\<lparr>UART := u\<rparr>) = board_table names mem t ds rest s'"
  by (simp_all add: board_table_def tables_ok_def devices_def effect_def)

lemma board_gic_setup:
  fixes s :: "('h, 'm) gic_machine_scheme"
  assumes table: "board_table names mem t ds rest s" and cells: "get_parent_cells (ds ! 1) s = (Inr (2, sc), s)"
    and reg: "has_prop names (length (snd (intc_node t))) (snd (intc_node t)) ''reg'' (cells_bytes (dist @ zs @ redist @ others))"
    and len: "length dist = 2" "length zs = unat sc" "length redist = 2" "unat sc < 3"
    and wakes: "gic_wakes (bus s) (hw s) (cells_value dist) (cells_value redist) k" "k < spin s"
  shows "gic_setup (ds ! 1) s =
    (Inr (), effect (gic_program (cells_value dist) (cells_value redist) k)
       (s\<lparr>GIC := \<lparr>dist_addr = cells_value dist, redist_addr = cells_value redist\<rparr>\<rparr>))"
proof -
  let ?g = "\<lparr>dist_addr = cells_value dist, redist_addr = cells_value redist\<rparr>"
  let ?ops = "[Modify32 (dist_addr ?g) (\<lambda>v. v OR 6), Fence DSB_SY, Modify32 (redist_addr ?g + 0x14) (\<lambda>v. v AND NOT 2), Fence DSB_SY]"
  let ?s = "effect ?ops (s\<lparr>GIC := ?g\<rparr>)"
  obtain q where q: "\<forall>s :: ('h, 'm) gic_machine_scheme. find_property (ds ! 1) ''reg'' s = (Inr (Some q), s)"
    "holds_bytes mem (prop_value q) (cells_bytes (dist @ zs @ redist @ others))"
    using flat_in_find [OF board_table_devs(5) [OF table] reg] by blast
  have "busy_after k (children_asleep ?g) ?s (effect (replicate (Suc k) (Read32 (cells_value redist + 0x14))) ?s)"
  proof (rule clears_after_busy)
    show "children_asleep ?g u = (Inr (peek32 u (cells_value redist + 0x14) AND 4 \<noteq> 0), effect [Read32 (cells_value redist + 0x14)] u)"
      for u :: "('h, 'm) gic_machine_scheme" by (simp add: children_asleep_def read_mmio32_effect gic_consts)
    show "clears_after (bus ?s) (cells_value redist + 0x14) 4 k (hw ?s)" using wakes(1) by (simp add: gic_wakes_def hw_effect)
  qed
  moreover have "holds_bytes (ram s) (prop_value q) (cells_bytes (dist @ zs @ redist))"
    using q(2) table by (simp add: board_table_def holds_bytes_append)
  ultimately show ?thesis
    using gic_setup_program [OF cells q(1) [rule_format, of s], of dist zs redist k] len wakes(2)
    by (simp add: gic_program_def)
qed

lemma uart_idles_busy:
  assumes "uart_idles (bus s) (run_regops (bus s) ops (hw s)) a j"
  shows "busy_after j (flag_set a FR_BUSY) (effect (ops @ [Write32 (a + 0x30) 0]) s)
    (effect (ops @ [Write32 (a + 0x30) 0] @ replicate (Suc j) (Read32 (a + 0x18))) s)"
proof -
  let ?s = "effect (ops @ [Write32 (a + 0x30) 0]) s"
  have "busy_after j (flag_set a FR_BUSY) ?s (effect (replicate (Suc j) (Read32 (a + 0x18))) ?s)"
  proof (rule clears_after_busy)
    show "clears_after (bus ?s) (a + 0x18) FR_BUSY j (hw ?s)"
      using assms by (simp add: uart_idles_def hw_effect run_regops_def)
  qed (rule flag_set_effect)
  then show ?thesis by simp
qed

lemma board_uart_setup:
  fixes s :: "('h, 'm) kernel_scheme"
  assumes table: "board_table names mem t ds rest s" and desc: "nodes_describe names b t"
    and cells: "get_parent_cells (ds ! 3) s = (Inr (2, sc), s)" and irq: "uart_setup_interrupt (ds ! 3) s = (Inr (), effect ops s)"
    and clock: "4 * unat (clock_hz b) < 2 ^ 32" and uart: "UART s = UartPl011_new"
    and idles: "uart_idles (bus s) (run_regops (bus s) ops (hw s)) (uart_base b) j" "j < spin s"
  shows "uart_setup (ds ! 3) s = (Inr (), effect (ops @ uart_program (board_uart b) j) (s\<lparr>UART := board_uart b\<rparr>))"
proof -
  note devs = board_table_devs [OF table]
  have ram: "ram s = mem" "tables_ok s" using table by (simp_all add: board_table_def)
  obtain r more1 where r: "\<forall>s :: ('h, 'm) kernel_scheme. find_property (ds ! 3) ''reg'' s = (Inr (Some r), s)"
    "holds_bytes mem (prop_value r) (cells_bytes (addr_cells (uart_base b) @ more1))"
    using flat_in_find [OF devs(7), of "''reg''"] desc unfolding nodes_describe_def uart_describes_def by blast
  obtain c more3 where c: "\<forall>s :: ('h, 'm) kernel_scheme. find_property (ds ! 3) ''clocks'' s = (Inr (Some c), s)"
    "holds_bytes mem (prop_value c) (cells_bytes (clock_handle b # more3))"
    using flat_in_find [OF devs(7), of "''clocks''"] desc unfolding nodes_describe_def uart_describes_def by blast
  obtain f where f: "\<forall>s :: ('h, 'm) kernel_scheme. find_property (ds ! 2) ''clock-frequency'' s = (Inr (Some f), s)"
    "holds_bytes mem (prop_value f) (to_be_bytes (clock_hz b))"
    using flat_in_find [OF devs(6), of "''clock-frequency''"] desc unfolding nodes_describe_def clock_describes_def by blast
  let ?t = "effect (ops @ [Write32 (uart_base b + 0x30) 0] @ replicate (Suc j) (Read32 (uart_base b + 0x18))) (s\<lparr>UART := board_uart b\<rparr>)"
  have idle: "busy_after j (flag_set (uart_base b) FR_BUSY) (effect (ops @ [Write32 (uart_base b + 0x30) 0]) (s\<lparr>UART := board_uart b\<rparr>)) ?t"
    by (rule uart_idles_busy) (use idles(1) in simp)
  have "uart_setup (ds ! 3) s = (Inr (), effect (configure_program (board_uart b)) ?t)"
    by (rule uart_setup_after_interrupt [where r = r and clk = "ds ! 2" and c = c and f = f and addr = "addr_cells (uart_base b)" and
        ph = "clock_handle b" and freq = "clock_hz b" and j = j, OF _ cells _ _ _ irq _ _ _ board_phandles(2) [OF table desc]])
      (use r c f clock idle idles(2) in \<open>simp_all add: ram uart cell_at_def addr_cells_value holds_bytes_append board_uart_def UartPl011_new_def\<close>)
  then show ?thesis by (simp add: uart_program_def board_uart_def)
qed

lemma board_uart_interrupt:
  fixes s :: "('h, 'm) gic_machine_scheme"
  assumes table: "board_table names mem t ds rest s" and desc: "nodes_describe names b t"
    and root: "root_describes names b (last_props (board_tree t)) (snd (root_node t))" and ok: "board_ok b"
    and gic: "dist_addr (GIC s) = gicd_base b"
  shows "uart_setup_interrupt (ds ! 3) s =
    (Inr (), effect (spi_program (gicd_base b) (32 + uart_spi b) (uart_flags b AND 3 \<noteq> 0)) s)"
proof -
  note devs = board_table_devs [OF table]
  have par: "dev_parent (ds ! 3) = Some 0" by (rule flat_in_parent [OF devs(7)])
  have intc: "intc_describes names b (snd (intc_node t))" using desc by (simp add: nodes_describe_def)
  obtain p others where p: "\<forall>s :: ('h, 'm) gic_machine_scheme. find_property (ds ! 3) ''interrupts'' s = (Inr (Some p), s)"
    "holds_bytes mem (prop_value p) (cells_bytes ([0, uart_spi b, uart_flags b] @ others))"
    using flat_in_find [OF devs(7), of "''interrupts''"] desc unfolding nodes_describe_def uart_describes_def by blast
  have "holds_bytes (ram s) (prop_value p) (cells_bytes [0, uart_spi b, uart_flags b])"
    using p(2) table by (simp add: board_table_def holds_bytes_append)
  from uart_setup_interrupt_program [OF p(1) [rule_format, of s] board_interrupt_parent [OF table desc root par]
      board_interrupt_cells [OF table intc] this] ok
  show ?thesis by (simp add: gic board_ok_def)
qed

lemma board_timer_setup:
  fixes s :: "('h, 'm) gic_machine_scheme"
  assumes table: "board_table names mem t ds rest s" and desc: "nodes_describe names b t"
    and root: "root_describes names b (last_props (board_tree t)) (snd (root_node t))" and ok: "board_ok b"
    and gic: "redist_addr (GIC s) = gicr_base b"
  shows "timer_setup (ds ! 4) s =
    (Inr (), effect (ppi_program (gicr_base b) (16 + timer_ppi b) (timer_flags b AND 3 \<noteq> 0)) s)"
proof -
  note devs = board_table_devs [OF table]
  have par: "dev_parent (ds ! 4) = Some 0" by (rule flat_in_parent [OF devs(8)])
  have intc: "intc_describes names b (snd (intc_node t))" using desc by (simp add: nodes_describe_def)
  obtain p first_spec more where p: "\<forall>s :: ('h, 'm) gic_machine_scheme. find_property (ds ! 4) ''interrupts'' s = (Inr (Some p), s)"
    "length first_spec = 3" "holds_bytes mem (prop_value p) (cells_bytes (first_spec @ [1, timer_ppi b, timer_flags b] @ more))"
    using flat_in_find [OF devs(8), of "''interrupts''"] desc unfolding nodes_describe_def timer_describes_def by blast
  have mem: "holds_bytes (ram s) (prop_value p) (cells_bytes (first_spec @ [1, timer_ppi b, timer_flags b]))"
    using p(3) table by (simp add: board_table_def holds_bytes_append)
  show ?thesis
    using timer_setup_configures_second [OF p(1) [rule_format, of s] board_interrupt_parent [OF table desc root par]
        board_interrupt_cells [OF table intc] mem] p(2) ok
    by (simp add: gic board_ok_def)
qed

text \<open>On the table of a board, initialising the devices is three calls.\<close>

lemma for_M_skip: "\<forall>d \<in> set ds. f d = return_M () \<Longrightarrow> for_M ds f = return_M ()"
  by (induction ds) (simp_all add: fun_eq_iff)

lemma chosen_driver:
  assumes "find (\<lambda>c. c \<in> S) [''arm,gic-v3'', ''arm,pl011'', ''arm,armv7-timer''] = c"
  shows "''arm,gic-v3'' \<in> S \<longleftrightarrow> c = Some ''arm,gic-v3''"
    and "(if ''arm,gic-v3'' \<in> S then f else if ''arm,pl011'' \<in> S then g else if ''arm,armv7-timer'' \<in> S then h else r) =
      (if c = Some ''arm,gic-v3'' then f else if c = Some ''arm,pl011'' then g else if c = Some ''arm,armv7-timer'' then h else r)"
  using assms by (auto split: if_splits)

lemma board_calls:
  fixes s' :: "('h, 'm) kernel_scheme"
  assumes table: "board_table names mem t ds rest s'" and desc: "nodes_describe names b t"
  defines "strs \<equiv> compat_strings (stored_strings mem)"
  shows "for_M (filter (\<lambda>d. ''arm,gic-v3'' \<in> set (strs d)) (devices s') @ filter (\<lambda>d. ''arm,gic-v3'' \<notin> set (strs d)) (devices s'))
      (\<lambda>d. if ''arm,gic-v3'' \<in> set (strs d) then gic_setup d
           else if ''arm,pl011'' \<in> set (strs d) then uart_setup d
           else if ''arm,armv7-timer'' \<in> set (strs d) then timer_setup d
           else return_M ()) s' =
    block_M [gic_setup (ds ! 1), uart_setup (ds ! 3), timer_setup (ds ! 4)] s'"
proof -
  note devs = board_table_devs [OF table]
  let ?chosen = "\<lambda>d. find (\<lambda>c. c \<in> set (strs d)) [''arm,gic-v3'', ''arm,pl011'', ''arm,armv7-timer'']"
  have named: "matched names (snd (intc_node t)) ''arm,gic-v3''" "matched names (snd (uart_node t)) ''arm,pl011''"
    "matched names (snd (timer_node t)) ''arm,armv7-timer''" "unmatched names (snd (root_node t))" "unmatched names (snd (clock_node t))"
    "unmatched names (concat (map tree_props (other_nodes t)))"
    using desc by (simp_all add: nodes_describe_def intc_describes_def uart_describes_def timer_describes_def clock_describes_def)
  have gic: "?chosen (ds ! 1) = Some ''arm,gic-v3''" and uart: "?chosen (ds ! 3) = Some ''arm,pl011''"
    and timer: "?chosen (ds ! 4) = Some ''arm,armv7-timer''"
    unfolding strs_def by (rule compat_matched [OF devs(5) named(1)] compat_matched [OF devs(7) named(2)] compat_matched [OF devs(8) named(3)])+
  have root: "?chosen (ds ! 0) = None" and clock: "?chosen (ds ! 2) = None"
    unfolding strs_def using flat_in_stands [OF devs(4)] flat_in_stands [OF devs(6)]
    by (intro compat_unmatched [OF _ named(4)] compat_unmatched [OF _ named(5)], blast)+
  have "?chosen d = None" if "d \<in> set rest" for d
    unfolding strs_def using table that by (intro compat_unmatched [OF _ named(6)]) (simp add: board_table_def)
  then have none: "\<forall>d \<in> set rest. ''arm,gic-v3'' \<notin> set (strs d) \<and> ''arm,pl011'' \<notin> set (strs d) \<and> ''arm,armv7-timer'' \<notin> set (strs d)"
    by (fastforce simp: find_None_iff simp del: find.simps)
  have "ds = [ds ! 0, ds ! 1, ds ! 2, ds ! 3, ds ! 4]"
    using devs(1) by (intro nth_equalityI) (auto simp: less_Suc_eq numeral_eq_Suc)
  then have dev: "devices s' = [ds ! 0, ds ! 1, ds ! 2, ds ! 3, ds ! 4] @ rest" using table by (simp add: board_table_def)
  let ?f = "\<lambda>d. if ''arm,gic-v3'' \<in> set (strs d) then gic_setup d :: (('h, 'm) kernel_scheme, unit) M else if ''arm,pl011'' \<in> set (strs d) then uart_setup d
      else if ''arm,armv7-timer'' \<in> set (strs d) then timer_setup d else return_M ()"
  note chosen = chosen_driver [OF gic] chosen_driver [OF uart] chosen_driver [OF timer] chosen_driver [OF root] chosen_driver [OF clock]
  have "filter (\<lambda>d. ''arm,gic-v3'' \<in> set (strs d)) (devices s') = [ds ! 1]"
    "filter (\<lambda>d. ''arm,gic-v3'' \<notin> set (strs d)) (devices s') = [ds ! 0, ds ! 2, ds ! 3, ds ! 4] @ rest"
    using none by (simp_all add: dev chosen filter_empty_conv filter_id_conv del: One_nat_def)
  moreover have "for_M rest ?f = return_M ()" using none by (intro for_M_skip) simp
  moreover have "?f (ds ! 0) = return_M ()" "?f (ds ! 1) = gic_setup (ds ! 1)" "?f (ds ! 2) = return_M ()"
    "?f (ds ! 3) = uart_setup (ds ! 3)" "?f (ds ! 4) = timer_setup (ds ! 4)"
    unfolding chosen(2,4,6,8,10) by simp_all
  ultimately show ?thesis by (simp only: append.simps for_M.simps block_M.simps seq_M_return)
qed

lemma dt_rest_kernel:
  fixes s s' :: "('h, 'm) kernel_scheme"
  shows "dt_rest s' = dt_rest s \<Longrightarrow> bus s' = bus s \<and> hw s' = hw s \<and> spin s' = spin s \<and> UART s' = UART s \<and> RX_BUFFER s' = RX_BUFFER s"
  by (cases s; cases s') (simp add: dt_rest_def)

text \<open>The state after the parse.\<close>

definition board_state :: "board \<Rightarrow> nat \<Rightarrow> nat \<Rightarrow> ('h, 'm) kernel_scheme \<Rightarrow> ('h, 'm) kernel_scheme" where
  "board_state b k j s = effect (board_program b k j)
     (s\<lparr>GIC := \<lparr>dist_addr = gicd_base b, redist_addr = gicr_base b\<rparr>, UART := board_uart b\<rparr>)"

lemma board_parse_calls:
  fixes s :: "('h, 'm) kernel_scheme"
  assumes boot: "boot_tables s" and blob: "blob_ok names (ram s) dtb off_struct off_strings (board_tree t)"
    and desc: "nodes_describe names b t"
  shows "\<exists>s' ds rest. parse_dtb dtb s = block_M [gic_setup (ds ! 1), uart_setup (ds ! 3), timer_setup (ds ! 4)] s' \<and>
    dt_rest s' = dt_rest s \<and> board_table names (ram s) t ds rest s' \<and>
    devices s' = flat names (dtb + ucast off_struct) None 0 0 (board_tree t)"
proof -
  obtain s' where s': "dt_rest s' = dt_rest s" "tree_state names (ram s) (dtb + ucast off_struct) (board_tree t) s'"
    and parse: "parse_dtb dtb s = (let strs = compat_strings (stored_strings (ram s)) in
       for_M (filter (\<lambda>d. ''arm,gic-v3'' \<in> set (strs d)) (devices s') @ filter (\<lambda>d. ''arm,gic-v3'' \<notin> set (strs d)) (devices s'))
         (\<lambda>d. if ''arm,gic-v3'' \<in> set (strs d) then gic_setup d
              else if ''arm,pl011'' \<in> set (strs d) then uart_setup d
              else if ''arm,armv7-timer'' \<in> set (strs d) then timer_setup d
              else return_M ()) s')"
    using parse_runs_drivers [OF boot blob] unfolding Let_def by blast
  have "holds_bytes (ram s) (dtb + ucast off_struct) (enc_node (board_tree t))"
    "node_ok names (ram s) dtb (ucast off_strings) (board_tree t)"
    using blob by (simp_all add: blob_ok_def holds_bytes_append)
  from board_table_exists [OF s'(2) this] obtain ds rest where table: "board_table names (ram s) t ds rest s'" by blast
  have "parse_dtb dtb s = block_M [gic_setup (ds ! 1), uart_setup (ds ! 3), timer_setup (ds ! 4)] s'"
    unfolding parse Let_def by (rule board_calls [OF table desc])
  with s' table show ?thesis unfolding tree_state_def by blast
qed

lemma board_parse:
  fixes s :: "('h, 'm) kernel_scheme"
  assumes boot: "boot_tables s" and blob: "blob_ok names (ram s) dtb off_struct off_strings (board_tree t)"
    and desc: "describes names b t" and ok: "board_ok b" and uart: "UART s = UartPl011_new"
    and wakes: "gic_wakes (bus s) (hw s) (gicd_base b) (gicr_base b) k" "k < spin s"
    and idles: "uart_idles (bus s) (run_regops (bus s) (gic_program (gicd_base b) (gicr_base b) k @
        spi_program (gicd_base b) (32 + uart_spi b) (uart_flags b AND 3 \<noteq> 0)) (hw s)) (uart_base b) j" "j < spin s"
  shows "\<exists>s'. parse_dtb dtb s = (Inr (), board_state b k j s') \<and> dt_rest s' = dt_rest s \<and>
    devices s' = flat names (dtb + ucast off_struct) None 0 0 (board_tree t)"
proof -
  have nodes: "nodes_describe names b t" and root: "root_describes names b (last_props (board_tree t)) (snd (root_node t))"
    using desc by (simp_all add: describes_def)
  obtain s' ds rest where parse: "parse_dtb dtb s = block_M [gic_setup (ds ! 1), uart_setup (ds ! 3), timer_setup (ds ! 4)] s'"
    and s': "dt_rest s' = dt_rest s" "devices s' = flat names (dtb + ucast off_struct) None 0 0 (board_tree t)"
    and table: "board_table names (ram s) t ds rest s'"
    using board_parse_calls [OF boot blob nodes] by blast
  note devs = board_table_devs [OF table]
  have same: "bus s' = bus s" "hw s' = hw s" "spin s' = spin s" "UART s' = UartPl011_new"
    using dt_rest_kernel [OF s'(1)] uart by simp_all
  obtain others where reg: "has_prop names (length (snd (intc_node t))) (snd (intc_node t)) ''reg''
      (cells_bytes (addr_cells (gicd_base b) @ addr_cells (gicd_size b) @ addr_cells (gicr_base b) @ others))"
    using nodes by (auto simp: nodes_describe_def intc_describes_def)
  let ?s1 = "effect (gic_program (gicd_base b) (gicr_base b) k) (s'\<lparr>GIC := \<lparr>dist_addr = gicd_base b, redist_addr = gicr_base b\<rparr>\<rparr>)"
  have gic: "gic_setup (ds ! 1) s' = (Inr (), ?s1)"
    using board_gic_setup [OF table board_cells [OF table root flat_in_parent [OF devs(5)]] reg, of k] wakes
    by (simp add: addr_cells_value same)
  have table1: "board_table names (ram s) t ds rest ?s1" using table by (simp add: board_table_updates)
  let ?spi = "spi_program (gicd_base b) (32 + uart_spi b) (uart_flags b AND 3 \<noteq> 0)"
  let ?s2 = "effect (?spi @ uart_program (board_uart b) j) (?s1\<lparr>UART := board_uart b\<rparr>)"
  have uart: "uart_setup (ds ! 3) ?s1 = (Inr (), ?s2)"
    by (rule board_uart_setup [OF table1 nodes board_cells [OF table1 root flat_in_parent [OF devs(7)]] board_uart_interrupt [OF table1 nodes root ok]])
      (use idles ok in \<open>simp_all add: same hw_effect run_regops_def board_ok_def\<close>)
  have "board_table names (ram s) t ds rest ?s2" using table1 by (simp add: board_table_updates)
  from board_timer_setup [OF this nodes root ok]
  have "timer_setup (ds ! 4) ?s2 = (Inr (), effect (ppi_program (gicr_base b) (16 + timer_ppi b) (timer_flags b AND 3 \<noteq> 0)) ?s2)"
    by simp
  then have "parse_dtb dtb s = (Inr (), board_state b k j s')"
    unfolding parse using gic uart by (simp add: board_state_def board_program_def effect_def run_regops_def)
  with s' show ?thesis by blast
qed

section \<open>A root whose properties are lost\<close>

text \<open>
  If the last node of the tree has no properties, the root counts none: its children see the default cells and find no interrupt parent.
\<close>

lemma lost_lookups:
  assumes table: "board_table names mem t ds rest s" and lost: "last_props (board_tree t) = 0" and "dev_parent d = Some 0"
  shows "get_parent_cells d s = (Inr (2, 1), s)" and "find_interrupt_parent d s = (Inr None, s)"
proof -
  note devs = board_table_devs [OF table]
  have root: "prop_count (ds ! 0) = 0" "dev_parent (ds ! 0) = None"
    using devs(4) lost by (auto simp: flat_in_def flat_device_def)
  have "deref_device 0 s = (Inr (ds ! 0), s)"
    using devs(2) [of 0] devs(3) table by (simp add: deref_device_def board_table_def tables_ok_def)
  then show "get_parent_cells d s = (Inr (2, 1), s)" "find_interrupt_parent d s = (Inr None, s)"
    using root assms(3) by (simp_all add: get_parent_cells_def find_interrupt_parent_def MAX_DEVICES_def eval_nat_numeral)
qed

definition lost_redist :: "board \<Rightarrow> u64" where
  "lost_redist b = push_bit 32 (gicd_size b) OR drop_bit 32 (gicr_base b)"

lemma lost_redist_cells: "cells_value [ucast (gicd_size b), ucast (drop_bit 32 (gicr_base b))] = lost_redist b"
  by (rule bit_word_eqI) (auto simp: cells_value_def lost_redist_def bit_simps dest: bit_imp_le_length)

lemma lost_parse:
  fixes s :: "('h, 'm) kernel_scheme"
  assumes boot: "boot_tables s" and blob: "blob_ok names (ram s) dtb off_struct off_strings (board_tree t)"
    and nodes: "nodes_describe names b t" and lost: "last_props (board_tree t) = 0" and clock: "4 * unat (clock_hz b) < 2 ^ 32"
    and uart: "UART s = UartPl011_new"
    and wakes: "gic_wakes (bus s) (hw s) (gicd_base b) (lost_redist b) k" "k < spin s"
    and idles: "uart_idles (bus s) (run_regops (bus s) (gic_program (gicd_base b) (lost_redist b) k) (hw s)) (uart_base b) j" "j < spin s"
  shows "\<exists>s'. parse_dtb dtb s = (Inr (), effect (gic_program (gicd_base b) (lost_redist b) k @ uart_program (board_uart b) j)
      (s'\<lparr>GIC := \<lparr>dist_addr = gicd_base b, redist_addr = lost_redist b\<rparr>, UART := board_uart b\<rparr>)) \<and> dt_rest s' = dt_rest s"
proof -
  obtain s' ds rest where parse: "parse_dtb dtb s = block_M [gic_setup (ds ! 1), uart_setup (ds ! 3), timer_setup (ds ! 4)] s'"
    and s': "dt_rest s' = dt_rest s" and table: "board_table names (ram s) t ds rest s'"
    using board_parse_calls [OF boot blob nodes] by blast
  note devs = board_table_devs [OF table]
  have same: "bus s' = bus s" "hw s' = hw s" "spin s' = spin s" "UART s' = UartPl011_new"
    using dt_rest_kernel [OF s'] uart by simp_all
  obtain others where "has_prop names (length (snd (intc_node t))) (snd (intc_node t)) ''reg''
      (cells_bytes (addr_cells (gicd_base b) @ addr_cells (gicd_size b) @ addr_cells (gicr_base b) @ others))"
    using nodes by (auto simp: nodes_describe_def intc_describes_def)
  then have reg: "has_prop names (length (snd (intc_node t))) (snd (intc_node t)) ''reg''
      (cells_bytes (addr_cells (gicd_base b) @ [ucast (drop_bit 32 (gicd_size b))] @
        [ucast (gicd_size b), ucast (drop_bit 32 (gicr_base b))] @ ucast (gicr_base b) # others))"
    by (simp add: addr_cells_def [of "gicd_size b"] addr_cells_def [of "gicr_base b"])
  let ?s1 = "effect (gic_program (gicd_base b) (lost_redist b) k) (s'\<lparr>GIC := \<lparr>dist_addr = gicd_base b, redist_addr = lost_redist b\<rparr>\<rparr>)"
  have gic: "gic_setup (ds ! 1) s' = (Inr (), ?s1)"
    using board_gic_setup [OF table lost_lookups(1) [OF table lost flat_in_parent [OF devs(5)]] reg, of k] wakes
    by (simp add: addr_cells_value lost_redist_cells same)
  have table1: "board_table names (ram s) t ds rest ?s1" using table by (simp add: board_table_updates)
  have no_irq: "uart_setup_interrupt (ds ! 3) ?s1 = (Inr (), effect [] ?s1)"
    using lost_lookups(2) [OF table1 lost flat_in_parent [OF devs(7)]] flat_in_ok [OF devs(7)]
    by (simp add: uart_setup_interrupt_def find_property_eq dev_ok_def split: option.split)
  let ?s2 = "effect (uart_program (board_uart b) j) (?s1\<lparr>UART := board_uart b\<rparr>)"
  have uart: "uart_setup (ds ! 3) ?s1 = (Inr (), ?s2)"
    using board_uart_setup [OF table1 nodes lost_lookups(1) [OF table1 lost flat_in_parent [OF devs(7)]] no_irq clock, of j] idles
    by (simp add: same hw_effect run_regops_def)
  have "board_table names (ram s) t ds rest ?s2" using table1 by (simp add: board_table_updates)
  from lost_lookups(2) [OF this lost flat_in_parent [OF devs(8)]] flat_in_ok [OF devs(8)]
  have "timer_setup (ds ! 4) ?s2 = (Inr (), ?s2)" by (simp add: timer_setup_def find_property_eq dev_ok_def split: option.split)
  with gic uart s' show ?thesis unfolding parse by (auto simp: effect_def run_regops_def)
qed

end
