(* ===== verification/Virt.thy ===== *)
theory Virt
  imports Board
begin

text \<open>
  The kernel on a board: what the parse of a tree that describes the board does to the hardware, what it does when the root's properties are lost, and the
  boot from the first instruction to the console. The tree of the \<^verbatim>\<open>virt\<close> machine, as a blob in memory, is the witness.
\<close>

section \<open>Properties\<close>

text \<open>
  C3. From the bytes of the tree to the registers. For every blob that encodes a tree describing a board, with properties in any
  order and any further nodes that no driver matches, and on hardware that wakes up and falls idle within the polls granted, \<open>parse_dtb\<close> returns, and what
  the hardware has seen is exactly this: Group 1 enabled in the distributor and the redistributor woken, at the addresses in the tree;
  the priority mask opened; the UART's shared interrupt configured as the tree says; the UART disabled, awaited and configured for the clock that the
  tree refers to; and the timer's private interrupt configured. The drivers hold the addresses of the tree, and nothing else changes but the tables.
\<close>

theorem board_devices_set_up:
  fixes s :: "('h, 'm) kernel_scheme"
  assumes "boot_tables s" and "blob_ok names (ram s) dtb off_struct off_strings (board_tree t)"
    and "describes names b t" and "board_ok b" and "UART s = UartPl011_new"
    and "gic_wakes (bus s) (hw s) (gicd_base b) (gicr_base b) k" and "k < spin s"
    and "uart_idles (bus s) (run_regops (bus s) (gic_program (gicd_base b) (gicr_base b) k @
        spi_program (gicd_base b) (32 + uart_spi b) (uart_flags b AND 3 \<noteq> 0)) (hw s)) (uart_base b) j" and "j < spin s"
  shows "\<exists>s'. parse_dtb dtb s = (Inr (), s') \<and>
    hw s' = run_regops (bus s)
      (gic_program (gicd_base b) (gicr_base b) k @
       spi_program (gicd_base b) (32 + uart_spi b) (uart_flags b AND 3 \<noteq> 0) @
       uart_program (board_uart b) j @
       ppi_program (gicr_base b) (16 + timer_ppi b) (timer_flags b AND 3 \<noteq> 0)) (hw s) \<and>
    dist_addr (GIC s') = gicd_base b \<and> redist_addr (GIC s') = gicr_base b \<and>
    base_addr (UART s') = uart_base b \<and> base_clock (UART s') = clock_hz b \<and>
    devices s' = flat names (dtb + ucast off_struct) None 0 0 (board_tree t) \<and>
    ram s' = ram s \<and> RX_BUFFER s' = RX_BUFFER s"
proof -
  obtain s' where s': "parse_dtb dtb s = (Inr (), board_state b k j s')" "dt_rest s' = dt_rest s"
    "devices s' = flat names (dtb + ucast off_struct) None 0 0 (board_tree t)"
    using board_parse [OF assms] by blast
  then show ?thesis
    using dt_rest_kernel [OF s'(2)] dt_rest_ram [OF s'(2)]
    by (intro exI [of _ "board_state b k j s'"])
      (simp add: board_state_def effect_def board_program_def board_uart_def devices_def)
qed

text \<open>
  C32. A board that stays deaf. If the last node of the tree has no properties, the same board is set up wrongly, whatever its root says. The root's
  cells are lost, so the address of the redistributor is read one cell too early: its upper half is the size of the distributor's region, its
  lower half the upper half of the true address. For addresses below 4 GiB it is the size shifted by 32. The root's interrupt parent is lost, so neither the
  interrupt of the UART nor that of the timer is configured: the program that the hardware sees has only the start of the controller, at the wrong
  address, and the configuration of the UART. No error is reported.
\<close>

theorem lost_root_leaves_board_deaf:
  fixes s :: "('h, 'm) kernel_scheme"
  assumes "boot_tables s" and "blob_ok names (ram s) dtb off_struct off_strings (board_tree t)"
    and "nodes_describe names b t" and "last_props (board_tree t) = 0" and "4 * unat (clock_hz b) < 2 ^ 32" and "UART s = UartPl011_new"
    and "gic_wakes (bus s) (hw s) (gicd_base b) (push_bit 32 (gicd_size b) OR drop_bit 32 (gicr_base b)) k" and "k < spin s"
    and "uart_idles (bus s) (run_regops (bus s)
        (gic_program (gicd_base b) (push_bit 32 (gicd_size b) OR drop_bit 32 (gicr_base b)) k) (hw s)) (uart_base b) j" and "j < spin s"
  shows "\<exists>s'. parse_dtb dtb s = (Inr (), s') \<and>
    redist_addr (GIC s') = push_bit 32 (gicd_size b) OR drop_bit 32 (gicr_base b) \<and>
    (unat (gicr_base b) < 2 ^ 32 \<longrightarrow> redist_addr (GIC s') = push_bit 32 (gicd_size b)) \<and>
    hw s' = run_regops (bus s) (gic_program (gicd_base b) (redist_addr (GIC s')) k @ uart_program (board_uart b) j) (hw s)"
proof -
  obtain s' where s': "parse_dtb dtb s = (Inr (), effect (gic_program (gicd_base b) (lost_redist b) k @ uart_program (board_uart b) j)
      (s'\<lparr>GIC := \<lparr>dist_addr = gicd_base b, redist_addr = lost_redist b\<rparr>, UART := board_uart b\<rparr>))" "dt_rest s' = dt_rest s"
    using lost_parse [OF assms(1-6), folded lost_redist_def] assms(7-10) unfolding lost_redist_def by blast
  have "drop_bit 32 a = 0" if "unat a < 2 ^ 32" for a :: u64
    using that by (simp add: word_unat_eq_iff drop_bit_eq_div unat_div_distrib)
  with s' dt_rest_kernel [OF s'(2)] show ?thesis
    by (auto simp: effect_def lost_redist_def)
qed

text \<open>
  C2. From the first instruction to the console, on a board. The image is loaded as linked with a zero \<^verbatim>\<open>.bss\<close>, the statics have their
  initial values, the blob encodes a tree that describes the board, and the hardware answers the polls: then \<open>_start\<close> reaches the main
  loop with the UART of the tree as its console. From there on every address of the image and of the stack is mapped to itself as normal memory that
  EL1 can execute, and every address below 1 GiB, where the devices are, as device memory that cannot be executed; and whatever
  interrupts and turns of the main loop follow, nothing fails and what is written to the UART at the address in the tree is what the abstract
  console prints.
\<close>

theorem board_boots_to_console:
  fixes s :: "('h, 'm) kernel_scheme"
  defines "h \<equiv> \<lambda>syms evt_addr. run_regops (bus s) [Msr DAIFSet 15, Msr CPACR_EL1 0x300000, Fence ISB_SY,
      Msr SP (ls_stack_top syms), Msr VBAR_EL1 evt_addr, Fence ISB_SY, Msr DAIFClr 2] (hw s)"
  assumes image: "fits_ram z" "image_loaded z s" "syms = image_symbols (link z)"
    and statics: "boot_tables s" "UART s = UartPl011_new" "rx_ok s"
    and tree: "blob_ok names (ram s) dtb off_struct off_strings (board_tree t)" "describes names b t" "board_ok b" "uart_base b \<noteq> 0"
    and wakes: "gic_wakes (bus s) (h syms evt_addr) (gicd_base b) (gicr_base b) k" "k < spin s"
    and idles: "uart_idles (bus s) (run_regops (bus s) (gic_program (gicd_base b) (gicr_base b) k @
        spi_program (gicd_base b) (32 + uart_spi b) (uart_flags b AND 3 \<noteq> 0)) (h syms evt_addr)) (uart_base b) j" "j < spin s"
    and drains: "tx_drains (bus s) (uart_base b) (spin s)"
  shows "\<exists>t u ops r. start syms evt_addr 0 dtb s = (Inr (), t) \<and> rx_bytes t = rx_bytes s \<and>
    (\<forall>va. 0x50000000 \<le> unat va \<and> unat va < l_stack_top (link z) \<longrightarrow>
       (\<exists>d. translate (ram t) (idmap_l0 syms) va = Some (va, d) \<and> take_bit 3 (drop_bit 2 d) = 2 \<and> \<not> bit d 53)) \<and>
    (\<forall>va. unat va < 2 ^ 30 \<longrightarrow>
       (\<exists>d. translate (ram t) (idmap_l0 syms) va = Some (va, d) \<and> take_bit 3 (drop_bit 2 d) = 0 \<and> bit d 53)) \<and>
    for_M events kernel_step t = (Inr (), u) \<and> u = (effect ops t)\<lparr>RX_BUFFER := r\<rparr> \<and>
    written (uart_base b) ops =
      map ucast (str_bytes (fst (spec_runs console_step (stimuli kernel_step kernel_stimulus events t) (rx_bytes s)))) \<and>
    rx_bytes u = snd (spec_runs console_step (stimuli kernel_step kernel_stimulus events t) (rx_bytes s))"
proof -
  let ?s = "effect [Msr DAIFSet 15, Msr CPACR_EL1 0x300000, Fence ISB_SY, Msr SP (ls_stack_top syms),
      Msr VBAR_EL1 evt_addr, Fence ISB_SY, Msr DAIFClr 2] s"
  have "boot_tables ?s" "UART ?s = UartPl011_new" "hw ?s = h syms evt_addr"
    using statics by (simp_all add: boot_tables_def effect_def h_def)
  then obtain s' where s': "parse_dtb dtb ?s = (Inr (), board_state b k j s')" "dt_rest s' = dt_rest ?s"
    using board_parse [of ?s names dtb off_struct off_strings t b k j] tree(1-3) wakes idles by auto
  have uart: "UART (board_state b k j s') = board_uart b" "putchar_base (board_uart b) = uart_base b"
    using tree(4) by (simp_all add: board_state_def effect_def board_uart_def putchar_base_def)
  have "bus (board_state b k j s') = bus s" "spin (board_state b k j s') = spin s"
    using dt_rest_kernel [OF s'(2)] by (simp_all add: board_state_def)
  then have "tx_ready (board_state b k j s')" using drains by (simp add: tx_ready_def uart)
  from image_boots_to_console [OF image s'(1) statics(3) this, of events, unfolded uart] show ?thesis .
qed


section \<open>The virt board\<close>

definition virt :: board where
  "virt = \<lparr>gicd_base = 0x8000000, gicr_base = 0x80A0000, gicd_size = 0x10000, uart_base = 0x9000000, uart_spi = 1, uart_flags = 4,
     clock_hz = 24000000, timer_ppi = 14, timer_flags = 4, intc_handle = 0x8001, clock_handle = 0x8000\<rparr>"

definition virt_strings :: "(u32 \<times> string) list" where
  "virt_strings = [(0, ''#address-cells''), (15, ''#size-cells''), (27, ''interrupt-parent''), (44, ''compatible''), (55, ''reg''),
     (59, ''#interrupt-cells''), (76, ''phandle''), (84, ''clock-frequency''), (100, ''interrupts''), (111, ''clocks'')]"

definition virt_names :: "u32 \<Rightarrow> string" where
  "virt_names off = (case map_of virt_strings off of Some n \<Rightarrow> n | None \<Rightarrow> [])"

definition compat_value :: "string list \<Rightarrow> u8 list" where
  "compat_value strs = join_nul (map str_bytes strs)"

definition virt_nodes :: "dt_node list \<Rightarrow> board_nodes" where
  "virt_nodes others =
     \<lparr>root_node = ([], [(0, to_be_bytes (2 :: u32)), (15, to_be_bytes (2 :: u32)), (27, to_be_bytes (0x8001 :: u32))]),
      intc_node = (''intc@8000000'',
        [(44, compat_value [''arm,gic-v3'']),
         (55, cells_bytes (addr_cells 0x8000000 @ addr_cells 0x10000 @ addr_cells 0x80A0000 @ addr_cells 0xF60000)),
         (59, to_be_bytes (3 :: u32)), (76, to_be_bytes (0x8001 :: u32))]),
      clock_node = (''apb-pclk'', [(84, to_be_bytes (24000000 :: u32)), (76, to_be_bytes (0x8000 :: u32))]),
      uart_node = (''pl011@9000000'',
        [(111, cells_bytes [0x8000, 0x8000]), (100, cells_bytes [0, 1, 4]),
         (55, cells_bytes (addr_cells 0x9000000 @ addr_cells 0x1000)),
         (44, compat_value [''arm,pl011'', ''arm,primecell''])]),
      timer_node = (''timer'',
        [(100, cells_bytes [1, 13, 4, 1, 14, 4, 1, 11, 4, 1, 10, 4]),
         (44, compat_value [''arm,armv8-timer'', ''arm,armv7-timer''])]),
      other_nodes = others\<rparr>"

text \<open>Two trees of the board: one that ends with a node of three properties, and one that ends with a node of none.\<close>

definition virt_cpus :: "dt_node list" where
  "virt_cpus =
     [Node ''cpus'' [(0, to_be_bytes (1 :: u32)), (15, to_be_bytes (0 :: u32))]
        [Node ''cpu@0'' [(55, to_be_bytes (0 :: u32)), (44, compat_value [''arm,cortex-a53'']), (76, to_be_bytes (0x8002 :: u32))] []]]"

definition virt_chosen :: "dt_node list" where
  "virt_chosen = [Node ''chosen'' [] []]"

lemma driver_of_join:
  assumes "\<forall>x \<in> set strs. 0 \<notin> set (str_bytes x)"
  shows "driver_of (compat_value strs) = find (\<lambda>c. c \<in> set strs) [''arm,gic-v3'', ''arm,pl011'', ''arm,armv7-timer'']"
proof -
  have "split_nul (join_nul (map str_bytes strs)) = map str_bytes strs" using assms by (intro split_nul_join_nul) simp
  then have "map bytes_str (split_nul (join_nul (map str_bytes strs))) = strs" by (simp add: comp_def)
  then show ?thesis by (simp only: driver_of_def compat_value_def)
qed

lemma virt_drivers:
  "driver_of (compat_value [''arm,gic-v3'']) = Some ''arm,gic-v3''"
  "driver_of (compat_value [''arm,pl011'', ''arm,primecell'']) = Some ''arm,pl011''"
  "driver_of (compat_value [''arm,armv8-timer'', ''arm,armv7-timer'']) = Some ''arm,armv7-timer''"
  "driver_of (compat_value [''arm,cortex-a53'']) = None"
  by (subst driver_of_join; simp)+

lemma virt_names_simps:
  "virt_names 0 = ''#address-cells''" "virt_names 15 = ''#size-cells''" "virt_names 27 = ''interrupt-parent''"
  "virt_names 44 = ''compatible''" "virt_names 55 = ''reg''" "virt_names 59 = ''#interrupt-cells''" "virt_names 76 = ''phandle''"
  "virt_names 84 = ''clock-frequency''" "virt_names 100 = ''interrupts''" "virt_names 111 = ''clocks''"
  by (simp_all add: virt_names_def virt_strings_def)

lemmas virt_facts = virt_names_simps virt_drivers has_prop_def virt_def

lemma virt_nodes_describe:
  assumes "unmatched virt_names (concat (map tree_props others))"
  shows "nodes_describe virt_names virt (virt_nodes others)"
proof -
  have "intc_describes virt_names virt (snd (intc_node (virt_nodes others)))"
    unfolding intc_describes_def matched_def
    by (intro conjI exI [of _ "compat_value [''arm,gic-v3'']"] exI [of _ "addr_cells 0xF60000"]) (simp_all add: virt_facts virt_nodes_def)
  moreover have "clock_describes virt_names virt (snd (clock_node (virt_nodes others)))"
    by (simp add: clock_describes_def unmatched_def virt_facts virt_nodes_def)
  moreover have "uart_describes virt_names virt (snd (uart_node (virt_nodes others)))"
    unfolding uart_describes_def matched_def
    by (intro conjI, rule exI [of _ "compat_value [''arm,pl011'', ''arm,primecell'']"], simp add: virt_facts virt_nodes_def,
        rule exI [of _ "addr_cells 0x1000"], simp add: virt_facts virt_nodes_def,
        rule exI [of _ "[]"], simp add: virt_facts virt_nodes_def, rule exI [of _ "[0x8000]"], simp add: virt_facts virt_nodes_def)
  moreover have "timer_describes virt_names virt (snd (timer_node (virt_nodes others)))"
    unfolding timer_describes_def matched_def
    by (intro conjI exI [of _ "compat_value [''arm,armv8-timer'', ''arm,armv7-timer'']"] exI [of _ "[1, 13, 4]"] exI [of _ "[1, 11, 4, 1, 10, 4]"])
      (simp_all add: virt_facts virt_nodes_def)
  moreover have "other_nodes (virt_nodes others) = others" by (simp add: virt_nodes_def)
  ultimately show ?thesis
    using assms by (simp add: nodes_describe_def) (simp add: unmatched_def virt_facts virt_nodes_def)
qed

lemma virt_describes: "describes virt_names virt (virt_nodes virt_cpus)"
proof -
  have "last_props (board_tree (virt_nodes virt_cpus)) = 3" by (simp add: board_tree_def virt_nodes_def virt_cpus_def)
  moreover have "root_describes virt_names virt 3 (snd (root_node (virt_nodes virt_cpus)))"
    by (simp add: root_describes_def virt_facts virt_nodes_def numeral_3_eq_3)
  moreover have "unmatched virt_names (concat (map tree_props virt_cpus))" by (simp add: unmatched_def virt_cpus_def virt_facts)
  ultimately show ?thesis by (simp add: describes_def virt_nodes_describe)
qed

lemma virt_ok: "board_ok virt"
  by (simp add: board_ok_def virt_def)

text \<open>A blob with a tree of the board, in memory below the image; the strings come before the structure.\<close>

definition virt_blob :: "dt_node list \<Rightarrow> u8 list" where
  "virt_blob others = cells_bytes [0xd00dfeed, 0x1000, 160, 40, 0, 17, 16, 0, 118, 0xf60] @
     concat (map (\<lambda>(off, n). str_bytes n @ [0]) virt_strings) @ [0, 0] @
     (enc_node (board_tree (virt_nodes others)) @ to_be_bytes (9 :: u32))"

definition virt_boot :: "dt_node list \<Rightarrow> store_hw kernel" where
  "virt_boot others = uart_example_tx
     \<lparr>ram := (\<lambda>a. if 0x50000000 \<le> unat a \<and> unat a < 0x50817000 then Some 0 else mem_at 0x48000000 (virt_blob others) a),
      DEVICE_TABLE := DEVICE_TABLE_init, PHANDLE_TABLE := PHANDLE_TABLE_init, UART := UartPl011_new\<rparr>"

lemma virt_lengths:
  "length (enc_node (board_tree (virt_nodes others))) = 488 + length (concat (map enc_node others))"
  "length (virt_blob others) = 652 + length (concat (map enc_node others))"
proof -
  show enc: "length (enc_node (board_tree (virt_nodes others))) = 488 + length (concat (map enc_node others))"
    by (simp add: board_tree_def virt_nodes_def length_enc_begin length_enc_prop compat_value_def join_nul_def)
  show "length (virt_blob others) = 652 + length (concat (map enc_node others))" by (simp add: virt_blob_def enc virt_strings_def)
qed

lemma virt_blob_held:
  assumes "length (concat (map enc_node others)) < 0x1000"
  shows "holds_bytes (ram (virt_boot others)) 0x48000000 (virt_blob others)"
  unfolding holds_bytes_nth
proof (intro allI impI)
  fix i assume i: "i < length (virt_blob others)"
  then have "unat (0x48000000 + of_nat i :: u64) < 0x50000000" using assms by (simp add: virt_lengths unat_word_ariths unat_of_nat)
  moreover have "mem_at 0x48000000 (virt_blob others) (0x48000000 + of_nat i) = Some (virt_blob others ! i)"
    using holds_bytes_mem_at [of "virt_blob others" "0x48000000"] i assms unfolding holds_bytes_nth virt_lengths by simp
  ultimately show "ram (virt_boot others) (0x48000000 + of_nat i) = Some (virt_blob others ! i)" by (simp add: virt_boot_def)
qed

lemma virt_held:
  assumes "length (concat (map enc_node others)) < 0x1000"
  shows "holds_bytes (ram (virt_boot others)) 0x48000000 (cells_bytes [0xd00dfeed, 0x1000, 160, 40, 0, 17, 16, 0, 118, 0xf60])"
    and "holds_bytes (ram (virt_boot others)) 0x48000028 (concat (map (\<lambda>(off, n). str_bytes n @ [0]) virt_strings))"
    and "holds_bytes (ram (virt_boot others)) 0x480000A0 (enc_node (board_tree (virt_nodes others)) @ to_be_bytes (9 :: u32))"
proof -
  have "length (concat (map (\<lambda>(off, n). str_bytes n @ [0]) virt_strings)) = 118" by (simp add: virt_strings_def)
  with virt_blob_held [OF assms]
  show "holds_bytes (ram (virt_boot others)) 0x48000000 (cells_bytes [0xd00dfeed, 0x1000, 160, 40, 0, 17, 16, 0, 118, 0xf60])"
    "holds_bytes (ram (virt_boot others)) 0x48000028 (concat (map (\<lambda>(off, n). str_bytes n @ [0]) virt_strings))"
    "holds_bytes (ram (virt_boot others)) 0x480000A0 (enc_node (board_tree (virt_nodes others)) @ to_be_bytes (9 :: u32))"
    unfolding virt_blob_def holds_bytes_append by simp_all
qed

lemma virt_prop_ok:
  assumes "length (concat (map enc_node others)) < 0x1000" and "off \<in> fst ` set virt_strings" and "length v < 2 ^ 32"
    and "off = 76 \<longrightarrow> length v = 4"
  shows "prop_ok virt_names (ram (virt_boot others)) 0x48000000 40 (off, v)"
proof -
  have "\<forall>(off, n) \<in> set virt_strings. virt_names off = n \<and> 0 \<notin> set (str_bytes n) \<and> unat off < 118 \<and> length n < 20 \<and>
      (n = ''phandle'' \<longrightarrow> off = 76) \<and> holds_bytes (ram (virt_boot others)) (0x48000028 + ucast off) (str_bytes n @ [0])"
    using virt_held(2) [OF assms(1)] unfolding virt_strings_def list.map concat.simps prod.case holds_bytes_append
    by (simp add: virt_names_simps)
  with assms(2-) show ?thesis by (auto simp: prop_ok_def)
qed

lemma virt_blob_ok:
  assumes small: "length (concat (map enc_node others)) < 0x1000"
    and others: "\<forall>c \<in> set others. node_ok virt_names (ram (virt_boot others)) 0x48000000 40 c"
    and "node_height (board_tree (virt_nodes others)) \<le> 10" "node_count (board_tree (virt_nodes others)) \<le> MAX_DEVICES"
      "length (handles virt_names 0 (board_tree (virt_nodes others))) \<le> MAX_HANDLES"
  shows "blob_ok virt_names (ram (virt_boot others)) 0x48000000 160 40 (board_tree (virt_nodes others))"
  unfolding blob_ok_def
proof (intro conjI)
  show "\<exists>v1 v4 v5 v6 v7 v8 v9. holds_bytes (ram (virt_boot others)) 0x48000000
      (cells_bytes [0xd00dfeed, v1, 160, 40, v4, v5, v6, v7, v8, v9])"
    using virt_held(1) [OF small] by blast
  have "\<forall>b \<in> set (map (node_ok virt_names (ram (virt_boot others)) 0x48000000 40) others). b" using others by simp
  then show "node_ok virt_names (ram (virt_boot others)) 0x48000000 (ucast (40 :: u32)) (board_tree (virt_nodes others))"
    by (simp add: board_tree_def virt_nodes_def virt_prop_ok [OF small] MAX_PROPS_def virt_strings_def compat_value_def join_nul_def)
qed (use virt_held(3) [OF small] small assms(3-) in \<open>simp_all add: virt_lengths\<close>)

lemma virt_blobs:
  "blob_ok virt_names (ram (virt_boot virt_cpus)) 0x48000000 160 40 (board_tree (virt_nodes virt_cpus))"
  "blob_ok virt_names (ram (virt_boot virt_chosen)) 0x48000000 160 40 (board_tree (virt_nodes virt_chosen))"
proof -
  have small: "length (concat (map enc_node virt_cpus)) < 0x1000" "length (concat (map enc_node virt_chosen)) < 0x1000"
    by (simp_all add: virt_cpus_def virt_chosen_def length_enc_begin length_enc_prop compat_value_def join_nul_def)
  have "\<forall>c \<in> set virt_cpus. node_ok virt_names (ram (virt_boot virt_cpus)) 0x48000000 40 c"
    using virt_prop_ok [OF small(1)]
    by (subst virt_cpus_def) (simp add: MAX_PROPS_def virt_strings_def compat_value_def join_nul_def)
  then show "blob_ok virt_names (ram (virt_boot virt_cpus)) 0x48000000 160 40 (board_tree (virt_nodes virt_cpus))"
    by (rule virt_blob_ok [OF small(1)])
      (simp_all add: board_tree_def virt_nodes_def virt_cpus_def prop_handles_def virt_names_simps MAX_DEVICES_def MAX_HANDLES_def)
  have "\<forall>c \<in> set virt_chosen. node_ok virt_names (ram (virt_boot virt_chosen)) 0x48000000 40 c"
    by (simp add: virt_chosen_def)
  then show "blob_ok virt_names (ram (virt_boot virt_chosen)) 0x48000000 160 40 (board_tree (virt_nodes virt_chosen))"
    by (rule virt_blob_ok [OF small(2)])
      (simp_all add: board_tree_def virt_nodes_def virt_chosen_def prop_handles_def virt_names_simps MAX_DEVICES_def MAX_HANDLES_def)
qed

lemma virt_boot_simps:
  "boot_tables (virt_boot others)" "UART (virt_boot others) = UartPl011_new" "bus (virt_boot others) = slow_bus"
  "spin (virt_boot others) = 2" "hw (virt_boot others) = store_hw0" "rx_ok (virt_boot others)" "image_loaded example_sizes (virt_boot others)"
  using rx_ok_example
  by (simp_all add: virt_boot_def boot_tables_def rx_ok_def image_loaded_def example_link RAM_ORIGIN_def)
    (simp_all add: uart_example_tx_def uart_example_def)

text \<open>On the hardware of the example the registers that are polled stay clear until the first byte is sent.\<close>

lemma virt_hardware:
  assumes "\<forall>a. sh_reg h a = 0" and "r = 0x80A0000 \<or> r = 0x1000000000000"
  shows "gic_wakes slow_bus h 0x8000000 r 0"
    and "uart_idles slow_bus (run_regops slow_bus (gic_program 0x8000000 r 0 @ spi_program 0x8000000 33 e) h) 0x9000000 0"
    and "uart_idles slow_bus (run_regops slow_bus (gic_program 0x8000000 r 0) h) 0x9000000 0"
proof -
  show "gic_wakes slow_bus h 0x8000000 r 0"
    using assms by (auto simp: gic_wakes_def run_regops_def) (simp_all add: slow_bus_def store_bus_def)
  show "uart_idles slow_bus (run_regops slow_bus (gic_program 0x8000000 r 0 @ spi_program 0x8000000 33 e) h) 0x9000000 0"
    "uart_idles slow_bus (run_regops slow_bus (gic_program 0x8000000 r 0) h) 0x9000000 0"
    using assms by (auto simp: uart_idles_def gic_program_def spi_program_def run_regops_def) (simp_all add: slow_bus_def store_bus_def)
qed

theorem board_devices_set_up_witness:
  "\<exists>s'. parse_dtb 0x48000000 (virt_boot virt_cpus) = (Inr (), s') \<and>
     dist_addr (GIC s') = 0x8000000 \<and> redist_addr (GIC s') = 0x80A0000 \<and> base_addr (UART s') = 0x9000000 \<and>
     base_clock (UART s') = 24000000 \<and> map dev_name (devices s') = [[], ''intc@8000000'', ''apb-pclk'', ''pl011@9000000'', ''timer'', ''cpus'', ''cpu@0'']"
proof -
  have "\<forall>a. sh_reg store_hw0 a = 0" by (simp add: store_hw0_def)
  note hardware = virt_hardware [OF this, of "0x80A0000"]
  have "map dev_name (flat virt_names sb None 0 0 (board_tree (virt_nodes virt_cpus))) =
      [[], ''intc@8000000'', ''apb-pclk'', ''pl011@9000000'', ''timer'', ''cpus'', ''cpu@0'']" for sb
    by (simp add: board_tree_def virt_nodes_def virt_cpus_def flat_device_def)
  then show ?thesis
    using board_devices_set_up [OF virt_boot_simps(1) virt_blobs(1) virt_describes virt_ok virt_boot_simps(2), of 0 0] hardware
    by (auto simp: virt_boot_simps virt_def)
qed

theorem lost_root_leaves_board_deaf_witness:
  "\<exists>s'. parse_dtb 0x48000000 (virt_boot virt_chosen) = (Inr (), s') \<and> redist_addr (GIC s') = 0x1000000000000"
proof -
  have "\<forall>a. sh_reg store_hw0 a = 0" by (simp add: store_hw0_def)
  note hardware = virt_hardware [OF this, of "0x1000000000000"]
  have "nodes_describe virt_names virt (virt_nodes virt_chosen)"
    by (rule virt_nodes_describe) (simp add: unmatched_def virt_chosen_def)
  moreover have "last_props (board_tree (virt_nodes virt_chosen)) = 0"
    by (simp add: board_tree_def virt_nodes_def virt_chosen_def)
  ultimately show ?thesis
    using lost_root_leaves_board_deaf [OF virt_boot_simps(1) virt_blobs(2), of virt 0 0] hardware
    by (auto simp: virt_boot_simps virt_def)
qed

theorem board_boots_to_console_witness:
  "\<exists>t d. start (image_symbols (link example_sizes)) 0x50000800 0 0x48000000 (virt_boot virt_cpus) = (Inr (), t) \<and>
     translate (ram t) (idmap_l0 (image_symbols (link example_sizes))) 0x9000000 = Some (0x9000000, d) \<and> bit d 53"
proof -
  let ?syms = "image_symbols (link example_sizes)" and ?s = "virt_boot virt_cpus"
  let ?h = "run_regops slow_bus [Msr DAIFSet 15, Msr CPACR_EL1 0x300000, Fence ISB_SY, Msr SP (ls_stack_top ?syms),
      Msr VBAR_EL1 0x50000800, Fence ISB_SY, Msr DAIFClr 2] store_hw0"
  have "\<forall>a. sh_reg ?h a = 0" by (simp add: run_regops_def) (simp add: slow_bus_def store_bus_def store_hw0_def)
  note hardware = virt_hardware [OF this, of "0x80A0000"]
  have "\<exists>t. start ?syms 0x50000800 0 0x48000000 ?s = (Inr (), t) \<and>
    (\<forall>va. unat va < 2 ^ 30 \<longrightarrow> (\<exists>d. translate (ram t) (idmap_l0 ?syms) va = Some (va, d) \<and> take_bit 3 (drop_bit 2 d) = 0 \<and> bit d 53))"
    using board_boots_to_console [OF example_fits virt_boot_simps(7) refl virt_boot_simps(1,2,6) virt_blobs(1) virt_describes virt_ok,
        of "0x50000800" 0 0 "[]"] hardware tx_drains_slow
    by (auto simp: virt_boot_simps virt_def)
  then obtain t where t: "start ?syms 0x50000800 0 0x48000000 ?s = (Inr (), t)"
    "\<forall>va. unat va < 2 ^ 30 \<longrightarrow> (\<exists>d. translate (ram t) (idmap_l0 ?syms) va = Some (va, d) \<and> take_bit 3 (drop_bit 2 d) = 0 \<and> bit d 53)"
    by blast
  from t(2) [rule_format, of "0x9000000"] have "\<exists>d. translate (ram t) (idmap_l0 ?syms) 0x9000000 = Some (0x9000000, d) \<and> bit d 53"
    by auto
  with t(1) show ?thesis by blast
qed

end
