(* ===== verification/Dtb_Limits.thy ===== *)
theory Dtb_Limits
  imports Dtb_Tree
begin

text \<open>
  The limits of the parser are exact: a well-encoded tree that is too deep, has too many nodes, too many properties in a
  node or too many phandles makes the parse panic at the first token that does not fit, before any device is touched.
\<close>

section \<open>Trees without limits\<close>

primrec readable :: "(u32 \<Rightarrow> string) \<Rightarrow> (u64 \<Rightarrow> u8 option) \<Rightarrow> usize \<Rightarrow> usize \<Rightarrow> dt_node \<Rightarrow> bool" where
  "readable names mem dtb os (Node n ps cs) \<longleftrightarrow>
     0 \<notin> set (str_bytes n) \<and> (\<forall>p \<in> set ps. prop_ok names mem dtb os p) \<and> (\<forall>b \<in> set (map (readable names mem dtb os) cs). b)"

primrec small_props :: "nat \<Rightarrow> dt_node \<Rightarrow> bool" where
  "small_props k (Node n ps cs) \<longleftrightarrow> length ps \<le> k \<and> (\<forall>b \<in> set (map (small_props k) cs). b)"

lemma node_ok_iff: "node_ok names mem dtb os c \<longleftrightarrow> readable names mem dtb os c \<and> small_props MAX_PROPS c"
  by (induction c) auto

text \<open>Nodes in a row, encoded where the parser stands, and the room that they need.\<close>

definition placed :: "(u32 \<Rightarrow> string) \<Rightarrow> usize \<Rightarrow> usize \<Rightarrow> usize \<Rightarrow> ('h, 'm) dt_machine_scheme \<Rightarrow>
    nat \<Rightarrow> nat list \<Rightarrow> nat \<Rightarrow> dt_node list \<Rightarrow> bool" where
  "placed names dtb os sb s pos opened i cs \<longleftrightarrow>
     (\<forall>c \<in> set cs. readable names (ram s) dtb os c) \<and>
     holds_bytes (ram s) (sb + of_nat pos) (concat (map enc_node cs)) \<and> pos mod 4 = 0 \<and>
     unat sb + pos + length (concat (map enc_node cs)) + 4 < 2 ^ 64 \<and> (\<forall>j \<in> set opened. j < i)"

definition within :: "(u32 \<Rightarrow> string) \<Rightarrow> nat \<Rightarrow> nat \<Rightarrow> nat \<Rightarrow> dt_node list \<Rightarrow> bool" where
  "within names d i h cs \<longleftrightarrow>
     (\<forall>c \<in> set cs. d + node_height c \<le> 10 \<and> small_props MAX_PROPS c) \<and>
     i + sum_list (map node_count cs) \<le> MAX_DEVICES \<and> h + length (handless names i cs) \<le> MAX_HANDLES"

lemma fits_iff:
  "fits names dtb os sb s pos opened i h c \<longleftrightarrow> placed names dtb os sb s pos opened i [c] \<and> within names (length opened) i h [c]"
  by (auto simp: fits_def placed_def within_def node_ok_iff)

lemma within_Cons:
  "within names d i h (c # cs) \<longleftrightarrow>
   within names d i h [c] \<and> within names d (i + node_count c) (h + length (handles names i c)) cs"
  by (auto simp: within_def)

lemma fold_max_le_iff: "fold max xs a \<le> b \<longleftrightarrow> a \<le> b \<and> (\<forall>x \<in> set xs. x \<le> b)" for a b :: nat
  by (induction xs arbitrary: a) auto

lemma within_Node:
  "within names d i h [Node n ps cs] \<longleftrightarrow>
   d < 10 \<and> i < MAX_DEVICES \<and> length ps \<le> MAX_PROPS \<and> h + length (prop_handles names i ps) \<le> MAX_HANDLES \<and>
   within names (Suc d) (Suc i) (h + length (prop_handles names i ps)) cs"
proof -
  have "d + node_height (Node n ps cs) \<le> 10 \<longleftrightarrow> d < 10 \<and> fold max (map node_height cs) 0 \<le> 9 - d" by auto
  also have "\<dots> \<longleftrightarrow> d < 10 \<and> (\<forall>c \<in> set cs. Suc d + node_height c \<le> 10)"
    unfolding fold_max_le_iff by (cases "d < 10") (auto simp: Nat.le_diff_conv2 add.commute)
  finally show ?thesis by (auto simp: within_def simp del: node_height.simps)
qed

lemma placed_Cons:
  assumes "placed names dtb os sb s pos opened i (c # cs)"
  shows "placed names dtb os sb s pos opened i [c]"
    and "placed names dtb os sb s (pos + length (enc_node c)) opened (i + node_count c) cs"
proof -
  have "(pos + length (enc_node c)) mod 4 = 0"
    using assms length_enc_mod4(2) [of c] by (simp add: placed_def mod_add_eq [symmetric])
  then show "placed names dtb os sb s pos opened i [c]"
    "placed names dtb os sb s (pos + length (enc_node c)) opened (i + node_count c) cs"
    using assms by (auto simp: placed_def holds_bytes_append add.assoc)
qed

lemma placed_Node:
  assumes "placed names dtb os sb s pos opened i [Node n ps cs]"
  shows "holds_bytes (ram s) (sb + of_nat pos) (enc_begin n @ concat (map enc_prop ps) @ concat (map enc_node cs) @ to_be_bytes (2 :: u32))"
    and "holds_bytes (ram s) (sb + of_nat (pos + length (enc_begin n)))
      (concat (map enc_prop ps) @ concat (map enc_node cs) @ to_be_bytes (2 :: u32))"
    and "(pos + length (enc_begin n)) mod 4 = 0"
    and "placed names dtb os sb s (props_end pos n ps) (opened @ [i]) (Suc i) cs"
proof -
  note f = assms [unfolded placed_def]
  show mem: "holds_bytes (ram s) (sb + of_nat pos) (enc_begin n @ concat (map enc_prop ps) @ concat (map enc_node cs) @ to_be_bytes (2 :: u32))"
    using f by simp
  then show "holds_bytes (ram s) (sb + of_nat (pos + length (enc_begin n)))
      (concat (map enc_prop ps) @ concat (map enc_node cs) @ to_be_bytes (2 :: u32))"
    unfolding holds_bytes_append by (simp add: add.assoc)
  have "pos mod 4 = 0" using f by simp
  then show al: "(pos + length (enc_begin n)) mod 4 = 0" unfolding length_enc_begin by presburger
  then have "props_end pos n ps mod 4 = 0"
    using length_enc_mod4(1) [of ps] unfolding props_end_def by (metis add.right_neutral mod_add_eq mod_0)
  moreover have "holds_bytes (ram s) (sb + of_nat (props_end pos n ps)) (concat (map enc_node cs))"
    using mem unfolding holds_bytes_append by (simp add: props_end_def add.assoc)
  ultimately show "placed names dtb os sb s (props_end pos n ps) (opened @ [i]) (Suc i) cs"
    using f unfolding placed_def by (auto simp: props_end_def add.assoc)
qed

lemma placed_cong: "dt_rest s1 = dt_rest s \<Longrightarrow> placed names dtb os sb s1 = placed names dtb os sb s"
  by (simp add: fun_eq_iff placed_def dt_rest_ram [of s1 s])

section \<open>Tokens that do not fit\<close>

definition panics :: "usize \<Rightarrow> usize \<Rightarrow> usize \<Rightarrow> parse_locals \<Rightarrow> ('h, 'm) dt_machine_scheme \<Rightarrow> bool" where
  "panics dtb os sb l s \<longleftrightarrow> (\<exists>s'. parse_loop dtb os sb l s = (Inl Panic, s') \<and> dt_rest s' = dt_rest s)"

lemma panics_now:
  "parse_step dtb os sb l s = (Inl Panic, s') \<Longrightarrow> dt_rest s' = dt_rest s \<Longrightarrow> panics dtb os sb l s"
  unfolding panics_def by (subst parse_loop.simps) simp

lemma panics_later:
  "parse_loop dtb os sb l s = parse_loop dtb os sb l1 s1 \<Longrightarrow> dt_rest s1 = dt_rest s \<Longrightarrow> panics dtb os sb l1 s1 \<Longrightarrow> panics dtb os sb l s"
  unfolding panics_def by simp

lemma begin_panics:
  assumes at: "at_state l s pos opened k ds hs" and "\<forall>i \<in> set opened. i < length ds"
    and mem: "holds_bytes (ram s) (sb + of_nat pos) (enc_begin n @ bs)" and "0 \<notin> set (str_bytes n)"
    and "pos mod 4 = 0" and bound: "unat sb + pos + length (enc_begin n) + 4 < 2 ^ 64"
    and full: "\<not> (length opened < 10 \<and> length ds < MAX_DEVICES)"
  shows "panics dtb os sb l s"
proof -
  let ?d = "PlatformDevice_new\<lparr>dev_parent := parent_of opened, dev_name := n\<rparr>"
  have step: "parse_step dtb os sb l s = bind_M (begin_node sb (l\<lparr>p_off := of_nat (pos + 4)\<rparr>)) (\<lambda>l. return_M (Some l)) s"
    using begin_step [OF mem at, of dtb os] bound by simp
  show ?thesis
  proof (cases "length ds < MAX_DEVICES")
    case True
    then have "parse_step dtb os sb l s = (Inl Panic, s\<lparr>DEVICE_TABLE := (DEVICE_TABLE s)[length ds := ?d]\<rparr>)"
      using step begin_node_reads [OF assms(1-6)] at full by (simp add: set_device_def at_state_def update_M_def)
    then show ?thesis by (rule panics_now) (simp add: dt_rest_def)
  next
    case False
    then have "parse_step dtb os sb l s = (Inl Panic, s)"
      using step begin_node_reads [OF assms(1-6)] at by (simp add: set_device_def at_state_def update_M_def)
    then show ?thesis by (rule panics_now) simp
  qed
qed

lemma prop_panics:
  assumes at: "at_state l s pos (opened @ [i]) k ds hs" and "i < length ds" and "length (dev_properties (ds ! i)) = MAX_PROPS"
    and ok: "prop_ok names (ram s) dtb os p"
    and mem: "holds_bytes (ram s) (sb + of_nat pos) (enc_prop p @ bs)" and "pos mod 4 = 0"
    and bound: "unat sb + pos + length (enc_prop p) + 4 < 2 ^ 64"
    and full: "\<not> (k < MAX_PROPS \<and> length (hs @ handle_of names i p) \<le> MAX_HANDLES)"
  shows "panics dtb os sb l s"
proof -
  have step: "parse_step dtb os sb l s = bind_M (parse_prop dtb os sb (l\<lparr>p_off := of_nat (pos + 4)\<rparr>)) (\<lambda>l. return_M (Some l)) s"
    using prop_step [OF mem at, of dtb os] bound by (simp add: length_enc_prop)
  note reads = parse_prop_reads [OF at ok mem assms(6) bound]
  show ?thesis
  proof (cases "length (hs @ handle_of names i p) \<le> MAX_HANDLES")
    case True
    obtain s1 where reg: "register_phandle (names (fst p)) (sb + of_nat (pos + 12)) i s = (Inr (), s1)"
      and rest: "dt_rest s1 = dt_rest s" and at1: "at_state l s1 pos (opened @ [i]) k ds (hs @ handle_of names i p)"
      using register_phandle_ok [OF at ok enc_prop_split(3) [OF mem] True] by blast
    have "parse_step dtb os sb l s = (Inl Panic, s1)"
      using step reads reg deref_recorded [OF at1 assms(2)] assms(3) full True by (simp add: update_M_def)
    with rest show ?thesis by (intro panics_now)
  next
    case False
    then have name: "names (fst p) = ''phandle''" "length hs = MAX_HANDLES"
      using at by (auto simp: handle_of_def at_state_def split: if_splits)
    then have "read_be_u32 (sb + of_nat (pos + 12)) 0 s = (Inr (be_word (snd p)), s)"
      using ok load_bytes_holds [OF enc_prop_split(3) [OF mem]] by (simp add: prop_ok_def read_be_u32_eq)
    then have "register_phandle (names (fst p)) (sb + of_nat (pos + 12)) i s = (Inl Panic, s)"
      using name at by (simp add: register_phandle_def at_state_def update_M_def)
    then have "parse_step dtb os sb l s = (Inl Panic, s)" using step reads by simp
    then show ?thesis by (rule panics_now) simp
  qed
qed

lemma props_panic:
  assumes "at_state l s pos (opened @ [length ds]) (length dn)
      (ds @ [D\<lparr>dev_properties := dn @ replicate (MAX_PROPS - length dn) Property_new\<rparr>]) hs"
    and "length dn \<le> MAX_PROPS" and "\<forall>p \<in> set ps. prop_ok names (ram s) dtb os p"
    and "holds_bytes (ram s) (sb + of_nat pos) (concat (map enc_prop ps) @ bs)" and "pos mod 4 = 0"
    and "unat sb + pos + length (concat (map enc_prop ps)) + 4 < 2 ^ 64"
    and "\<not> (length dn + length ps \<le> MAX_PROPS \<and> length (hs @ prop_handles names (length ds) ps) \<le> MAX_HANDLES)"
  shows "panics dtb os sb l s"
  using assms
proof (induction ps arbitrary: l s pos dn hs)
  case Nil
  then show ?case by (simp add: at_state_def prop_handles_def)
next
  case (Cons p ps)
  let ?dev = "\<lambda>dn. D\<lparr>dev_properties := dn @ replicate (MAX_PROPS - length dn) Property_new\<rparr>"
  let ?h = "handle_of names (length ds) p"
  have mem: "holds_bytes (ram s) (sb + of_nat pos) (enc_prop p @ concat (map enc_prop ps) @ bs)" using Cons.prems(4) by simp
  show ?case
  proof (cases "length dn < MAX_PROPS \<and> length (hs @ ?h) \<le> MAX_HANDLES")
    case False
    then show ?thesis
      by (intro prop_panics [OF Cons.prems(1) _ _ _ mem Cons.prems(5)]) (use Cons.prems(2,3,6) in simp_all)
  next
    case True
    then obtain l1 s1 where step: "parse_step dtb os sb l s = (Inr (Some l1), s1)" "dt_rest s1 = dt_rest s"
      and at1: "at_state l1 s1 (pos + length (enc_prop p)) (opened @ [length ds]) (length (dn @ [flat_prop names sb pos p]))
        (ds @ [?dev (dn @ [flat_prop names sb pos p])]) (hs @ ?h)"
      using next_prop_token [OF Cons.prems(1) _ _ mem Cons.prems(5), of names dtb os] Cons.prems(3,6) by auto
    have "panics dtb os sb l1 s1"
    proof (rule Cons.IH [OF at1])
      show "holds_bytes (ram s1) (sb + of_nat (pos + length (enc_prop p))) (concat (map enc_prop ps) @ bs)"
        using mem unfolding holds_bytes_append by (simp add: dt_rest_ram [OF step(2)] add.assoc)
      show "(pos + length (enc_prop p)) mod 4 = 0"
        using Cons.prems(5) by (simp add: length_enc_prop) presburger
    qed (use Cons.prems(3,6,7) True in \<open>simp_all add: dt_rest_ram [OF step(2)] prop_handles_Cons\<close>)
    then show ?thesis by (rule panics_later [OF loop_step [OF step(1)] step(2)])
  qed
qed

lemma children_panic:
  fixes s :: "('h, 'm) dt_machine_scheme"
  assumes IH: "\<And>c l (s :: ('h, 'm) dt_machine_scheme) pos k ds hs. c \<in> set cs \<Longrightarrow> at_state l s pos opened k ds hs \<Longrightarrow>
      placed names dtb os sb s pos opened (length ds) [c] \<Longrightarrow> \<not> within names (length opened) (length ds) (length hs) [c] \<Longrightarrow>
      panics dtb os sb l s"
    and "at_state l s pos opened k ds hs" and "placed names dtb os sb s pos opened (length ds) cs"
    and "\<not> within names (length opened) (length ds) (length hs) cs"
  shows "panics dtb os sb l s"
  using assms
proof (induction cs arbitrary: l s pos k ds hs)
  case Nil
  then show ?case by (simp add: within_def at_state_def)
next
  case (Cons c cs)
  note fit = placed_Cons [OF Cons.prems(3)]
  show ?case
  proof (cases "within names (length opened) (length ds) (length hs) [c]")
    case False
    with Cons.prems(1) [OF _ Cons.prems(2) fit(1)] show ?thesis by simp
  next
    case True
    let ?ds = "ds @ flat names sb (parent_of opened) (length ds) pos c" and ?hs = "hs @ handles names (length ds) c"
    obtain l1 s1 where loop: "parse_loop dtb os sb l s = parse_loop dtb os sb l1 s1" "dt_rest s1 = dt_rest s"
      and at1: "at_state l1 s1 (pos + length (enc_node c)) opened (last_props c) ?ds ?hs"
      using node_tokens [OF Cons.prems(2), of names dtb os sb c] True fit(1) by (auto simp: reaches_def fits_iff)
    have "\<not> within names (length opened) (length ?ds) (length ?hs) cs"
      using Cons.prems(4) True by (simp add: within_Cons [of _ _ _ _ c cs] length_flat)
    moreover have "placed names dtb os sb s1 (pos + length (enc_node c)) opened (length ?ds) cs"
      using fit(2) by (simp add: placed_cong [OF loop(2)] length_flat)
    moreover have IH: "c' \<in> set cs \<Longrightarrow> at_state l s pos opened k ds hs \<Longrightarrow> placed names dtb os sb s pos opened (length ds) [c'] \<Longrightarrow>
        \<not> within names (length opened) (length ds) (length hs) [c'] \<Longrightarrow> panics dtb os sb l s"
      for c' l and s :: "('h, 'm) dt_machine_scheme" and pos k ds hs
      using Cons.prems(1) [of c' l s pos k ds hs] by simp
    ultimately have "panics dtb os sb l1 s1" by (intro Cons.IH [OF IH at1])
    then show ?thesis by (rule panics_later [OF loop])
  qed
qed

lemma node_panics:
  "at_state l s pos opened k ds hs \<Longrightarrow> placed names dtb os sb s pos opened (length ds) [c] \<Longrightarrow>
   \<not> within names (length opened) (length ds) (length hs) [c] \<Longrightarrow> panics dtb os sb l s"
proof (induction c arbitrary: l s pos opened k ds hs)
  case (Node n ps cs)
  let ?i = "length ds" and ?p1 = "pos + length (enc_begin n)" and ?p2 = "props_end pos n ps"
  let ?D = "\<lparr>dev_parent = parent_of opened, dev_name = n, dev_properties = replicate MAX_PROPS Property_new, prop_count = 0\<rparr>"
  note f = Node.prems(2) [unfolded placed_def] and fn = placed_Node [OF Node.prems(2)]
  have bounds: "unat sb + ?p1 + 4 < 2 ^ 64" "unat sb + ?p2 + 4 < 2 ^ 64" using f by (simp_all add: props_end_def)
  show ?case
  proof (cases "length opened < 10 \<and> ?i < MAX_DEVICES")
    case False
    then show ?thesis using f bounds by (intro begin_panics [OF Node.prems(1) _ fn(1)]) simp_all
  next
    case True
    then obtain l1 s1 where step1: "parse_step dtb os sb l s = (Inr (Some l1), s1)" "dt_rest s1 = dt_rest s"
      and at1: "at_state l1 s1 ?p1 (opened @ [?i]) (length ([] :: property list))
        (ds @ [?D\<lparr>dev_properties := [] @ replicate (MAX_PROPS - length ([] :: property list)) Property_new\<rparr>]) hs"
      using begin_token [OF Node.prems(1) _ fn(1), of dtb os] f bounds by (auto simp: PlatformDevice_new_def)
    have mem: "holds_bytes (ram s1) (sb + of_nat ?p1) (concat (map enc_prop ps) @ concat (map enc_node cs) @ to_be_bytes (2 :: u32))"
      "\<forall>p \<in> set ps. prop_ok names (ram s1) dtb os p" "unat sb + ?p1 + length (concat (map enc_prop ps)) + 4 < 2 ^ 64"
      using fn(2) f bounds(2) by (simp_all add: dt_rest_ram [OF step1(2)] props_end_def add.assoc)
    have "panics dtb os sb l1 s1"
    proof (cases "length ps \<le> MAX_PROPS \<and> length (hs @ prop_handles names ?i ps) \<le> MAX_HANDLES")
      case False
      then show ?thesis using props_panic [OF at1 _ mem(2,1) fn(3) mem(3)] by simp
    next
      case ok: True
      let ?dev = "flat_device names sb (parent_of opened) pos n ps"
      obtain l2 s2 where loop2: "parse_loop dtb os sb l1 s1 = parse_loop dtb os sb l2 s2" "dt_rest s2 = dt_rest s1"
        and at2: "at_state l2 s2 ?p2 (opened @ [?i]) (length ps) (ds @ [?dev 0]) (hs @ prop_handles names ?i ps)"
        using props_tokens [OF at1 _ mem(2,1) fn(3) mem(3)] ok by (auto simp: props_end_def flat_device_def)
      have "placed names dtb os sb s2 ?p2 (opened @ [?i]) (length (ds @ [?dev 0])) cs"
        using fn(4) loop2(2) step1(2) by (simp add: placed_cong [of s2 s])
      moreover have "\<not> within names (length (opened @ [?i])) (length (ds @ [?dev 0])) (length (hs @ prop_handles names ?i ps)) cs"
        using Node.prems(3) True ok by (simp add: within_Node)
      ultimately have "panics dtb os sb l2 s2" by - (rule children_panic [OF _ at2], rule Node.IH; assumption)
      then show ?thesis by (rule panics_later [OF loop2])
    qed
    then show ?thesis by (rule panics_later [OF loop_step [OF step1(1)] step1(2)])
  qed
qed

section \<open>Properties\<close>

text \<open>A blob that encodes a tree of any size.\<close>

definition blob_encodes :: "(u32 \<Rightarrow> string) \<Rightarrow> (u64 \<Rightarrow> u8 option) \<Rightarrow> usize \<Rightarrow> u32 \<Rightarrow> u32 \<Rightarrow> dt_node \<Rightarrow> bool" where
  "blob_encodes names mem dtb off_struct off_strings root \<longleftrightarrow>
     (\<exists>v1 v4 v5 v6 v7 v8 v9.
        holds_bytes mem dtb (cells_bytes [0xd00dfeed, v1, off_struct, off_strings, v4, v5, v6, v7, v8, v9])) \<and>
     holds_bytes mem (dtb + ucast off_struct) (enc_node root @ to_be_bytes (9 :: u32)) \<and>
     readable names mem dtb (ucast off_strings) root \<and>
     unat dtb + unat off_struct + length (enc_node root) + 8 < 2 ^ 64"

lemma within_root:
  "within names 0 0 0 [root] \<longleftrightarrow>
   node_height root \<le> 10 \<and> node_count root \<le> MAX_DEVICES \<and> length (handles names 0 root) \<le> MAX_HANDLES \<and> small_props MAX_PROPS root"
  by (auto simp: within_def)

lemma blob_ok_iff:
  "blob_ok names mem dtb off_struct off_strings root \<longleftrightarrow>
   blob_encodes names mem dtb off_struct off_strings root \<and> within names 0 0 0 [root]"
  unfolding blob_ok_def blob_encodes_def within_root node_ok_iff by blast

lemma parse_dtb_panics:
  fixes s :: "('h, 'm) kernel_scheme"
  assumes boot: "boot_tables s" and blob: "blob_encodes names (ram s) dtb off_struct off_strings root" and "\<not> within names 0 0 0 [root]"
  shows "\<exists>s'. parse_dtb dtb s = (Inl Panic, s') \<and> dt_rest s' = dt_rest s"
proof -
  let ?l = "\<lparr>p_off = 0, prop_id = 0, p_stack = replicate 10 0, stack_depth = 0\<rparr> :: parse_locals"
  let ?sb = "dtb + ucast off_struct" and ?os = "ucast off_strings :: u64"
  note b = blob [unfolded blob_encodes_def]
  obtain v1 v4 v5 v6 v7 v8 v9 where
    "holds_bytes (ram s) dtb (cells_bytes [0xd00dfeed, v1, off_struct, off_strings, v4, v5, v6, v7, v8, v9])"
    using b by blast
  note hdr = header_read [OF this]
  have base: "checked_add dtb (ucast off_struct) s = (Inr ?sb, s)" using b by simp
  have sb: "unat ?sb = unat dtb + unat off_struct"
    using unat_add_fits [of dtb "ucast off_struct"] b by simp
  have at: "at_state ?l s 0 [] 0 [] []"
    using boot by (simp add: at_state_def boot_tables_def DEVICE_TABLE_init_def PHANDLE_TABLE_init_def)
  have "placed names dtb ?os ?sb s 0 [] (length ([] :: platform_device list)) [root]"
    using b sb by (simp add: placed_def holds_bytes_append)
  then have "panics dtb ?os ?sb ?l s" using node_panics [OF at] assms(3) by simp
  then obtain s' where "parse_loop dtb ?os ?sb ?l s = (Inl Panic, s')" "dt_rest s' = dt_rest s" by (auto simp: panics_def)
  with hdr base show ?thesis by (auto simp: parse_dtb_def MAGIC_def)
qed

text \<open>
  C5. The parser's limits are exact. For a blob that encodes any tree, the parse reaches the initialisation of the devices, with the table of
  the tree, exactly if the tree is at most 10 levels deep, has at most 256 nodes, at most 32 phandles and at most 16 properties in each node. Any larger
  tree makes it panic, with the hardware, memory and drivers untouched: no array is overrun and no device is set up from half a tree.
\<close>

theorem parser_limits_exact:
  fixes s :: "('h, 'm) kernel_scheme"
  assumes "boot_tables s" and "blob_encodes names (ram s) dtb off_struct off_strings root"
  shows "if node_height root \<le> 10 \<and> node_count root \<le> 256 \<and> length (handles names 0 root) \<le> 32 \<and> small_props 16 root
    then \<exists>s'. parse_dtb dtb s = init_devices s' \<and> dt_rest s' = dt_rest s \<and>
      devices s' = flat names (dtb + ucast off_struct) None 0 0 root
    else \<exists>s'. parse_dtb dtb s = (Inl Panic, s') \<and> dt_rest s' = dt_rest s \<and> tables_ok s'"
proof -
  note within = within_root [of names root, unfolded MAX_DEVICES_def MAX_HANDLES_def MAX_PROPS_def]
  show ?thesis
  proof (cases "within names 0 0 0 [root]")
    case True
    then have "blob_ok names (ram s) dtb off_struct off_strings root" using assms(2) by (simp add: blob_ok_iff)
    from parse_dtb_flat [OF assms(1) this] True show ?thesis unfolding within by auto
  next
    case False
    from parse_dtb_panics [OF assms False] obtain s' where s': "parse_dtb dtb s = (Inl Panic, s')" "dt_rest s' = dt_rest s" by blast
    moreover have "tables_ok s'" using parse_dtb_keeps_tables [OF assms(1), of dtb] s'(1) by simp
    ultimately show ?thesis using False unfolding within by auto
  qed
qed

text \<open>A tree of eleven levels, as a blob at \<open>0x4000\<close>.\<close>

primrec deep_tree :: "nat \<Rightarrow> dt_node" where
  "deep_tree 0 = Node [] [] []"
| "deep_tree (Suc n) = Node [] [] [deep_tree n]"

definition deep_blob :: "u8 list" where
  "deep_blob = cells_bytes [0xd00dfeed, 176, 40, 176, 0, 17, 16, 0, 0, 136] @ (enc_node (deep_tree 10) @ to_be_bytes (9 :: u32))"

definition deep_boot :: "store_hw kernel" where
  "deep_boot = (tree_boot tree_example)\<lparr>ram := mem_at 0x4000 deep_blob\<rparr>"

lemma deep_tree_simps:
  "length (enc_node (deep_tree n)) = 12 * n + 12" "node_height (deep_tree n) = Suc n" "readable names mem dtb os (deep_tree n)"
  by (induction n) (simp_all add: length_enc_begin)

lemma deep_blob_encodes: "blob_encodes names (ram deep_boot) 0x4000 40 176 (deep_tree 10)"
proof -
  have "length deep_blob = 176" by (simp add: deep_blob_def deep_tree_simps)
  then have "holds_bytes (ram deep_boot) 0x4000 deep_blob"
    using holds_bytes_mem_at [of deep_blob "0x4000"] by (simp add: deep_boot_def)
  then have mem: "holds_bytes (ram deep_boot) 0x4000 (cells_bytes [0xd00dfeed, 176, 40, 176, 0, 17, 16, 0, 0, 136])"
    "holds_bytes (ram deep_boot) 0x4028 (enc_node (deep_tree 10) @ to_be_bytes (9 :: u32))"
    unfolding deep_blob_def holds_bytes_append by simp_all
  show ?thesis
    unfolding blob_encodes_def
  proof (intro conjI)
    show "\<exists>v1 v4 v5 v6 v7 v8 v9. holds_bytes (ram deep_boot) 0x4000 (cells_bytes [0xd00dfeed, v1, 40, 176, v4, v5, v6, v7, v8, v9])"
      using mem(1) by blast
  qed (use mem(2) in \<open>simp_all add: deep_tree_simps\<close>)
qed

theorem parser_limits_exact_witness:
  "\<exists>s'. parse_dtb 0x4000 deep_boot = (Inl Panic, s') \<and> hw s' = hw deep_boot"
proof -
  have "boot_tables deep_boot" using tree_boot_tables by (simp add: deep_boot_def boot_tables_def)
  from parser_limits_exact [OF this deep_blob_encodes] show ?thesis by (auto simp: deep_tree_simps dt_rest_def)
qed

end
