(* ===== verification/Spec2Isabelle.thy ===== *)
theory Spec2Isabelle
  imports Preempt Virt Dtb_Limits
begin

text \<open>
  A verification library for \<^verbatim>\<open>aarch64_kernel\<close>, a bare-metal kernel for the ARMv8-A \<^verbatim>\<open>virt\<close> board written in Rust
  (paths below are under \<^verbatim>\<open>src/src/\<close>).

  \<^bold>\<open>The program.\<close> The boot assembly sets the stack and the vectors, unmasks interrupts and calls \<open>kmain\<close> with the address of a flattened device tree. \<open>kmain\<close> parses the tree into a table
  of devices, sets up the interrupt controller and then the other devices from it, turns the MMU on with an identity
  mapping, arms the timer, and then echoes typed characters for ever. Characters arrive by interrupt: the vector saves the
  registers and asks the interrupt controller for the number, the handler puts the byte into a ring buffer under
  an interrupt-safe lock, and the main loop takes it out. Everything printed goes to the UART by polling.

  \<^bold>\<open>The machine.\<close> Memory is a partial function from addresses to bytes. The devices and the system registers are hardware, not code of
  the repository: they are a parameter, a state of any type with six operations (theory \<open>Machine\<close>, record \<open>bus\<close>). A driver
  function is characterised by the register program it performs (\<open>effect\<close> of a list of \<open>regop\<close>), for every hardware;
  where a result depends on the behaviour of a device, what the device does is a hypothesis (\<open>busy_after\<close> and \<open>clears_after\<close> for a poll that
  succeeds, \<open>tx_ready\<close> for a transmitter that has room again within the polls granted, \<open>daif_ok\<close> for the interrupt mask) and a concrete
  hardware that satisfies it is given in the witness. Every operation is a function in a
  state-and-failure monad (theory \<open>Prelude\<close>); the faults are a panic, a data abort, and a busy-wait loop that is still
  waiting. A panic ends the computation; the code with its panic handler is \<open>with_panic_handler\<close> (theory \<open>Kmain\<close>).

  \<^bold>\<open>The theories\<close>, in the order of their imports:
  \<^item> \<open>Prelude\<close>: words for the Rust integers, the monad, the checked arithmetic and indexing of a debug build, and the
    calculi \<open>keeps\<close> (what a computation leaves alone), \<open>outcome\<close> (pre- and postconditions on every exit), \<open>preserves\<close> (invariants on
    every exit) and \<open>ends\<close> (no hang).
  \<^item> \<open>Machine\<close>: system registers, barriers, loads and stores, polling loops, register programs.
  \<^item> \<open>Utilities\<close>: \<^verbatim>\<open>utilities/convert.rs\<close> and \<^verbatim>\<open>utilities/mmio.rs\<close>. The locale \<open>byte_codec\<close> is the contract of a reader; it is
    interpreted for the six readers, which gives values, round trips and faults.
  \<^item> \<open>Irq_Safe_Mutex\<close>: \<^verbatim>\<open>ipc/irq_safe_mutex.rs\<close>, twice: the calls as operations on the machine state (locale \<open>mutex_place\<close>), and
    the protocol of a core and its interrupt handler as a step relation, with the proof that
    \<open>lock_irqsafe\<close> excludes and never waits on itself while the plain \<open>lock\<close> can deadlock. Each statement of a call makes the step of its
    name, and a whole call the chain of them (\<open>ctx_steps_of_statements\<close>, \<open>lock_irqsafe_in_steps\<close>).
  \<^item> \<open>Device\<close>: \<^verbatim>\<open>kernel/device.rs\<close> and the lookups of \<^verbatim>\<open>kernel/dtb.rs\<close> (properties, phandles, interrupt parents, \<open>compatible\<close>
    strings), each with its specification on well-formed tables (\<open>tables_ok\<close>).
  \<^item> \<open>Gicv3\<close>: \<^verbatim>\<open>drivers/gic/gicv3.rs\<close>, every method and wrapper, with the meaning of the read-modify-writes as updates of one
    byte, one two-bit field or one bit, and the start-up from the tree.
  \<^item> \<open>Arch_Timer\<close>: \<^verbatim>\<open>drivers/timer/arch_timer.rs\<close>, the programmed interval with its rounding and wrap-around, the set-up of the interrupt.
  \<^item> \<open>Fmt\<close>: the part of \<open>core::fmt\<close> that the printing uses, with the digits read back.
  \<^item> \<open>Pl011\<close>: \<^verbatim>\<open>drivers/uart/pl011.rs\<close>. The ring buffer implements a queue of capacity 255 (locale \<open>bounded_queue\<close>, interpreted as
    \<open>rx_queue\<close>); transmission, configuration and set-up as register programs.
  \<^item> \<open>Dtb\<close>: \<^verbatim>\<open>kernel/dtb.rs\<close>, the parser and the two passes of driver initialisation (locale \<open>driver_table\<close>). The tables stay well formed on
    every input, and the parser ends on every input.
  \<^item> \<open>Dtb_Tree\<close>: an abstract device tree and its binary encoding; the parser refines the flattening of the tree, every value in the
    table is one of the tree, and a parse amounts to the calls of the drivers that the tree asks for.
  \<^item> \<open>Dtb_Limits\<close>: the limits of the parser are exact; a tree that exceeds one of the fixed-size arrays makes it panic before any device is touched.
  \<^item> \<open>Irq\<close>: \<^verbatim>\<open>kernel/irq.rs\<close>, every handler; the receive path is a queue under any interleaving of interrupts and reads; the intervals that the boot code and the
    timer interrupt program.
  \<^item> \<open>Mm\<close>: \<^verbatim>\<open>kernel/mm/\<close>, the descriptors, the attribute registers and the identity mapping, checked against a model of the
    hardware's table walk (\<open>translate\<close>); the locale \<open>cell_store\<close> is the contract of 64-bit cells in byte memory.
  \<^item> \<open>Vectors\<close>: \<^verbatim>\<open>asm/vectors.S\<close>, the frame that the handlers get and the dump they print of it, the dispatch of every exception class, and that leaving undoes entering.
  \<^item> \<open>Kmain\<close>: \<^verbatim>\<open>lib.rs\<close>, and the running kernel as a refinement of an abstract console, through the locale
    \<open>event_simulation\<close>; what is seen of a panic.
  \<^item> \<open>Boot\<close>: \<^verbatim>\<open>linker.lds\<close> as a function from the sizes of the sections to the addresses of the symbols, and the entry point of
    \<^verbatim>\<open>asm/head.S\<close>. A loaded image satisfies what \<open>setup_identity_mapping\<close> needs, so the kernel runs from its first instruction to the console;
    the interrupt masks on the way.
  \<^item> \<open>Board\<close>, \<open>Virt\<close>: boards described by a tree. From the bytes of the blob to the register program that the drivers perform, with lookups, phandles and
    interrupt parents resolved in the encoded tree; the boot from the first instruction to the console of such a board; and the wrong set-up
    when the root's properties are lost. The tree of the \<^verbatim>\<open>virt\<close> machine is the witness.
  \<^item> \<open>Kernel_Inv\<close>: the types of the statics as an invariant of all reachable states, by rule induction over boots, exceptions, turns of the main
    loop and panics.
  \<^item> \<open>Preempt\<close>: the main loop cut at its accesses to the UART, with interrupts in between (a second interpretation of
    \<open>event_simulation\<close>): the kernel loses and reorders nothing; on a UART with a FIFO of sixteen bytes the hardware can lose a byte.

  \<^bold>\<open>Bounds.\<close> \<open>spin\<close> is the number of polls a busy-wait loop is granted; theorems that a loop returns are stated for a device that answers after
  \<open>k\<close> polls and any grant above \<open>k\<close>. The walk to the root in \<open>find_interrupt_parent\<close> is granted one step more than the table has
  entries, and on well-formed tables it always ends. The parser's loop is a total function; at most \<open>2^62\<close> tokens are
  read (\<open>parse_loop_bounded\<close>). The endless loop of \<open>kmain\<close> is given by the number of its turns.

  \<^bold>\<open>Not modelled.\<close> Undefined behaviour of raw pointers beyond unmapped addresses, and the alignment and null checks that a debug build
  adds to pointer accesses; caches, speculation and memory ordering (one core, one step at a time; after the MMU is on, addresses are those of the
  identity mapping); the contents of the stack; NOP tokens between those of an encoded tree (the parser itself handles them, \<open>parse_loop_nops\<close>);
  the constrained unpredictable \<open>ldp xzr, xzr\<close> of the exception exits other than as a pop of two words. Interrupts come in between operations, except for the lock protocol
  (\<open>Irq_Safe_Mutex\<close>) and for printing (\<open>Preempt\<close>), where they come in between instructions and accesses; interrupts during the parse and nested
  exceptions are not considered. The boot loader is a submodule without content here: what it provides is \<open>image_loaded\<close>, and the
  initial values of the statics are \<open>boot_statics\<close>. The \<^verbatim>\<open>mod.rs\<close> files only declare modules.
\<close>

end
